(* ===== verification/Snake_Prelude.thy ===== *)
theory Snake_Prelude
  imports Main "HOL-Library.Word" "HOL-Library.Multiset"
begin

text \<open>
  What every component of the model shares: the machine types of the C++ sources, the result
  type in which exceptions and undefined behaviour are values, folds that stop at the first
  error (the loops of the sources whose body may throw), and a few generic list lemmas.
\<close>

unbundle bit_operations_syntax

section \<open>Machine types\<close>

type_synonym byte = "8 word"
type_synonym bytes = "byte list"
type_synonym u16 = "16 word"
type_synonym u32 = "32 word"
type_synonym i32 = "32 word"
type_synonym i64 = "64 word"

text \<open>A cell of the arena or of a screen: \<open>std::pair<int, int>\<close>, the x coordinate first.\<close>

type_synonym cell = "int \<times> int"

text \<open>\<open>std::numeric_limits<int>::max()\<close>.\<close>

definition INT_MAX :: int where "INT_MAX = 2147483647"

named_theorems rbind_simps \<open>case analysis of results that are composed with rbind\<close>

section \<open>Results: an exception or a value\<close>

text \<open>
  A function of the sources that may throw returns a sum: \<open>Inl\<close> the exception, \<open>Inr\<close> the value.
  Sequencing two such calls is \<open>rbind\<close>.
\<close>

definition rbind :: "'e + 'a \<Rightarrow> ('a \<Rightarrow> 'e + 'b) \<Rightarrow> 'e + 'b" where
  "rbind m f = (case m of Inl e \<Rightarrow> Inl e | Inr x \<Rightarrow> f x)"

lemma rbind_Inl [simp, rbind_simps]: "rbind (Inl e) f = Inl e"
  by (simp add: rbind_def)

lemma rbind_Inr [simp, rbind_simps]: "rbind (Inr x) f = f x"
  by (simp add: rbind_def)

lemma rbind_eq_Inr [rbind_simps]: "rbind m f = Inr y \<longleftrightarrow> (\<exists>x. m = Inr x \<and> f x = Inr y)"
  by (cases m) auto

lemma rbind_eq_Inl [rbind_simps]:
  "rbind m f = Inl e \<longleftrightarrow> m = Inl e \<or> (\<exists>x. m = Inr x \<and> f x = Inl e)"
  by (cases m) auto

lemma rbind_InrE:
  assumes "rbind m f = Inr y" obtains x where "m = Inr x" and "f x = Inr y"
  using assms by (cases m) auto

lemma rbind_assoc: "rbind (rbind m f) g = rbind m (\<lambda>x. rbind (f x) g)"
  by (cases m) auto

lemma rbind_cong [fundef_cong]:
  assumes "m1 = m2" and "\<And>x. m2 = Inr x \<Longrightarrow> f1 x = f2 x"
  shows "rbind m1 f1 = rbind m2 f2"
  using assms by (cases m2) auto

text \<open>\<open>guard_or e b\<close> throws \<open>e\<close> unless \<open>b\<close> holds.\<close>

definition guard_or :: "'e \<Rightarrow> bool \<Rightarrow> 'e + unit" where
  "guard_or e b = (if b then Inr () else Inl e)"

lemma guard_or_True [simp]: "guard_or e True = Inr ()"
  by (simp add: guard_or_def)

lemma guard_or_False [simp]: "guard_or e False = Inl e"
  by (simp add: guard_or_def)

lemma guard_or_eq_Inr [rbind_simps]: "guard_or e b = Inr u \<longleftrightarrow> b"
  by (simp add: guard_or_def)

section \<open>Loops whose body may throw\<close>

primrec rfold :: "('a \<Rightarrow> 's \<Rightarrow> 'e + 's) \<Rightarrow> 'a list \<Rightarrow> 's \<Rightarrow> 'e + 's" where
  "rfold f [] s = Inr s"
| "rfold f (x # xs) s = rbind (f x s) (rfold f xs)"

lemma rfold_append: "rfold f (xs @ ys) s = rbind (rfold f xs s) (rfold f ys)"
proof (induction xs arbitrary: s)
  case Nil
  then show ?case by simp
next
  case (Cons x xs)
  then show ?case by (cases "f x s") simp_all
qed

text \<open>A loop none of whose iterations throws, and whose body keeps an invariant, returns.\<close>

lemma rfold_total:
  assumes "I s" and "\<And>x s. x \<in> set xs \<Longrightarrow> I s \<Longrightarrow> \<exists>s'. f x s = Inr s' \<and> I s'"
  shows "\<exists>s'. rfold f xs s = Inr s' \<and> I s'"
  using assms
proof (induction xs arbitrary: s)
  case Nil
  then show ?case by simp
next
  case (Cons x xs)
  then obtain s1 where "f x s = Inr s1" and "I s1" by fastforce
  with Cons.IH [of s1] Cons.prems(2) show ?case by simp
qed

text \<open>The same with an invariant that knows which elements are still to come.\<close>

lemma rfold_total_list:
  assumes "I xs s"
    and "\<And>x ys s. I (x # ys) s \<Longrightarrow> \<exists>s'. f x s = Inr s' \<and> I ys s'"
  shows "\<exists>s'. rfold f xs s = Inr s' \<and> I [] s'"
  using assms(1)
proof (induction xs arbitrary: s)
  case Nil
  then show ?case by simp
next
  case (Cons x xs)
  from assms(2) [OF Cons.prems] obtain s1 where "f x s = Inr s1" and "I xs s1" by blast
  with Cons.IH [of s1] show ?case by simp
qed

lemma rfold_preserves:
  assumes "rfold f xs s = Inr s'" and "I s"
    and "\<And>x s s'. x \<in> set xs \<Longrightarrow> I s \<Longrightarrow> f x s = Inr s' \<Longrightarrow> I s'"
  shows "I s'"
  using assms
proof (induction xs arbitrary: s)
  case Nil
  then show ?case by simp
next
  case (Cons x xs)
  from Cons.prems(1) obtain s1 where "f x s = Inr s1" and "rfold f xs s1 = Inr s'"
    by (auto simp: rbind_eq_Inr)
  with Cons show ?case by (metis list.set_intros)
qed

text \<open>A loop whose body never throws is a plain fold.\<close>

lemma rfold_fold:
  assumes "\<And>x s. x \<in> set xs \<Longrightarrow> f x s = Inr (g x s)"
  shows "rfold f xs s = Inr (fold g xs s)"
  using assms by (induction xs arbitrary: s) auto

section \<open>Lists\<close>

lemma butlast_append_single [simp]: "butlast (xs @ [x]) = xs"
  by simp

lemma map_of_map_value:
  "map_of (map (\<lambda>k. (k, f k)) ks) k = (if k \<in> set ks then Some (f k) else None)"
  by (induction ks) auto

lemma set_tl_subset: "set (tl xs) \<subseteq> set xs"
  by (cases xs) auto

lemma take_append_exact [simp]: "length xs = n \<Longrightarrow> take n (xs @ ys) = xs"
  by simp

lemma drop_append_exact [simp]: "length xs = n \<Longrightarrow> drop n (xs @ ys) = ys"
  by simp

section \<open>Systems with an invariant\<close>

text \<open>
  A step relation with an invariant and a preorder along which every step goes. Clients use it
  for all states reachable in any number of steps.
\<close>

locale invariant_system =
  fixes step :: "'s \<Rightarrow> 's \<Rightarrow> bool"
    and inv :: "'s \<Rightarrow> bool"
    and grows :: "'s \<Rightarrow> 's \<Rightarrow> bool"
  assumes step_inv: "inv s \<Longrightarrow> step s s' \<Longrightarrow> inv s'"
    and step_grows: "inv s \<Longrightarrow> step s s' \<Longrightarrow> grows s s'"
    and grows_refl: "grows s s"
    and grows_trans: "grows s s' \<Longrightarrow> grows s' s'' \<Longrightarrow> grows s s''"
begin

lemma reachable_inv: "step\<^sup>*\<^sup>* s s' \<Longrightarrow> inv s \<Longrightarrow> inv s'"
  by (induction rule: rtranclp_induct) (auto intro: step_inv)

lemma reachable_grows: "step\<^sup>*\<^sup>* s s' \<Longrightarrow> inv s \<Longrightarrow> grows s s'"
  by (induction rule: rtranclp_induct) (auto intro: grows_refl grows_trans step_grows reachable_inv)

end

end
