(* ===== verification/Wire.thy ===== *)
theory Wire
  imports Snake_Prelude
begin

text \<open>
  The byte level of \<open>include/common/Protocol.h\<close>: \<open>readRawBytes\<close>, \<open>writeRawBytes\<close> and
  \<open>appendRawBytes\<close>, which copy the object representation of an integer or of a char array
  from or to a buffer (\<open>std::memcpy\<close>). The sources assume a little-endian host, so the
  representation of a w-bit integer is its bytes, least significant first. The laws a field
  encoding has are a locale, \<open>codec\<close> and \<open>strict_codec\<close>, interpreted here for integers and
  char arrays and in \<open>Protocol\<close> for the structures of a message; sequences of fields and
  counted lists are proved once, inside the locales.
\<close>

section \<open>Object representations\<close>

definition le_bytes :: "nat \<Rightarrow> 'a::len word \<Rightarrow> bytes" where
  "le_bytes n w = map (\<lambda>i. ucast (drop_bit (8 * i) w)) [0..<n]"

primrec le_word :: "bytes \<Rightarrow> 'a::len word" where
  "le_word [] = 0"
| "le_word (b # bs) = ucast b OR push_bit 8 (le_word bs)"

definition sizeof_word :: "'a::len itself \<Rightarrow> nat" where
  "sizeof_word t = LENGTH('a) div 8"

definition raw :: "'a::len word \<Rightarrow> bytes" where
  "raw w = le_bytes (sizeof_word TYPE('a)) w"

lemma length_le_bytes [simp]: "length (le_bytes n w) = n"
  by (simp add: le_bytes_def)

lemma length_raw [simp]: "length (raw (w :: 'a::len word)) = LENGTH('a) div 8"
  by (simp add: raw_def sizeof_word_def)

lemma bit_le_word:
  "bit (le_word bs :: 'a::len word) i \<longleftrightarrow>
     i < LENGTH('a) \<and> i div 8 < length bs \<and> bit (bs ! (i div 8)) (i mod 8)"
proof (induction bs arbitrary: i)
  case Nil
  then show ?case by simp
next
  case (Cons b bs)
  show ?case
  proof (cases "i < 8")
    case True
    then show ?thesis
      by (auto simp: bit_simps dest: bit_imp_le_length)
  next
    case False
    then have "i div 8 = Suc ((i - 8) div 8)" and "i mod 8 = (i - 8) mod 8"
      by (simp_all add: le_div_geq le_mod_geq)
    with False show ?thesis
      by (auto simp: bit_simps Cons.IH dest: bit_imp_le_length)
  qed
qed

lemma le_word_le_bytes:
  assumes "LENGTH('a) = 8 * n"
  shows "le_word (le_bytes n (w :: 'a::len word)) = w"
proof (rule bit_word_eqI)
  fix i assume "i < LENGTH('a)"
  then have "i div 8 < n" using assms by (simp add: less_mult_imp_div_less mult.commute)
  with \<open>i < LENGTH('a)\<close> show "bit (le_word (le_bytes n w) :: 'a word) i = bit w i"
    by (simp add: bit_le_word le_bytes_def bit_simps)
qed

lemma le_bytes_le_word:
  assumes "LENGTH('a) = 8 * length bs"
  shows "le_bytes (length bs) (le_word bs :: 'a::len word) = bs"
proof (rule nth_equalityI)
  show "length (le_bytes (length bs) (le_word bs :: 'a word)) = length bs" by simp
next
  fix i assume "i < length (le_bytes (length bs) (le_word bs :: 'a word))"
  then have i: "i < length bs" by simp
  show "le_bytes (length bs) (le_word bs :: 'a word) ! i = bs ! i"
  proof (rule bit_word_eqI)
    fix j assume "j < LENGTH(8)"
    then have "(8 * i + j) div 8 = i" and "(8 * i + j) mod 8 = j" and "8 * i + j < LENGTH('a)"
      using i assms by auto
    with i \<open>j < LENGTH(8)\<close>
    show "bit (le_bytes (length bs) (le_word bs :: 'a word) ! i) j = bit (bs ! i) j"
      by (simp add: le_bytes_def bit_simps bit_le_word)
  qed
qed

section \<open>Reading from and writing to buffers\<close>

datatype wire_error =
    TruncatedFrame \<comment> \<open>\<open>deserialise: truncated frame\<close>\<close>
  | UnexpectedSize nat nat \<comment> \<open>buffer size, expected size\<close>
  | InvalidMessageType
  | BufferOverflow \<comment> \<open>a \<open>memcpy\<close> past the end of the destination (undefined behaviour)\<close>

text \<open>
  The reader's state is what lies between \<open>source\<close> and \<open>end\<close>. The integer type decides how
  many bytes are read, as the template parameter does.
\<close>

definition read_bytes :: "nat \<Rightarrow> bytes \<Rightarrow> wire_error + (bytes \<times> bytes)" where
  "read_bytes n src = (if length src < n then Inl TruncatedFrame else Inr (take n src, drop n src))"

definition readRawBytes :: "bytes \<Rightarrow> wire_error + ('a::len word \<times> bytes)" where
  "readRawBytes src =
     rbind (read_bytes (sizeof_word TYPE('a)) src) (\<lambda>(bs, rest). Inr (le_word bs, rest))"

text \<open>
  The fixed-size writer's state is the whole buffer and the offset of \<open>dest\<close> in it; a copy
  that does not fit is undefined behaviour in C++ and an error here.
\<close>

definition write_bytes :: "bytes \<Rightarrow> bytes \<times> nat \<Rightarrow> wire_error + (bytes \<times> nat)" where
  "write_bytes src dst =
     (let (buf, pos) = dst; n = length src in
      if length buf < pos + n then Inl BufferOverflow
      else Inr (take pos buf @ src @ drop (pos + n) buf, pos + n))"

definition writeRawBytes :: "'a::len word \<Rightarrow> bytes \<times> nat \<Rightarrow> wire_error + (bytes \<times> nat)" where
  "writeRawBytes w dst = write_bytes (raw w) dst"

definition appendRawBytes :: "'a::len word \<Rightarrow> bytes \<Rightarrow> bytes" where
  "appendRawBytes w dest = dest @ raw w"

text \<open>\<open>std::string::resize\<close> pads with NUL bytes.\<close>

definition resize :: "nat \<Rightarrow> bytes \<Rightarrow> bytes" where
  "resize n buf = take n buf @ replicate (n - length buf) 0"

lemma length_resize [simp]: "length (resize n buf) = n"
  by (simp add: resize_def)

text \<open>
  A buffer that has been filled up to the offset: writing extends the filled part. A write
  that would not fit is the only way to fail. A run of \<open>writeRawBytes\<close> calls is a fold over
  the fields in the order of the calls.
\<close>

lemma write_bytes_filled:
  assumes "length src \<le> k"
  shows "write_bytes src (done @ replicate k 0, length done) =
         Inr ((done @ src) @ replicate (k - length src) 0, length (done @ src))"
  using assms by (simp add: write_bytes_def Let_def)

lemma write_fields_filled:
  "length (concat fs) \<le> k \<Longrightarrow>
     rfold write_bytes fs (done @ replicate k 0, length done) =
     Inr ((done @ concat fs) @ replicate (k - length (concat fs)) 0, length (done @ concat fs))"
proof (induction fs arbitrary: k "done")
  case Nil
  then show ?case by simp
next
  case (Cons f fs)
  then have 1: "length f \<le> k" and 2: "length (concat fs) \<le> k - length f" by auto
  show ?case
    unfolding rfold.simps write_bytes_filled [OF 1] rbind_Inr Cons.IH [OF 2]
    by simp
qed

lemma write_fields_resize:
  assumes "length buf = h" and "h + length (concat fs) = n"
  shows "rfold write_bytes fs (resize n buf, h) = Inr (buf @ concat fs, n)"
proof -
  have "resize n buf = buf @ replicate (n - h) 0" using assms by (simp add: resize_def)
  with write_fields_filled [of fs "n - h" buf] assms show ?thesis by simp
qed

lemma fold_append_enc:
  assumes "\<And>x d. app x d = d @ enc x"
  shows "fold app xs d = d @ concat (map enc xs)"
  by (induction xs arbitrary: d) (simp_all add: assms)

lemma write_bytes_overflow:
  "length buf < pos + length src \<Longrightarrow> write_bytes src (buf, pos) = Inl BufferOverflow"
  by (simp add: write_bytes_def)

section \<open>The laws of an encoding\<close>

text \<open>
  \<open>codec\<close>: decoding an encoded value gives it back and leaves exactly the bytes that follow.
  \<open>strict_codec\<close>: moreover a value is only ever decoded from its own encoding.
\<close>

primrec read_n :: "(bytes \<Rightarrow> 'e + ('a \<times> bytes)) \<Rightarrow> nat \<Rightarrow> bytes \<Rightarrow> 'e + ('a list \<times> bytes)" where
  "read_n dec 0 src = Inr ([], src)"
| "read_n dec (Suc n) src =
     rbind (dec src) (\<lambda>(x, rest). rbind (read_n dec n rest) (\<lambda>(xs, rest'). Inr (x # xs, rest')))"

locale codec =
  fixes enc :: "'a \<Rightarrow> bytes"
    and dec :: "bytes \<Rightarrow> wire_error + ('a \<times> bytes)"
    and valid :: "'a \<Rightarrow> bool"
  assumes dec_enc: "valid x \<Longrightarrow> dec (enc x @ r) = Inr (x, r)"
begin

lemma dec_enc_nil: "valid x \<Longrightarrow> dec (enc x) = Inr (x, [])"
  using dec_enc [of x "[]"] by simp

lemma enc_inj: "valid x \<Longrightarrow> valid y \<Longrightarrow> enc x @ r = enc y @ r' \<Longrightarrow> x = y \<and> r = r'"
  by (metis dec_enc sum.inject(2) prod.inject)

lemma read_n_enc:
  "\<forall>x\<in>set xs. valid x \<Longrightarrow> read_n dec (length xs) (concat (map enc xs) @ r) = Inr (xs, r)"
  by (induction xs) (auto simp: dec_enc)

end

locale strict_codec = codec +
  assumes enc_dec: "dec src = Inr (x, r) \<Longrightarrow> valid x \<and> src = enc x @ r"
    and dec_truncated: "dec src = Inl e \<Longrightarrow> e = TruncatedFrame"
begin

text \<open>No proper prefix of an encoding decodes: the reader asks for more bytes.\<close>

lemma dec_prefix:
  assumes "valid x" and "k < length (enc x)"
  shows "dec (take k (enc x)) = Inl TruncatedFrame"
proof (cases "dec (take k (enc x))")
  case (Inl e)
  then show ?thesis by (simp add: dec_truncated)
next
  case (Inr yr)
  obtain y r where yr: "yr = (y, r)" by (cases yr)
  with Inr enc_dec have y: "valid y" "take k (enc x) = enc y @ r" by blast+
  have "enc x @ [] = enc y @ (r @ drop k (enc x))"
    using y(2) by (metis append.assoc append_Nil2 append_take_drop_id)
  with assms(1) y(1) have "[] = r @ drop k (enc x)" by (blast dest: enc_inj)
  with assms(2) show ?thesis by simp
qed

lemma read_n_dec:
  "read_n dec n src = Inr (xs, r) \<Longrightarrow>
     length xs = n \<and> (\<forall>x\<in>set xs. valid x) \<and> src = concat (map enc xs) @ r"
proof (induction n arbitrary: src xs)
  case 0
  then show ?case by simp
next
  case (Suc n)
  then obtain x rest ys where
    1: "dec src = Inr (x, rest)" and 2: "read_n dec n rest = Inr (ys, r)" and 3: "xs = x # ys"
    by (auto simp: rbind_eq_Inr)
  from enc_dec [OF 1] Suc.IH [OF 2] 3 show ?case by simp
qed

lemma read_n_truncated: "read_n dec n src = Inl e \<Longrightarrow> e = TruncatedFrame"
  by (induction n arbitrary: src) (auto simp: rbind_eq_Inl dec_truncated)

lemma read_n_prefix:
  "\<forall>x\<in>set xs. valid x \<Longrightarrow> k < length (concat (map enc xs)) \<Longrightarrow>
     read_n dec (length xs) (take k (concat (map enc xs))) = Inl TruncatedFrame"
proof (induction xs arbitrary: k)
  case Nil
  then show ?case by simp
next
  case (Cons x xs)
  show ?case
  proof (cases "k < length (enc x)")
    case True
    with Cons.prems show ?thesis by (simp add: dec_prefix)
  next
    case False
    with Cons.prems Cons.IH [of "k - length (enc x)"] show ?thesis
      by (simp add: dec_enc)
  qed
qed

end

section \<open>Integers and char arrays are strict codecs\<close>

lemma readRawBytes_raw:
  assumes "LENGTH('a) = 8 * n"
  shows "readRawBytes (raw w @ r) = Inr (w :: 'a::len word, r)"
  using assms
  by (simp add: readRawBytes_def read_bytes_def sizeof_word_def raw_def le_word_le_bytes)

lemma readRawBytes_Inr:
  assumes "LENGTH('a) = 8 * n" and "readRawBytes src = Inr (w :: 'a::len word, r)"
  shows "src = raw w @ r"
proof -
  from assms have len: "n \<le> length src" and w: "w = le_word (take n src)" and r: "r = drop n src"
    by (auto simp: readRawBytes_def read_bytes_def sizeof_word_def rbind_eq_Inr split: if_splits)
  from len assms(1) have "le_bytes n w = take n src"
    unfolding w using le_bytes_le_word [of "take n src", where ?'a = 'a] by simp
  then show ?thesis using r assms(1) by (simp add: raw_def sizeof_word_def)
qed

lemma readRawBytes_short:
  "length src < LENGTH('a) div 8 \<Longrightarrow> (readRawBytes src :: wire_error + ('a::len word \<times> bytes)) = Inl TruncatedFrame"
  by (simp add: readRawBytes_def read_bytes_def sizeof_word_def)

lemma readRawBytes_Inl: "readRawBytes src = Inl e \<Longrightarrow> e = TruncatedFrame"
  by (auto simp: readRawBytes_def read_bytes_def rbind_eq_Inl split: if_splits)

lemma word_strict_codec:
  assumes "LENGTH('a) = 8 * n"
  shows "strict_codec (raw :: 'a::len word \<Rightarrow> bytes) readRawBytes (\<lambda>_. True)"
proof unfold_locales
  fix w :: "'a word" and r
  show "readRawBytes (raw w @ r) = Inr (w, r)" using assms by (rule readRawBytes_raw)
next
  fix src r and w :: "'a word"
  assume "readRawBytes src = Inr (w, r)"
  with assms show "True \<and> src = raw w @ r" by (blast dest: readRawBytes_Inr)
next
  fix src e
  assume "(readRawBytes src :: wire_error + ('a word \<times> bytes)) = Inl e"
  then show "e = TruncatedFrame" by (rule readRawBytes_Inl)
qed

interpretation w8: strict_codec "raw :: byte \<Rightarrow> bytes" readRawBytes "\<lambda>_. True"
  by (rule word_strict_codec [of 1]) simp

interpretation w32: strict_codec "raw :: 32 word \<Rightarrow> bytes" readRawBytes "\<lambda>_. True"
  by (rule word_strict_codec [of 4]) simp

interpretation w64: strict_codec "raw :: 64 word \<Rightarrow> bytes" readRawBytes "\<lambda>_. True"
  by (rule word_strict_codec [of 8]) simp

lemma read_bytes_strict_codec: "strict_codec (\<lambda>bs. bs) (read_bytes n) (\<lambda>bs. length bs = n)"
  by unfold_locales (auto simp: read_bytes_def split: if_splits)

interpretation char16: strict_codec "\<lambda>bs. bs" "read_bytes 16" "\<lambda>bs. length bs = 16"
  by (rule read_bytes_strict_codec)

lemmas read_field_simps =
  w8.dec_enc w32.dec_enc w64.dec_enc w8.dec_enc_nil w32.dec_enc_nil w64.dec_enc_nil
  char16.dec_enc char16.dec_enc_nil

end
