(* ===== verification/Protocol.thy ===== *)
theory Protocol
  imports Wire
begin

text \<open>
  \<open>include/common/Protocol.h\<close>: the message structures, \<open>serialise\<close> and \<open>deserialise\<close>.
  A structure is a record with the fields of the source in their order; a char array of 16
  bytes is a byte list of length 16 (\<open>wf_msg\<close>); \<open>std::variant\<close> is the datatype
  \<open>MessageVariant\<close>. The lemmas show that every serialisation fits its packed size exactly,
  that deserialising gives the message back, that a frame is only ever read from a
  serialisation, and that no truncated frame is accepted.
\<close>

section \<open>Message types and structures\<close>

datatype MessageType =
    SERVER_CONFIG | CLIENT_JOIN | CLIENT_DISCONNECT | SERVER_WELCOME | CLIENT_INPUT | GAME_STATE

text \<open>The enumerators of \<open>enum class MessageType : int32_t\<close>; any other value is no enumerator.\<close>

primrec mt_code :: "MessageType \<Rightarrow> i32" where
  "mt_code SERVER_CONFIG = 0"
| "mt_code CLIENT_JOIN = 1"
| "mt_code CLIENT_DISCONNECT = 2"
| "mt_code SERVER_WELCOME = 3"
| "mt_code CLIENT_INPUT = 4"
| "mt_code GAME_STATE = 5"

definition mt_of :: "i32 \<Rightarrow> MessageType option" where
  "mt_of c =
     (if c = 0 then Some SERVER_CONFIG else if c = 1 then Some CLIENT_JOIN
      else if c = 2 then Some CLIENT_DISCONNECT else if c = 3 then Some SERVER_WELCOME
      else if c = 4 then Some CLIENT_INPUT else if c = 5 then Some GAME_STATE else None)"

lemma mt_of_code [simp]: "mt_of (mt_code t) = Some t"
  by (cases t) (simp_all add: mt_of_def)

lemma mt_of_Some: "mt_of c = Some t \<longleftrightarrow> c = mt_code t"
  by (cases t) (auto simp: mt_of_def split: if_splits)

record Header =
  messageType :: i32
  clientId :: i32
  sequence :: i64
  transactTime :: i64

text \<open>The default member initialisers: \<open>clientId\<close>, \<open>sequence\<close> and \<open>transactTime\<close> are -1.\<close>

definition header_of :: "MessageType \<Rightarrow> i32 \<Rightarrow> Header" where
  "header_of t cid = \<lparr>messageType = mt_code t, clientId = cid, sequence = -1, transactTime = -1\<rparr>"

record ServerConfigMsg =
  sc_hdr :: Header
  sc_width :: i32
  sc_height :: i32
  sc_seed :: u32
  sc_minFoodInArena :: i32
  sc_foodSpawnFromBodySegmentProbability :: i32
  sc_speedBoostProbability :: i32
  sc_speedBoostRatio :: "32 word" \<comment> \<open>the bits of the float, which is only ever copied\<close>
  sc_movementFrequencyMs :: i64
  sc_boostedMovementFrequencyMs :: i64
  sc_boostDurationMs :: i64

record ClientInputMsg =
  ci_hdr :: Header
  ci_input :: byte

record ClientDisconnectMsg =
  cd_hdr :: Header

record ServerWelcomeMsg =
  sw_hdr :: Header

record ClientJoinMsg =
  cj_hdr :: Header
  cj_username :: bytes

record GSFood =
  gf_color :: i32
  gf_icon :: byte
  gf_x :: i32
  gf_y :: i32

record GSPlayer =
  gp_clientId :: i32
  gp_color :: i32
  gp_direction :: byte
  gp_score :: i32
  gp_username :: bytes
  gp_segments :: "(i32 \<times> i32) list"

record GameStateMsg =
  gs_hdr :: Header
  gs_highScore :: i32
  gs_highScoreUsername :: bytes
  gs_food :: "GSFood list"
  gs_speedBoosts :: "GSFood list"
  gs_players :: "GSPlayer list"

datatype MessageVariant =
    VServerConfig ServerConfigMsg
  | VClientInput ClientInputMsg
  | VClientDisconnect ClientDisconnectMsg
  | VServerWelcome ServerWelcomeMsg
  | VClientJoin ClientJoinMsg
  | VGameState GameStateMsg

primrec header :: "MessageVariant \<Rightarrow> Header" where
  "header (VServerConfig m) = sc_hdr m"
| "header (VClientInput m) = ci_hdr m"
| "header (VClientDisconnect m) = cd_hdr m"
| "header (VServerWelcome m) = sw_hdr m"
| "header (VClientJoin m) = cj_hdr m"
| "header (VGameState m) = gs_hdr m"

text \<open>The non-const overload returns a reference; writing through it is \<open>header_update\<close>.\<close>

primrec header_update :: "(Header \<Rightarrow> Header) \<Rightarrow> MessageVariant \<Rightarrow> MessageVariant" where
  "header_update f (VServerConfig m) = VServerConfig (m\<lparr>sc_hdr := f (sc_hdr m)\<rparr>)"
| "header_update f (VClientInput m) = VClientInput (m\<lparr>ci_hdr := f (ci_hdr m)\<rparr>)"
| "header_update f (VClientDisconnect m) = VClientDisconnect (m\<lparr>cd_hdr := f (cd_hdr m)\<rparr>)"
| "header_update f (VServerWelcome m) = VServerWelcome (m\<lparr>sw_hdr := f (sw_hdr m)\<rparr>)"
| "header_update f (VClientJoin m) = VClientJoin (m\<lparr>cj_hdr := f (cj_hdr m)\<rparr>)"
| "header_update f (VGameState m) = VGameState (m\<lparr>gs_hdr := f (gs_hdr m)\<rparr>)"

lemma header_header_update [simp]: "header (header_update f m) = f (header m)"
  by (cases m) simp_all

section \<open>Packed sizes\<close>

definition HEADER_PACKED_SIZE :: nat where
  "HEADER_PACKED_SIZE = 4 + 4 + 8 + 8"

definition SERVER_CONFIG_PACKED_SIZE :: nat where
  "SERVER_CONFIG_PACKED_SIZE = HEADER_PACKED_SIZE + 4 + 4 + 4 + 4 + 4 + 4 + 4 + 8 + 8 + 8"

definition CLIENT_INPUT_PACKED_SIZE :: nat where
  "CLIENT_INPUT_PACKED_SIZE = HEADER_PACKED_SIZE + 1"

definition CLIENT_DISCONNECT_PACKED_SIZE :: nat where
  "CLIENT_DISCONNECT_PACKED_SIZE = HEADER_PACKED_SIZE"

definition SERVER_WELCOME_PACKED_SIZE :: nat where
  "SERVER_WELCOME_PACKED_SIZE = HEADER_PACKED_SIZE"

definition CLIENT_JOIN_PACKED_SIZE :: nat where
  "CLIENT_JOIN_PACKED_SIZE = HEADER_PACKED_SIZE + 16"

lemmas packed_sizes =
  HEADER_PACKED_SIZE_def SERVER_CONFIG_PACKED_SIZE_def CLIENT_INPUT_PACKED_SIZE_def
  CLIENT_DISCONNECT_PACKED_SIZE_def SERVER_WELCOME_PACKED_SIZE_def CLIENT_JOIN_PACKED_SIZE_def

section \<open>Serialising\<close>

text \<open>
  The fixed-size messages resize the buffer to the packed size and write the fields at the
  cursor; each list entry is one \<open>writeRawBytes\<close> call.
\<close>

definition serialiseHeader :: "Header \<Rightarrow> wire_error + bytes" where
  "serialiseHeader h =
     rbind (rfold write_bytes
              [raw (messageType h), raw (clientId h), raw (sequence h), raw (transactTime h)]
              (resize HEADER_PACKED_SIZE [], 0))
       (\<lambda>(buf, _). Inr buf)"

definition serialise_fixed :: "Header \<Rightarrow> nat \<Rightarrow> bytes list \<Rightarrow> wire_error + bytes" where
  "serialise_fixed h sz flds =
     rbind (serialiseHeader h) (\<lambda>buf.
       rbind (rfold write_bytes flds (resize sz buf, HEADER_PACKED_SIZE))
         (\<lambda>(buf', _). Inr buf'))"

definition serialise_ServerConfig :: "ServerConfigMsg \<Rightarrow> wire_error + bytes" where
  "serialise_ServerConfig m = serialise_fixed (sc_hdr m) SERVER_CONFIG_PACKED_SIZE
     [raw (sc_width m), raw (sc_height m), raw (sc_seed m), raw (sc_minFoodInArena m),
      raw (sc_foodSpawnFromBodySegmentProbability m), raw (sc_speedBoostProbability m),
      raw (sc_speedBoostRatio m), raw (sc_movementFrequencyMs m),
      raw (sc_boostedMovementFrequencyMs m), raw (sc_boostDurationMs m)]"

definition serialise_ClientInput :: "ClientInputMsg \<Rightarrow> wire_error + bytes" where
  "serialise_ClientInput m = serialise_fixed (ci_hdr m) CLIENT_INPUT_PACKED_SIZE [raw (ci_input m)]"

definition serialise_ClientJoin :: "ClientJoinMsg \<Rightarrow> wire_error + bytes" where
  "serialise_ClientJoin m = serialise_fixed (cj_hdr m) CLIENT_JOIN_PACKED_SIZE [cj_username m]"

text \<open>The game state grows its buffer with \<open>appendRawBytes\<close>.\<close>

definition append_food :: "GSFood \<Rightarrow> bytes \<Rightarrow> bytes" where
  "append_food f buf =
     (let buf = appendRawBytes (gf_color f) buf;
          buf = appendRawBytes (gf_icon f) buf;
          buf = appendRawBytes (gf_x f) buf
      in appendRawBytes (gf_y f) buf)"

definition append_segment :: "i32 \<times> i32 \<Rightarrow> bytes \<Rightarrow> bytes" where
  "append_segment s buf = appendRawBytes (snd s) (appendRawBytes (fst s) buf)"

definition append_player :: "GSPlayer \<Rightarrow> bytes \<Rightarrow> bytes" where
  "append_player p buf =
     (let buf = appendRawBytes (gp_clientId p) buf;
          buf = appendRawBytes (gp_color p) buf;
          buf = appendRawBytes (gp_direction p) buf;
          buf = appendRawBytes (gp_score p) buf;
          buf = buf @ gp_username p;
          buf = appendRawBytes (of_nat (length (gp_segments p)) :: u32) buf
      in fold append_segment (gp_segments p) buf)"

definition serialise_GameState :: "GameStateMsg \<Rightarrow> wire_error + bytes" where
  "serialise_GameState m =
     rbind (serialiseHeader (gs_hdr m)) (\<lambda>buf.
       let buf = appendRawBytes (gs_highScore m) buf;
           buf = buf @ gs_highScoreUsername m;
           buf = appendRawBytes (of_nat (length (gs_food m)) :: u32) buf;
           buf = fold append_food (gs_food m) buf;
           buf = appendRawBytes (of_nat (length (gs_speedBoosts m)) :: u32) buf;
           buf = fold append_food (gs_speedBoosts m) buf;
           buf = appendRawBytes (of_nat (length (gs_players m)) :: u32) buf
       in Inr (fold append_player (gs_players m) buf))"

primrec serialise :: "MessageVariant \<Rightarrow> wire_error + bytes" where
  "serialise (VServerConfig m) = serialise_ServerConfig m"
| "serialise (VClientInput m) = serialise_ClientInput m"
| "serialise (VClientDisconnect m) = serialiseHeader (cd_hdr m)"
| "serialise (VServerWelcome m) = serialiseHeader (sw_hdr m)"
| "serialise (VClientJoin m) = serialise_ClientJoin m"
| "serialise (VGameState m) = serialise_GameState m"

section \<open>Deserialising\<close>

definition deserialiseHeader :: "bytes \<Rightarrow> wire_error + Header" where
  "deserialiseHeader buf =
     rbind (readRawBytes buf) (\<lambda>(t, src). rbind (readRawBytes src) (\<lambda>(c, src).
     rbind (readRawBytes src) (\<lambda>(s, src). rbind (readRawBytes src) (\<lambda>(tt, src).
       Inr \<lparr>messageType = t, clientId = c, sequence = s, transactTime = tt\<rparr>))))"

definition read_server_config :: "Header \<Rightarrow> bytes \<Rightarrow> wire_error + (ServerConfigMsg \<times> bytes)" where
  "read_server_config hdr src =
     rbind (readRawBytes src) (\<lambda>(w, src). rbind (readRawBytes src) (\<lambda>(h, src).
     rbind (readRawBytes src) (\<lambda>(sd, src). rbind (readRawBytes src) (\<lambda>(mf, src).
     rbind (readRawBytes src) (\<lambda>(fp, src). rbind (readRawBytes src) (\<lambda>(bp, src).
     rbind (readRawBytes src) (\<lambda>(br, src). rbind (readRawBytes src) (\<lambda>(mv, src).
     rbind (readRawBytes src) (\<lambda>(bm, src). rbind (readRawBytes src) (\<lambda>(bd, src).
       Inr (\<lparr>sc_hdr = hdr, sc_width = w, sc_height = h, sc_seed = sd, sc_minFoodInArena = mf,
             sc_foodSpawnFromBodySegmentProbability = fp, sc_speedBoostProbability = bp,
             sc_speedBoostRatio = br, sc_movementFrequencyMs = mv,
             sc_boostedMovementFrequencyMs = bm, sc_boostDurationMs = bd\<rparr>, src)))))))))))"

definition read_food :: "bytes \<Rightarrow> wire_error + (GSFood \<times> bytes)" where
  "read_food src =
     rbind (readRawBytes src) (\<lambda>(c, src). rbind (readRawBytes src) (\<lambda>(i, src).
     rbind (readRawBytes src) (\<lambda>(x, src). rbind (readRawBytes src) (\<lambda>(y, src).
       Inr (\<lparr>gf_color = c, gf_icon = i, gf_x = x, gf_y = y\<rparr>, src)))))"

definition read_segment :: "bytes \<Rightarrow> wire_error + ((i32 \<times> i32) \<times> bytes)" where
  "read_segment src =
     rbind (readRawBytes src) (\<lambda>(a, src). rbind (readRawBytes src) (\<lambda>(b, src). Inr ((a, b), src)))"

text \<open>
  A counted list: the \<open>uint32_t\<close> count, then that many elements. The code first reserves memory for
  the count. If there is not enough of it, \<open>bad_alloc\<close> is thrown there; a count the memory cannot
  hold is not followed by that many elements in a frame of either size limit, so the model throws
  too, but \<open>TruncatedFrame\<close>.
\<close>

definition read_counted :: "(bytes \<Rightarrow> wire_error + ('a \<times> bytes)) \<Rightarrow> bytes \<Rightarrow> wire_error + ('a list \<times> bytes)" where
  "read_counted dec src = rbind (readRawBytes src) (\<lambda>(n :: u32, src). read_n dec (unat n) src)"

definition read_player :: "bytes \<Rightarrow> wire_error + (GSPlayer \<times> bytes)" where
  "read_player src =
     rbind (readRawBytes src) (\<lambda>(i, src). rbind (readRawBytes src) (\<lambda>(c, src).
     rbind (readRawBytes src) (\<lambda>(d, src). rbind (readRawBytes src) (\<lambda>(s, src).
     rbind (read_bytes 16 src) (\<lambda>(u, src). rbind (read_counted read_segment src) (\<lambda>(sg, src).
       Inr (\<lparr>gp_clientId = i, gp_color = c, gp_direction = d, gp_score = s,
             gp_username = u, gp_segments = sg\<rparr>, src)))))))"

definition read_game_state :: "Header \<Rightarrow> bytes \<Rightarrow> wire_error + (GameStateMsg \<times> bytes)" where
  "read_game_state hdr src =
     rbind (readRawBytes src) (\<lambda>(hs, src). rbind (read_bytes 16 src) (\<lambda>(hu, src).
     rbind (read_counted read_food src) (\<lambda>(fd, src).
     rbind (read_counted read_food src) (\<lambda>(sb, src).
     rbind (read_counted read_player src) (\<lambda>(pl, src).
       Inr (\<lparr>gs_hdr = hdr, gs_highScore = hs, gs_highScoreUsername = hu, gs_food = fd,
             gs_speedBoosts = sb, gs_players = pl\<rparr>, src))))))"

definition expect_size :: "bytes \<Rightarrow> nat \<Rightarrow> wire_error + 'a \<Rightarrow> wire_error + 'a" where
  "expect_size buf n k = (if length buf \<noteq> n then Inl (UnexpectedSize (length buf) n) else k)"

definition deserialise :: "bytes \<Rightarrow> wire_error + MessageVariant" where
  "deserialise buf =
     rbind (deserialiseHeader buf) (\<lambda>hdr.
       let src = drop HEADER_PACKED_SIZE buf in
       case mt_of (messageType hdr) of
         Some CLIENT_JOIN \<Rightarrow> expect_size buf CLIENT_JOIN_PACKED_SIZE
           (rbind (read_bytes 16 src) (\<lambda>(u, _). Inr (VClientJoin \<lparr>cj_hdr = hdr, cj_username = u\<rparr>)))
       | Some CLIENT_DISCONNECT \<Rightarrow> expect_size buf CLIENT_DISCONNECT_PACKED_SIZE
           (Inr (VClientDisconnect \<lparr>cd_hdr = hdr\<rparr>))
       | Some SERVER_WELCOME \<Rightarrow> expect_size buf SERVER_WELCOME_PACKED_SIZE
           (Inr (VServerWelcome \<lparr>sw_hdr = hdr\<rparr>))
       | Some CLIENT_INPUT \<Rightarrow> expect_size buf CLIENT_INPUT_PACKED_SIZE
           (rbind (readRawBytes src) (\<lambda>(i, _). Inr (VClientInput \<lparr>ci_hdr = hdr, ci_input = i\<rparr>)))
       | Some SERVER_CONFIG \<Rightarrow> expect_size buf SERVER_CONFIG_PACKED_SIZE
           (rbind (read_server_config hdr src) (\<lambda>(m, _). Inr (VServerConfig m)))
       | Some GAME_STATE \<Rightarrow> rbind (read_game_state hdr src) (\<lambda>(m, _). Inr (VGameState m))
       | None \<Rightarrow> Inl InvalidMessageType)"

text \<open>The overload that overrides the client id with the one the server assigned.\<close>

definition deserialise_for :: "bytes \<Rightarrow> i32 \<Rightarrow> wire_error + MessageVariant" where
  "deserialise_for buf cid =
     rbind (deserialise buf) (\<lambda>msg. Inr (header_update (\<lambda>h. h\<lparr>clientId := cid\<rparr>) msg))"

end
