(* ===== verification/Protocol_Laws.thy ===== *)
theory Protocol_Laws
  imports Protocol
begin

text \<open>
  The laws of \<open>Protocol\<close>. \<open>encode\<close> is the wire format written as one concatenation of fields;
  the serialisers, which write through cursors into resized buffers, are shown to produce it
  without ever writing outside the buffer. Every structure inside a game state is a
  \<open>strict_codec\<close>, counted lists are one generically, and the round trip of whole messages in
  both directions follows field by field.
\<close>

section \<open>The wire format\<close>

definition encode_header :: "Header \<Rightarrow> bytes" where
  "encode_header h = raw (messageType h) @ raw (clientId h) @ raw (sequence h) @ raw (transactTime h)"

definition encode_server_config :: "ServerConfigMsg \<Rightarrow> bytes" where
  "encode_server_config m =
     raw (sc_width m) @ raw (sc_height m) @ raw (sc_seed m) @ raw (sc_minFoodInArena m) @
     raw (sc_foodSpawnFromBodySegmentProbability m) @ raw (sc_speedBoostProbability m) @
     raw (sc_speedBoostRatio m) @ raw (sc_movementFrequencyMs m) @
     raw (sc_boostedMovementFrequencyMs m) @ raw (sc_boostDurationMs m)"

definition encode_food :: "GSFood \<Rightarrow> bytes" where
  "encode_food f = raw (gf_color f) @ raw (gf_icon f) @ raw (gf_x f) @ raw (gf_y f)"

definition encode_segment :: "i32 \<times> i32 \<Rightarrow> bytes" where
  "encode_segment s = raw (fst s) @ raw (snd s)"

definition encode_counted :: "('a \<Rightarrow> bytes) \<Rightarrow> 'a list \<Rightarrow> bytes" where
  "encode_counted enc xs = raw (of_nat (length xs) :: u32) @ concat (map enc xs)"

definition encode_player :: "GSPlayer \<Rightarrow> bytes" where
  "encode_player p =
     raw (gp_clientId p) @ raw (gp_color p) @ raw (gp_direction p) @ raw (gp_score p) @
     gp_username p @ encode_counted encode_segment (gp_segments p)"

definition encode_game_state :: "GameStateMsg \<Rightarrow> bytes" where
  "encode_game_state m =
     raw (gs_highScore m) @ gs_highScoreUsername m @ encode_counted encode_food (gs_food m) @
     encode_counted encode_food (gs_speedBoosts m) @ encode_counted encode_player (gs_players m)"

primrec encode_body :: "MessageVariant \<Rightarrow> bytes" where
  "encode_body (VServerConfig m) = encode_server_config m"
| "encode_body (VClientInput m) = raw (ci_input m)"
| "encode_body (VClientDisconnect m) = []"
| "encode_body (VServerWelcome m) = []"
| "encode_body (VClientJoin m) = cj_username m"
| "encode_body (VGameState m) = encode_game_state m"

definition encode :: "MessageVariant \<Rightarrow> bytes" where
  "encode m = encode_header (header m) @ encode_body m"

text \<open>
  What the C++ types say of a message: char arrays have 16 elements. \<open>counts_fit\<close>: the vectors
  are short enough for their \<open>uint32_t\<close> counts. \<open>variant_type\<close> is the enumerator that belongs
  to each alternative of the variant.
\<close>

definition list_fits :: "'a list \<Rightarrow> bool" where
  "list_fits xs \<longleftrightarrow> length xs < 2 ^ 32"

definition player_ok :: "GSPlayer \<Rightarrow> bool" where
  "player_ok p \<longleftrightarrow> length (gp_username p) = 16 \<and> list_fits (gp_segments p)"

definition game_state_ok :: "GameStateMsg \<Rightarrow> bool" where
  "game_state_ok m \<longleftrightarrow>
     length (gs_highScoreUsername m) = 16 \<and> list_fits (gs_food m) \<and> list_fits (gs_speedBoosts m) \<and>
     list_fits (gs_players m) \<and> (\<forall>p\<in>set (gs_players m). player_ok p)"

primrec arrays_ok :: "MessageVariant \<Rightarrow> bool" where
  "arrays_ok (VServerConfig m) = True"
| "arrays_ok (VClientInput m) = True"
| "arrays_ok (VClientDisconnect m) = True"
| "arrays_ok (VServerWelcome m) = True"
| "arrays_ok (VClientJoin m) = (length (cj_username m) = 16)"
| "arrays_ok (VGameState m) = game_state_ok m"

primrec variant_type :: "MessageVariant \<Rightarrow> MessageType" where
  "variant_type (VServerConfig m) = SERVER_CONFIG"
| "variant_type (VClientInput m) = CLIENT_INPUT"
| "variant_type (VClientDisconnect m) = CLIENT_DISCONNECT"
| "variant_type (VServerWelcome m) = SERVER_WELCOME"
| "variant_type (VClientJoin m) = CLIENT_JOIN"
| "variant_type (VGameState m) = GAME_STATE"

definition wf_msg :: "MessageVariant \<Rightarrow> bool" where
  "wf_msg m \<longleftrightarrow> messageType (header m) = mt_code (variant_type m) \<and> arrays_ok m"

lemma wf_msg_type: "wf_msg m \<Longrightarrow> mt_of (messageType (header m)) = Some (variant_type m)"
  by (simp add: wf_msg_def)

section \<open>Lengths\<close>

lemma length_encode_header [simp]: "length (encode_header h) = 24"
  by (simp add: encode_header_def)

lemma length_encode_server_config [simp]: "length (encode_server_config m) = 52"
  by (simp add: encode_server_config_def)

lemma length_encode_food [simp]: "length (encode_food f) = 13"
  by (simp add: encode_food_def)

lemma length_encode_segment [simp]: "length (encode_segment s) = 8"
  by (simp add: encode_segment_def)

lemma length_concat_const:
  "\<forall>x\<in>set xs. length (enc x) = n \<Longrightarrow> length (concat (map enc xs)) = n * length xs"
  by (induction xs) auto

lemma length_encode_counted_const:
  "\<forall>x\<in>set xs. length (enc x) = n \<Longrightarrow> length (encode_counted enc xs) = 4 + n * length xs"
  by (simp add: encode_counted_def length_concat_const)

lemma length_encode_player:
  "length (gp_username p) = 16 \<Longrightarrow> length (encode_player p) = 33 + 8 * length (gp_segments p)"
  by (simp add: encode_player_def length_encode_counted_const [where n = 8])

lemma length_encode_game_state:
  assumes "length (gs_highScoreUsername m) = 16" and "\<forall>p\<in>set (gs_players m). length (gp_username p) = 16"
  shows "length (encode_game_state m) =
     32 + 13 * length (gs_food m) + 13 * length (gs_speedBoosts m) +
     (\<Sum>p\<leftarrow>gs_players m. 33 + 8 * length (gp_segments p))"
proof -
  have "length (concat (map encode_player ps)) = (\<Sum>p\<leftarrow>ps. 33 + 8 * length (gp_segments p))"
    if "\<forall>p\<in>set ps. length (gp_username p) = 16" for ps
    using that by (induction ps) (simp_all add: length_encode_player)
  with assms show ?thesis
    by (simp add: encode_game_state_def length_encode_counted_const [where n = 13] encode_counted_def
        length_concat_const [where n = 13])
qed

section \<open>The serialisers produce the wire format\<close>

lemma serialiseHeader_eq: "serialiseHeader h = Inr (encode_header h)"
  unfolding serialiseHeader_def
  by (subst write_fields_resize [where h = 0]) (simp_all add: encode_header_def packed_sizes)

lemma serialise_fixed_eq:
  assumes "sz = HEADER_PACKED_SIZE + length (concat flds)"
  shows "serialise_fixed h sz flds = Inr (encode_header h @ concat flds)"
  unfolding serialise_fixed_def serialiseHeader_eq rbind_Inr
  by (subst write_fields_resize) (simp_all add: assms packed_sizes)

lemma append_food_eq: "append_food f d = d @ encode_food f"
  by (simp add: append_food_def appendRawBytes_def encode_food_def)

lemma append_segment_eq: "append_segment s d = d @ encode_segment s"
  by (simp add: append_segment_def appendRawBytes_def encode_segment_def)

lemma append_player_eq: "append_player p d = d @ encode_player p"
  by (simp add: append_player_def appendRawBytes_def encode_player_def encode_counted_def
      fold_append_enc [of append_segment encode_segment] append_segment_eq)

lemma serialise_GameState_eq: "serialise (VGameState g) = Inr (encode (VGameState g))"
  by (simp add: serialise_GameState_def serialiseHeader_eq appendRawBytes_def encode_def
      encode_game_state_def encode_counted_def fold_append_enc [of append_food encode_food]
      fold_append_enc [of append_player encode_player] append_food_eq append_player_eq)

lemma serialise_eq:
  assumes "arrays_ok m"
  shows "serialise m = Inr (encode m)"
proof (cases m)
  case (VServerConfig c)
  then show ?thesis
    by (simp add: serialise_ServerConfig_def serialise_fixed_eq packed_sizes encode_def
        encode_server_config_def)
next
  case (VClientInput c)
  then show ?thesis
    by (simp add: serialise_ClientInput_def serialise_fixed_eq packed_sizes encode_def)
next
  case (VClientJoin c)
  with assms show ?thesis
    by (simp add: serialise_ClientJoin_def serialise_fixed_eq packed_sizes encode_def)
next
  case (VGameState g)
  then show ?thesis by (simp only: serialise_GameState_eq)
qed (simp_all add: serialiseHeader_eq encode_def)

lemma length_encode_fixed:
  "arrays_ok m \<Longrightarrow> variant_type m \<noteq> GAME_STATE \<Longrightarrow>
     length (encode m) = (case variant_type m of
         SERVER_CONFIG \<Rightarrow> SERVER_CONFIG_PACKED_SIZE | CLIENT_JOIN \<Rightarrow> CLIENT_JOIN_PACKED_SIZE
       | CLIENT_DISCONNECT \<Rightarrow> CLIENT_DISCONNECT_PACKED_SIZE | SERVER_WELCOME \<Rightarrow> SERVER_WELCOME_PACKED_SIZE
       | CLIENT_INPUT \<Rightarrow> CLIENT_INPUT_PACKED_SIZE | GAME_STATE \<Rightarrow> 0)"
  by (cases m) (simp_all add: encode_def packed_sizes)

section \<open>The readers invert it\<close>

lemma readRawBytes_codes:
  "(readRawBytes src :: wire_error + (byte \<times> bytes)) = Inr (b, r) \<Longrightarrow> src = raw b @ r"
  "(readRawBytes src :: wire_error + (32 word \<times> bytes)) = Inr (w, r) \<Longrightarrow> src = raw w @ r"
  "(readRawBytes src :: wire_error + (64 word \<times> bytes)) = Inr (q, r) \<Longrightarrow> src = raw q @ r"
  "read_bytes 16 src = Inr (u, r) \<Longrightarrow> src = u @ r \<and> length u = 16"
  using w8.enc_dec w32.enc_dec w64.enc_dec char16.enc_dec by blast+

lemma readRawBytes_errors:
  "(readRawBytes src :: wire_error + ('a::len word \<times> bytes)) = Inl e \<Longrightarrow> e = TruncatedFrame"
  "read_bytes n src = Inl e \<Longrightarrow> e = TruncatedFrame"
  using readRawBytes_Inl by (blast, auto simp: read_bytes_def split: if_splits)

context strict_codec begin

lemma counted_codec:
  "strict_codec (encode_counted enc) (read_counted dec) (\<lambda>xs. list_fits xs \<and> (\<forall>x\<in>set xs. valid x))"
proof unfold_locales
  fix xs r assume "list_fits xs \<and> (\<forall>x\<in>set xs. valid x)"
  then show "read_counted dec (encode_counted enc xs @ r) = Inr (xs, r)"
    by (simp add: read_counted_def encode_counted_def read_field_simps unat_of_nat list_fits_def
        read_n_enc)
next
  fix src xs r assume "read_counted dec src = Inr (xs, r)"
  then obtain n :: u32 and rest where
    src: "readRawBytes src = Inr (n, rest)" and n: "read_n dec (unat n) rest = Inr (xs, r)"
    by (auto simp: read_counted_def rbind_eq_Inr)
  from read_n_dec [OF n] have "n = of_nat (length xs)" by (metis of_nat_unat ucast_id)
  moreover have "unat n < 2 ^ 32" using unsigned_less [of n, where ?'a = nat] by simp
  ultimately show "(list_fits xs \<and> (\<forall>x\<in>set xs. valid x)) \<and> src = encode_counted enc xs @ r"
    using read_n_dec [OF n] readRawBytes_codes(2) [OF src]
    by (simp add: encode_counted_def list_fits_def)
next
  fix src e assume "read_counted dec src = Inl e"
  then show "e = TruncatedFrame"
    by (auto simp: read_counted_def rbind_eq_Inl dest: readRawBytes_errors read_n_truncated)
qed

end

interpretation food: strict_codec encode_food read_food "\<lambda>_. True"
  by unfold_locales
    (auto simp: encode_food_def read_food_def read_field_simps rbind_simps
      dest!: readRawBytes_codes dest: readRawBytes_errors)

interpretation segment: strict_codec encode_segment read_segment "\<lambda>_. True"
  by unfold_locales
    (auto simp: encode_segment_def read_segment_def read_field_simps rbind_simps
      dest!: readRawBytes_codes dest: readRawBytes_errors)

interpretation foods: strict_codec "encode_counted encode_food" "read_counted read_food"
  "\<lambda>xs. list_fits xs \<and> (\<forall>x\<in>set xs. True)"
  by (rule food.counted_codec)

interpretation segments: strict_codec "encode_counted encode_segment" "read_counted read_segment"
  "\<lambda>xs. list_fits xs \<and> (\<forall>x\<in>set xs. True)"
  by (rule segment.counted_codec)


interpretation player: strict_codec encode_player read_player player_ok
proof unfold_locales
  fix p r assume "player_ok p"
  then show "read_player (encode_player p @ r) = Inr (p, r)"
    by (simp add: encode_player_def read_player_def read_field_simps segments.dec_enc player_ok_def)
next
  fix src p r assume "read_player src = Inr (p, r)"
  then show "player_ok p \<and> src = encode_player p @ r"
    by (auto simp: encode_player_def read_player_def rbind_eq_Inr player_ok_def
        dest!: readRawBytes_codes segments.enc_dec)
next
  fix src e assume "read_player src = Inl e"
  then show "e = TruncatedFrame"
    by (auto simp: read_player_def rbind_simps dest: readRawBytes_errors segments.dec_truncated)
qed

interpretation players: strict_codec "encode_counted encode_player" "read_counted read_player"
  "\<lambda>xs. list_fits xs \<and> (\<forall>x\<in>set xs. player_ok x)"
  by (rule player.counted_codec)

interpretation hdr: strict_codec encode_header
  "\<lambda>src. rbind (deserialiseHeader src) (\<lambda>h. Inr (h, drop HEADER_PACKED_SIZE src))" "\<lambda>_. True"
proof unfold_locales
  fix h r
  show "rbind (deserialiseHeader (encode_header h @ r)) (\<lambda>h'. Inr (h', drop HEADER_PACKED_SIZE (encode_header h @ r))) = Inr (h, r)"
    by (simp add: encode_header_def deserialiseHeader_def read_field_simps packed_sizes)
next
  fix src h r
  assume "rbind (deserialiseHeader src) (\<lambda>h. Inr (h, drop HEADER_PACKED_SIZE src)) = Inr (h, r)"
  then show "True \<and> src = encode_header h @ r"
    by (auto simp: encode_header_def deserialiseHeader_def rbind_eq_Inr packed_sizes
        dest!: readRawBytes_codes)
next
  fix src e
  assume "rbind (deserialiseHeader src) (\<lambda>h. Inr (h, drop HEADER_PACKED_SIZE src)) = Inl e"
  then show "e = TruncatedFrame"
    by (auto simp: deserialiseHeader_def rbind_simps dest: readRawBytes_errors)
qed

lemma deserialiseHeader_encode: "deserialiseHeader (encode_header h @ r) = Inr h"
  using hdr.dec_enc [of h r] by (auto simp: rbind_eq_Inr)

lemma deserialiseHeader_Inr:
  "deserialiseHeader src = Inr h \<Longrightarrow> src = encode_header h @ drop HEADER_PACKED_SIZE src"
  using hdr.enc_dec [of src h "drop HEADER_PACKED_SIZE src"] by simp

lemma deserialiseHeader_Inl: "deserialiseHeader src = Inl e \<Longrightarrow> e = TruncatedFrame"
  using hdr.dec_truncated [of src e] by simp

lemma read_server_config_encode:
  "sc_hdr m = h \<Longrightarrow> read_server_config h (encode_server_config m @ r) = Inr (m, r)"
  by (simp add: read_server_config_def encode_server_config_def read_field_simps)

lemma read_server_config_Inr:
  "read_server_config h src = Inr (m, r) \<Longrightarrow> sc_hdr m = h \<and> src = encode_server_config m @ r"
  by (auto simp: read_server_config_def encode_server_config_def rbind_eq_Inr
      dest!: readRawBytes_codes)

lemma read_game_state_encode:
  "gs_hdr m = h \<Longrightarrow> game_state_ok m \<Longrightarrow> read_game_state h (encode_game_state m @ r) = Inr (m, r)"
  by (simp add: read_game_state_def encode_game_state_def read_field_simps game_state_ok_def
      foods.dec_enc players.dec_enc)

lemma read_game_state_Inr:
  "read_game_state h src = Inr (m, r) \<Longrightarrow>
     gs_hdr m = h \<and> game_state_ok m \<and> src = encode_game_state m @ r"
  by (auto simp: read_game_state_def encode_game_state_def rbind_eq_Inr game_state_ok_def
      dest!: readRawBytes_codes foods.enc_dec players.enc_dec)

lemma read_game_state_Inl: "read_game_state h src = Inl e \<Longrightarrow> e = TruncatedFrame"
  by (auto simp: read_game_state_def rbind_simps
      dest: readRawBytes_errors foods.dec_truncated players.dec_truncated)

section \<open>Whole messages\<close>

lemma deserialise_encode:
  assumes "wf_msg m"
  shows "deserialise (encode m) = Inr m"
proof (cases m)
  case (VGameState g)
  with assms show ?thesis
    using read_game_state_encode [of g "gs_hdr g" "[]"]
    by (simp add: deserialise_def encode_def deserialiseHeader_encode wf_msg_def packed_sizes
        mt_of_def Let_def)
next
  case (VServerConfig c)
  with assms show ?thesis
    using read_server_config_encode [of c "sc_hdr c" "[]"]
    by (simp add: deserialise_def encode_def deserialiseHeader_encode wf_msg_def packed_sizes
        expect_size_def mt_of_def Let_def)
qed (use assms in \<open>simp_all add: deserialise_def encode_def deserialiseHeader_encode wf_msg_def
      packed_sizes expect_size_def mt_of_def Let_def read_field_simps deserialiseHeader_encode [of _ "[]", simplified]\<close>)

lemma expect_size_eq_Inr [rbind_simps]:
  "expect_size buf n k = Inr x \<longleftrightarrow> length buf = n \<and> k = Inr x"
  by (simp add: expect_size_def)

text \<open>
  A frame that deserialises is the encoding of the message, followed by nothing, or, for a
  game state, by bytes that are not looked at.
\<close>

lemma deserialise_Inr:
  assumes "deserialise buf = Inr m"
  shows "wf_msg m \<and> (\<exists>junk. buf = encode m @ junk \<and> (variant_type m \<noteq> GAME_STATE \<longrightarrow> junk = []))"
proof -
  from assms obtain h where h: "deserialiseHeader buf = Inr h" and
    body: "(case mt_of (messageType h) of
         Some CLIENT_JOIN \<Rightarrow> expect_size buf CLIENT_JOIN_PACKED_SIZE
           (rbind (read_bytes 16 (drop HEADER_PACKED_SIZE buf)) (\<lambda>(u, _). Inr (VClientJoin \<lparr>cj_hdr = h, cj_username = u\<rparr>)))
       | Some CLIENT_DISCONNECT \<Rightarrow> expect_size buf CLIENT_DISCONNECT_PACKED_SIZE
           (Inr (VClientDisconnect \<lparr>cd_hdr = h\<rparr>))
       | Some SERVER_WELCOME \<Rightarrow> expect_size buf SERVER_WELCOME_PACKED_SIZE
           (Inr (VServerWelcome \<lparr>sw_hdr = h\<rparr>))
       | Some CLIENT_INPUT \<Rightarrow> expect_size buf CLIENT_INPUT_PACKED_SIZE
           (rbind (readRawBytes (drop HEADER_PACKED_SIZE buf)) (\<lambda>(i, _). Inr (VClientInput \<lparr>ci_hdr = h, ci_input = i\<rparr>)))
       | Some SERVER_CONFIG \<Rightarrow> expect_size buf SERVER_CONFIG_PACKED_SIZE
           (rbind (read_server_config h (drop HEADER_PACKED_SIZE buf)) (\<lambda>(m, _). Inr (VServerConfig m)))
       | Some GAME_STATE \<Rightarrow> rbind (read_game_state h (drop HEADER_PACKED_SIZE buf)) (\<lambda>(m, _). Inr (VGameState m))
       | None \<Rightarrow> Inl InvalidMessageType) = Inr m"
    by (auto simp: deserialise_def rbind_eq_Inr Let_def)
  define src where "src = drop HEADER_PACKED_SIZE buf"
  have buf: "buf = encode_header h @ src" using deserialiseHeader_Inr [OF h] by (simp add: src_def)
  show ?thesis
    using body unfolding src_def [symmetric]
    by (auto simp: buf rbind_simps packed_sizes wf_msg_def mt_of_Some encode_def
        split: option.splits MessageType.splits
        dest!: readRawBytes_codes read_server_config_Inr read_game_state_Inr)
qed

lemma deserialise_game_state_junk:
  assumes "wf_msg m" and "variant_type m = GAME_STATE"
  shows "deserialise (encode m @ junk) = Inr m"
proof (cases m)
  case (VGameState g)
  with assms show ?thesis
    using read_game_state_encode [of g "gs_hdr g" junk]
    by (simp add: deserialise_def encode_def deserialiseHeader_encode wf_msg_def packed_sizes
        mt_of_def Let_def)
qed (use assms in simp_all)

lemma encode_game_state_unique:
  assumes "wf_msg m" and "wf_msg m'" and "variant_type m' = GAME_STATE" and "encode m = encode m' @ junk"
  shows "junk = []"
proof -
  have "deserialise (encode m) = Inr m'"
    using assms deserialise_game_state_junk by metis
  with assms(1) deserialise_encode have "m = m'" by simp
  with assms(4) show ?thesis by simp
qed

lemma deserialise_prefix:
  assumes "wf_msg m" and "k < length (encode m)"
  shows "\<exists>e. deserialise (take k (encode m)) = Inl e"
proof (rule ccontr)
  assume "\<nexists>e. deserialise (take k (encode m)) = Inl e"
  then obtain m' where m': "deserialise (take k (encode m)) = Inr m'"
    by (cases "deserialise (take k (encode m))") auto
  from deserialise_Inr [OF this] obtain junk where
    wf: "wf_msg m'" and eq: "take k (encode m) = encode m' @ junk" and
    junk: "variant_type m' \<noteq> GAME_STATE \<longrightarrow> junk = []" by blast
  have full: "encode m = encode m' @ junk @ drop k (encode m)"
    using eq by (metis append.assoc append_take_drop_id)
  show False
  proof (cases "variant_type m' = GAME_STATE")
    case True
    from encode_game_state_unique [OF assms(1) wf True full] assms(2) show False by simp
  next
    case False
    have "length (encode_header (header m')) = length (encode_header (header m))" by simp
    with full have "encode_header (header m) = encode_header (header m')"
      by (simp add: encode_def)
    then have "header m = header m'" using hdr.enc_inj by (metis append_Nil2)
    with assms(1) wf have "variant_type m = variant_type m'"
      by (metis mt_of_code option.inject wf_msg_def)
    with False length_encode_fixed [of m] length_encode_fixed [of m'] assms(1) wf
    have "length (encode m) = length (encode m')" by (simp add: wf_msg_def)
    with arg_cong [OF full, of length] assms(2) show False by simp
  qed
qed

section \<open>Properties\<close>

definition sample_state :: MessageVariant where
  "sample_state = VGameState
     \<lparr>gs_hdr = \<lparr>messageType = 5, clientId = -1, sequence = 7, transactTime = 42\<rparr>, gs_highScore = 3,
      gs_highScoreUsername = replicate 16 0x61,
      gs_food = [\<lparr>gf_color = 1, gf_icon = 0x40, gf_x = 3, gf_y = 4\<rparr>], gs_speedBoosts = [],
      gs_players = [\<lparr>gp_clientId = 1, gp_color = 3, gp_direction = 0x5E, gp_score = 2,
         gp_username = replicate 16 0x62, gp_segments = [(10, 11), (10, 12)]\<rparr>]\<rparr>"

lemma wf_sample_state: "wf_msg sample_state"
  by (simp add: sample_state_def wf_msg_def game_state_ok_def player_ok_def list_fits_def)

text \<open>
  C12: Round trip of the protocol. Every message whose header names its own type serialises
  without writing outside its buffer, and deserialising the bytes gives the message back.
\<close>

theorem deserialise_serialise:
  assumes "wf_msg m"
  shows "rbind (serialise m) deserialise = Inr m"
  using assms by (simp add: serialise_eq deserialise_encode wf_msg_def)

theorem deserialise_serialise_witness:
  "rbind (serialise sample_state) deserialise = Inr sample_state"
  by (rule deserialise_serialise) (rule wf_sample_state)

text \<open>
  C22: Only serialisations are accepted. Whatever bytes arrive, if \<open>deserialise\<close> returns a message
  then its header names the type of the alternative, and the bytes are the serialisation of
  that very message; only behind a game state may more bytes follow, which are not looked at.
\<close>

theorem deserialise_canonical:
  assumes "deserialise buf = Inr m"
  shows "wf_msg m \<and> (\<exists>bs junk. serialise m = Inr bs \<and> buf = bs @ junk \<and>
           (messageType (header m) \<noteq> mt_code GAME_STATE \<longrightarrow> junk = []))"
  using deserialise_Inr [OF assms] by (auto simp: serialise_eq wf_msg_def)

theorem deserialise_canonical_witness:
  "wf_msg (VServerWelcome \<lparr>sw_hdr = header_of SERVER_WELCOME 3\<rparr>)"
proof -
  let ?m = "VServerWelcome \<lparr>sw_hdr = header_of SERVER_WELCOME 3\<rparr>"
  have "deserialise (encode ?m) = Inr ?m"
    by (rule deserialise_encode) (simp add: wf_msg_def header_of_def)
  from deserialise_canonical [OF this] show ?thesis by simp
qed

text \<open>
  Truncation is always noticed. No proper prefix of a serialised message is accepted, however
  the counts inside it are set.
\<close>

theorem deserialise_truncated:
  assumes "wf_msg m" and "serialise m = Inr bs" and "k < length bs"
  shows "\<exists>e. deserialise (take k bs) = Inl e"
  using assms deserialise_prefix [of m k] by (simp add: serialise_eq wf_msg_def)

theorem deserialise_truncated_witness: "\<exists>e. deserialise (take 60 (encode sample_state)) = Inl e"
proof (rule deserialise_truncated [OF wf_sample_state])
  show "serialise sample_state = Inr (encode sample_state)"
    using wf_sample_state by (simp add: serialise_eq wf_msg_def)
  show "60 < length (encode sample_state)"
    by (simp add: encode_def sample_state_def length_encode_game_state)
qed

text \<open>
  C23: Sizes on the wire. Serialising never overruns its buffer and produces exactly the packed
  size of the fixed-size messages; a game state takes 56 bytes, 13 for every food and speed
  boost, 33 for every player and 8 for every segment.
\<close>

theorem serialise_size:
  assumes "arrays_ok m"
  shows "\<exists>bs. serialise m = Inr bs \<and> length bs =
     (case m of
        VServerConfig _ \<Rightarrow> SERVER_CONFIG_PACKED_SIZE
      | VClientInput _ \<Rightarrow> CLIENT_INPUT_PACKED_SIZE
      | VClientDisconnect _ \<Rightarrow> CLIENT_DISCONNECT_PACKED_SIZE
      | VServerWelcome _ \<Rightarrow> SERVER_WELCOME_PACKED_SIZE
      | VClientJoin _ \<Rightarrow> CLIENT_JOIN_PACKED_SIZE
      | VGameState g \<Rightarrow> 56 + 13 * (length (gs_food g) + length (gs_speedBoosts g)) +
          (\<Sum>p\<leftarrow>gs_players g. 33 + 8 * length (gp_segments p)))"
proof -
  have "length (encode m) = (case m of
        VServerConfig _ \<Rightarrow> SERVER_CONFIG_PACKED_SIZE
      | VClientInput _ \<Rightarrow> CLIENT_INPUT_PACKED_SIZE
      | VClientDisconnect _ \<Rightarrow> CLIENT_DISCONNECT_PACKED_SIZE
      | VServerWelcome _ \<Rightarrow> SERVER_WELCOME_PACKED_SIZE
      | VClientJoin _ \<Rightarrow> CLIENT_JOIN_PACKED_SIZE
      | VGameState g \<Rightarrow> 56 + 13 * (length (gs_food g) + length (gs_speedBoosts g)) +
          (\<Sum>p\<leftarrow>gs_players g. 33 + 8 * length (gp_segments p)))"
    using assms
    by (cases m) (simp_all add: encode_def packed_sizes length_encode_game_state game_state_ok_def
        player_ok_def algebra_simps)
  with assms show ?thesis by (simp add: serialise_eq)
qed

theorem serialise_size_witness: "\<exists>bs. serialise sample_state = Inr bs \<and> length bs = 118"
  using serialise_size [of sample_state] wf_sample_state
  by (simp add: wf_msg_def) (simp add: sample_state_def)

end
