(* ===== verification/Constants.thy ===== *)
theory Constants
  imports Snake_Prelude
begin

text \<open>
  \<open>include/common/Constants.h\<close>: the gameplay and network constants and the key codes. The two
  constants of the header that are computed in floating point,
  \<open>BOOSTED_MOVEMENT_FREQUENCY_MS\<close> = \<open>static_cast<int>(200 * (1 / 1.5f))\<close> and the float
  \<open>SPEED_BOOST_RATIO\<close>, appear as their value 133 and as the bits of 1.5f.
\<close>

definition INPUT_BLOCKING_TIMEOUT_MS :: int where "INPUT_BLOCKING_TIMEOUT_MS = 10"
definition MOVEMENT_FREQUENCY_MS :: int where "MOVEMENT_FREQUENCY_MS = 200"
definition BOOSTED_MOVEMENT_FREQUENCY_MS :: int where "BOOSTED_MOVEMENT_FREQUENCY_MS = 133"
definition SPEED_BOOST_DURATION_MS :: int where "SPEED_BOOST_DURATION_MS = 8000"
definition SPEED_BOOST_RATIO :: "32 word" where "SPEED_BOOST_RATIO = 0x3FC00000"
definition ARENA_WIDTH :: int where "ARENA_WIDTH = 40"
definition ARENA_HEIGHT :: int where "ARENA_HEIGHT = 40"
definition CLIENT_HORIZONTAL_SCALING :: int where "CLIENT_HORIZONTAL_SCALING = 2"
definition MIN_FOOD_IN_ARENA :: nat where "MIN_FOOD_IN_ARENA = 6"
definition FOOD_SPAWN_FROM_BODY_SEGMENT_PROBABILITY :: int where
  "FOOD_SPAWN_FROM_BODY_SEGMENT_PROBABILITY = 3"
definition SPEED_BOOST_PROBABILITY :: int where "SPEED_BOOST_PROBABILITY = 80"

definition SERVER_PORT :: int where "SERVER_PORT = 8170"
definition MAX_EVENTS :: nat where "MAX_EVENTS = 10"
definition SERVER_RECV_BUFFER_SIZE :: nat where "SERVER_RECV_BUFFER_SIZE = 4096"
definition SERVER_RECV_MAX_MESSAGE_SIZE :: nat where "SERVER_RECV_MAX_MESSAGE_SIZE = 64"
definition CLIENT_RECV_BUFFER_SIZE :: nat where "CLIENT_RECV_BUFFER_SIZE = 32768"
definition CLIENT_RECV_MAX_MESSAGE_SIZE :: nat where "CLIENT_RECV_MAX_MESSAGE_SIZE = 32768"
definition STATS_FREQUENCY_SECONDS :: int where "STATS_FREQUENCY_SECONDS = 15"

text \<open>The key codes: the characters \<open>^\<close>, \<open>v\<close>, \<open><\<close>, \<open>>\<close> and \<open>q\<close>.\<close>

definition PLAYER_KEY_UP :: byte where "PLAYER_KEY_UP = 0x5E"
definition PLAYER_KEY_DOWN :: byte where "PLAYER_KEY_DOWN = 0x76"
definition PLAYER_KEY_LEFT :: byte where "PLAYER_KEY_LEFT = 0x3C"
definition PLAYER_KEY_RIGHT :: byte where "PLAYER_KEY_RIGHT = 0x3E"

text \<open>The icons of food and of speed boosts, \<open>@\<close> and \<open>*\<close>, and the bot's \<open>?\<close>.\<close>

definition ICON_FOOD :: byte where "ICON_FOOD = 0x40"
definition ICON_BOOST :: byte where "ICON_BOOST = 0x2A"
definition KEY_UNKNOWN :: byte where "KEY_UNKNOWN = 0x3F"

lemmas key_defs =
  PLAYER_KEY_UP_def PLAYER_KEY_DOWN_def PLAYER_KEY_LEFT_def PLAYER_KEY_RIGHT_def KEY_UNKNOWN_def

text \<open>The characters of a string literal.\<close>

definition ascii :: "string \<Rightarrow> bytes" where
  "ascii s = map of_char s"

text \<open>The direction straight back.\<close>

definition opposite :: "byte \<Rightarrow> byte" where
  "opposite d = (if d = PLAYER_KEY_UP then PLAYER_KEY_DOWN else if d = PLAYER_KEY_DOWN then PLAYER_KEY_UP
     else if d = PLAYER_KEY_LEFT then PLAYER_KEY_RIGHT else if d = PLAYER_KEY_RIGHT then PLAYER_KEY_LEFT else d)"

text \<open>\<open>enum class Color : int32_t\<close>.\<close>

definition Color_WHITE :: int where "Color_WHITE = 1"
definition Color_YELLOW :: int where "Color_YELLOW = 2"
definition Color_RED :: int where "Color_RED = 3"
definition Color_GREEN :: int where "Color_GREEN = 4"
definition Color_CYAN :: int where "Color_CYAN = 5"
definition Color_MAGENTA :: int where "Color_MAGENTA = 6"

end
