(* ===== verification/Framing.thy ===== *)
theory Framing
  imports Protocol_Laws Constants
begin

text \<open>
  The length-prefixed frames on a TCP stream: the frame that \<open>networkSend\<close> and
  \<open>sendToServer\<close> build, and the loop of \<open>parseReceivedPacket\<close>, which server
  (\<open>NetworkServer.cpp\<close>) and client (\<open>NetworkClient.cpp\<close>) share but for what they do with an
  oversized length. A stream decoder's contract is the locale \<open>stream_decoder\<close>: how the
  network cuts the stream into packets does not change the frames that come out.
\<close>

section \<open>Frames\<close>

definition make_frame :: "bytes \<Rightarrow> bytes" where
  "make_frame bs = raw (of_nat (length bs) :: u32) @ bs"

text \<open>
  The loop over the connection's buffer: the frames found, the bytes that stay in the buffer,
  and whether the loop met a length above the limit.
\<close>

function parse_loop :: "nat \<Rightarrow> bytes \<Rightarrow> bytes list \<times> bytes \<times> bool" where
  "parse_loop limit buf =
     (if 4 \<le> length buf then
        let len = unat (le_word (take 4 buf) :: u32) in
        if limit < len then ([], buf, True)
        else if length buf < 4 + len then ([], buf, False)
        else let (frames, rest, over) = parse_loop limit (drop (4 + len) buf)
             in (take len (drop 4 buf) # frames, rest, over)
      else ([], buf, False))"
  by pat_completeness auto
termination
  by (relation "measure (\<lambda>(limit, buf). length buf)") auto

declare parse_loop.simps [simp del]

text \<open>What \<open>recv\<close> on a non-blocking socket returned: data, end of file, nothing yet, or an error.\<close>

datatype recv_result = RecvBytes bytes | RecvEof | RecvAgain | RecvError int

section \<open>What a stream decoder promises\<close>

text \<open>
  \<open>run\<close> takes the buffered bytes to frames, the bytes kept, and the overflow flag. Receiving
  packets one by one appends each to the kept bytes and stops at an overflow.
\<close>

primrec receive_packets :: "(bytes \<Rightarrow> 'f list \<times> bytes \<times> bool) \<Rightarrow> bytes \<Rightarrow> bytes list \<Rightarrow> 'f list \<times> bytes \<times> bool" where
  "receive_packets run buf [] = ([], buf, False)"
| "receive_packets run buf (p # ps) =
     (let (fs, rest, over) = run (buf @ p) in
      if over then (fs, rest, True)
      else let (fs', rest', over') = receive_packets run rest ps in (fs @ fs', rest', over'))"

locale stream_decoder =
  fixes run :: "bytes \<Rightarrow> 'f list \<times> bytes \<times> bool"
  assumes run_over: "run b = (fs, r, True) \<Longrightarrow> run (b @ c) = (fs, r @ c, True)"
    and run_more: "run b = (fs, r, False) \<Longrightarrow> run (r @ c) = (fs', r', ov) \<Longrightarrow>
          run (b @ c) = (fs @ fs', r', ov)"
begin

lemma run_rest:
  assumes "run b = (fs, r, False)" shows "run r = ([], r, False)"
proof -
  obtain fs' r' ov where "run r = (fs', r', ov)" by (cases "run r")
  moreover from this run_more [OF assms, of "[]"] have "run b = (fs @ fs', r', ov)" by simp
  ultimately show ?thesis using assms by simp
qed

lemma receive_packets_run:
  assumes "run buf = ([], buf, False)"
  shows "\<exists>rest. run (buf @ concat ps) = (fst (receive_packets run buf ps), rest, snd (snd (receive_packets run buf ps)))
     \<and> (\<not> snd (snd (receive_packets run buf ps)) \<longrightarrow> rest = fst (snd (receive_packets run buf ps)))"
  using assms
proof (induction ps arbitrary: buf)
  case Nil
  then show ?case by simp
next
  case (Cons p ps)
  obtain fs r ov where run: "run (buf @ p) = (fs, r, ov)" by (cases "run (buf @ p)")
  show ?case
  proof (cases ov)
    case True
    with run run_over [of "buf @ p" fs r "concat ps"] show ?thesis by simp
  next
    case False
    with run have run': "run (buf @ p) = (fs, r, False)" by simp
    obtain fs' r' ov' where rec: "receive_packets run r ps = (fs', r', ov')"
      by (cases "receive_packets run r ps")
    from Cons.IH [OF run_rest [OF run']] rec obtain rest where
      "run (r @ concat ps) = (fs', rest, ov')" and "\<not> ov' \<longrightarrow> rest = r'" by auto
    with run_more [OF run', of "concat ps"] rec run' show ?thesis by simp
  qed
qed

text \<open>Two ways of cutting the same stream give the same frames and the same verdict.\<close>

lemma packets_irrelevant:
  assumes "run buf = ([], buf, False)" and "concat ps = concat qs"
  shows "fst (receive_packets run buf ps) = fst (receive_packets run buf qs)"
    and "snd (snd (receive_packets run buf ps)) = snd (snd (receive_packets run buf qs))"
proof -
  obtain r where r: "run (buf @ concat ps) =
      (fst (receive_packets run buf ps), r, snd (snd (receive_packets run buf ps)))"
    using receive_packets_run [OF assms(1), of ps] by blast
  obtain r' where r': "run (buf @ concat qs) =
      (fst (receive_packets run buf qs), r', snd (snd (receive_packets run buf qs)))"
    using receive_packets_run [OF assms(1), of qs] by blast
  from r r' have eq: "(fst (receive_packets run buf ps), r, snd (snd (receive_packets run buf ps))) =
      (fst (receive_packets run buf qs), r', snd (snd (receive_packets run buf qs)))"
    unfolding assms(2) by (rule trans [OF sym])
  then show "fst (receive_packets run buf ps) = fst (receive_packets run buf qs)" by simp
  from eq show "snd (snd (receive_packets run buf ps)) = snd (snd (receive_packets run buf qs))"
    by simp
qed

end

section \<open>The parse loop is a stream decoder\<close>

lemma parse_loop_short: "length buf < 4 \<Longrightarrow> parse_loop limit buf = ([], buf, False)"
  by (simp add: parse_loop.simps [of limit buf])

abbreviation frame_len :: "bytes \<Rightarrow> nat" where
  "frame_len buf \<equiv> unat (le_word (take 4 buf) :: u32)"

lemma parse_loop_oversized:
  "4 \<le> length buf \<Longrightarrow> limit < frame_len buf \<Longrightarrow> parse_loop limit buf = ([], buf, True)"
  by (simp add: parse_loop.simps [of limit buf] Let_def)

lemma parse_loop_wait:
  "4 \<le> length buf \<Longrightarrow> frame_len buf \<le> limit \<Longrightarrow> length buf < 4 + frame_len buf \<Longrightarrow>
     parse_loop limit buf = ([], buf, False)"
  by (simp add: parse_loop.simps [of limit buf] Let_def)

lemma parse_loop_next:
  "frame_len buf \<le> limit \<Longrightarrow> 4 + frame_len buf \<le> length buf \<Longrightarrow>
     parse_loop limit buf =
       (let (fs, r, ov) = parse_loop limit (drop (4 + frame_len buf) buf)
        in (take (frame_len buf) (drop 4 buf) # fs, r, ov))"
  by (simp add: parse_loop.simps [of limit buf] Let_def)

lemma parse_loop_nil: "parse_loop limit [] = ([], [], False)"
  by (simp add: parse_loop_short)

text \<open>
  Induction over the frames in the buffer: either the loop stops at once, or a whole frame is
  at the front.
\<close>

lemma parse_loop_cases:
  obtains (short) "length buf < 4"
  | (oversized) "4 \<le> length buf" "limit < frame_len buf"
  | (wait) "4 \<le> length buf" "frame_len buf \<le> limit" "length buf < 4 + frame_len buf"
  | (frame) "4 \<le> length buf" "frame_len buf \<le> limit" "4 + frame_len buf \<le> length buf"
  by linarith

lemma parse_loop_over:
  "parse_loop limit b = (fs, r, True) \<Longrightarrow> parse_loop limit (b @ c) = (fs, r @ c, True)"
proof (induction "length b" arbitrary: b fs rule: less_induct)
  case less
  show ?case
  proof (cases rule: parse_loop_cases [where buf = b and limit = limit])
    case short
    with less.prems show ?thesis by (simp add: parse_loop_short)
  next
    case oversized
    with less.prems show ?thesis by (simp add: parse_loop_oversized)
  next
    case wait
    with less.prems show ?thesis by (simp add: parse_loop_wait)
  next
    case frame
    with less.prems obtain gs where
      rec: "parse_loop limit (drop (4 + frame_len b) b) = (gs, r, True)"
      and fs: "fs = take (frame_len b) (drop 4 b) # gs"
      by (auto simp: parse_loop_next split: prod.splits)
    from frame less.hyps [OF _ rec] have "parse_loop limit (drop (4 + frame_len b) b @ c) = (gs, r @ c, True)"
      by simp
    with frame fs show ?thesis by (simp add: parse_loop_next [of "b @ c"])
  qed
qed

lemma parse_loop_more:
  "parse_loop limit b = (fs, r, False) \<Longrightarrow> parse_loop limit (r @ c) = (fs', r', ov) \<Longrightarrow>
     parse_loop limit (b @ c) = (fs @ fs', r', ov)"
proof (induction "length b" arbitrary: b fs rule: less_induct)
  case less
  show ?case
  proof (cases rule: parse_loop_cases [where buf = b and limit = limit])
    case short
    with less.prems show ?thesis by (simp add: parse_loop_short)
  next
    case oversized
    with less.prems show ?thesis by (simp add: parse_loop_oversized)
  next
    case wait
    with less.prems show ?thesis by (simp add: parse_loop_wait)
  next
    case frame
    with less.prems(1) obtain gs where
      rec: "parse_loop limit (drop (4 + frame_len b) b) = (gs, r, False)"
      and fs: "fs = take (frame_len b) (drop 4 b) # gs"
      by (auto simp: parse_loop_next split: prod.splits)
    from frame less.hyps [OF _ rec less.prems(2)]
    have "parse_loop limit (drop (4 + frame_len b) b @ c) = (gs @ fs', r', ov)" by simp
    with frame fs show ?thesis by (simp add: parse_loop_next [of "b @ c"])
  qed
qed

interpretation server_stream: stream_decoder "parse_loop SERVER_RECV_MAX_MESSAGE_SIZE"
  by unfold_locales (auto intro: parse_loop_over parse_loop_more)

interpretation client_stream: stream_decoder "parse_loop CLIENT_RECV_MAX_MESSAGE_SIZE"
  by unfold_locales (auto intro: parse_loop_over parse_loop_more)

section \<open>Frames survive the stream\<close>

lemma frame_len_make_frame:
  assumes "length bs < 2 ^ 32"
  shows "frame_len (make_frame bs @ rest) = length bs"
  using assms by (simp add: make_frame_def raw_def sizeof_word_def le_word_le_bytes unat_of_nat)

lemma parse_loop_frame:
  assumes "length bs \<le> limit" and "limit < 2 ^ 32"
  shows "parse_loop limit (make_frame bs @ rest) =
     (let (fs, r, ov) = parse_loop limit rest in (bs # fs, r, ov))"
proof -
  from assms have len: "frame_len (make_frame bs @ rest) = length bs"
    by (intro frame_len_make_frame) simp
  from assms show ?thesis
    by (subst parse_loop_next) (simp_all only: len, simp_all add: make_frame_def)
qed

lemma parse_loop_frames:
  assumes "\<forall>bs\<in>set fs. length bs \<le> limit" and "limit < 2 ^ 32"
  shows "parse_loop limit (concat (map make_frame fs) @ rest) =
     (let (gs, r, ov) = parse_loop limit rest in (fs @ gs, r, ov))"
  using assms(1)
proof (induction fs)
  case Nil
  then show ?case by (simp split: prod.splits)
next
  case (Cons f fs)
  then show ?case
    by (simp add: parse_loop_frame [OF _ assms(2)] split: prod.splits)
qed

text \<open>Every frame the loop delivers is within the limit, and nothing is invented or lost.\<close>

lemma make_frame_take:
  assumes "4 + frame_len b \<le> length b"
  shows "make_frame (take (frame_len b) (drop 4 b)) = take (4 + frame_len b) b"
proof -
  have "length (take (frame_len b) (drop 4 b)) = frame_len b" using assms by simp
  moreover have "raw (le_word (take 4 b) :: u32) = take 4 b"
    using assms le_bytes_le_word [of "take 4 b", where ?'a = 32] by (simp add: raw_def sizeof_word_def)
  ultimately show ?thesis by (simp only: make_frame_def of_nat_unat ucast_id take_add)
qed

lemma parse_loop_sound:
  "parse_loop limit b = (fs, r, ov) \<Longrightarrow>
     b = concat (map make_frame fs) @ r \<and> (\<forall>f\<in>set fs. length f \<le> limit)"
proof (induction "length b" arbitrary: b fs rule: less_induct)
  case less
  show ?case
  proof (cases rule: parse_loop_cases [where buf = b and limit = limit])
    case short
    with less.prems show ?thesis by (simp add: parse_loop_short)
  next
    case oversized
    with less.prems show ?thesis by (simp add: parse_loop_oversized)
  next
    case wait
    with less.prems show ?thesis by (simp add: parse_loop_wait)
  next
    case frame
    with less.prems obtain gs where
      rec: "parse_loop limit (drop (4 + frame_len b) b) = (gs, r, ov)"
      and fs: "fs = take (frame_len b) (drop 4 b) # gs"
      by (auto simp: parse_loop_next split: prod.splits)
    from frame less.hyps [OF _ rec]
    have "drop (4 + frame_len b) b = concat (map make_frame gs) @ r" "\<forall>f\<in>set gs. length f \<le> limit"
      by simp_all
    with frame fs show ?thesis
      by (auto simp: make_frame_take) (metis append_take_drop_id)
  qed
qed

text \<open>What stays in the buffer is no complete frame within the limit.\<close>

lemma parse_loop_kept:
  "parse_loop limit b = (fs, r, ov) \<Longrightarrow>
     (if ov then 4 \<le> length r \<and> limit < frame_len r
      else length r < 4 \<or> frame_len r \<le> limit \<and> length r < 4 + frame_len r)"
proof (induction "length b" arbitrary: b fs rule: less_induct)
  case less
  show ?case
  proof (cases rule: parse_loop_cases [where buf = b and limit = limit])
    case short
    with less.prems show ?thesis by (auto simp: parse_loop_short)
  next
    case oversized
    with less.prems show ?thesis by (auto simp: parse_loop_oversized)
  next
    case wait
    with less.prems show ?thesis by (auto simp: parse_loop_wait)
  next
    case frame
    with less.prems obtain gs where rec: "parse_loop limit (drop (4 + frame_len b) b) = (gs, r, ov)"
      by (auto simp: parse_loop_next split: prod.splits)
    from frame show ?thesis by (intro less.hyps [OF _ rec]) simp
  qed
qed

section \<open>Properties\<close>

text \<open>
  C13: The cutting of the stream is irrelevant. However TCP cuts the same bytes into packets, a
  connection that starts at a frame boundary delivers the same frames and meets an oversized
  length in both cuttings or in neither; the same holds with the client's limit.
\<close>

theorem packet_cutting_irrelevant:
  assumes "concat ps = concat qs" and "limit \<in> {SERVER_RECV_MAX_MESSAGE_SIZE, CLIENT_RECV_MAX_MESSAGE_SIZE}"
  shows "fst (receive_packets (parse_loop limit) [] ps) = fst (receive_packets (parse_loop limit) [] qs) \<and>
     snd (snd (receive_packets (parse_loop limit) [] ps)) = snd (snd (receive_packets (parse_loop limit) [] qs))"
  using assms(2) server_stream.packets_irrelevant [OF parse_loop_nil assms(1)]
    client_stream.packets_irrelevant [OF parse_loop_nil assms(1)] by auto

theorem packet_cutting_irrelevant_witness:
  "fst (receive_packets (parse_loop SERVER_RECV_MAX_MESSAGE_SIZE) [] [[1, 0], [0, 0, 9]]) =
   fst (receive_packets (parse_loop SERVER_RECV_MAX_MESSAGE_SIZE) [] [[1, 0, 0, 0, 9]])"
  using packet_cutting_irrelevant [of "[[1, 0], [0, 0, 9]]" "[[1, 0, 0, 0, 9]]" SERVER_RECV_MAX_MESSAGE_SIZE]
  by simp

text \<open>
  C14: The parse loop loses and invents nothing. What it delivers, framed again, followed by what
  it keeps, is the input; no frame it delivers exceeds the limit; and what it keeps contains no
  complete frame within the limit: it is a cut-off frame, or starts with an oversized length
  exactly when the loop reports one.
\<close>

theorem parse_loop_exact:
  assumes "parse_loop limit b = (fs, r, over)"
  shows "b = concat (map make_frame fs) @ r \<and> (\<forall>f\<in>set fs. length f \<le> limit) \<and>
     (if over then 4 \<le> length r \<and> limit < frame_len r
      else length r < 4 \<or> frame_len r \<le> limit \<and> length r < 4 + frame_len r)"
  using parse_loop_sound [OF assms] parse_loop_kept [OF assms] by auto

theorem parse_loop_exact_witness: "[2, 0, 0, 0, 7, 8, 1] = concat (map make_frame [[7, 8]]) @ [1 :: byte]"
proof -
  have "parse_loop 64 [2, 0, 0, 0, 7, 8, 1] = ([[7, 8]], [1], False)"
    by (simp add: parse_loop.simps)
  from parse_loop_exact [OF this] show ?thesis by (rule conjunct1)
qed

end
