(* ===== verification/MessageLog.thy ===== *)
theory MessageLog
  imports Framing
begin

text \<open>
  \<open>MessageLogWriter.h\<close> and \<open>MessageLogReader.h\<close>: the log of serialised messages, each after its
  length, and the reader that hands them back in batches of equal \<open>transactTime\<close>. The file is a
  byte list; a read that hits the end of the file consumes what is left and fails, after which
  the stream stays failed.
\<close>

section \<open>Writing\<close>

text \<open>\<open>log\<close> writes the truncated length and as many bytes as it says.\<close>

definition log_write :: "bytes \<Rightarrow> bytes \<Rightarrow> bytes" where
  "log_write out msg =
     (let len = (of_nat (length msg) :: u32) in out @ raw len @ take (unat len) msg)"

lemma log_write_frame: "length msg < 2 ^ 32 \<Longrightarrow> log_write out msg = out @ make_frame msg"
  by (simp add: log_write_def make_frame_def unat_of_nat Let_def)

section \<open>Reading\<close>

datatype log_error =
    TruncatedRecord
  | BadRecord wire_error
  | OutOfOrder \<comment> \<open>the \<open>logic_error\<close> of \<open>nextBatch\<close>\<close>

record MessageLogReader =
  rd_in :: bytes
  currentTransactTime :: int
  outputBuffer :: "MessageVariant option"

definition MessageLogReader_new :: "bytes \<Rightarrow> MessageLogReader" where
  "MessageLogReader_new file = \<lparr>rd_in = file, currentTransactTime = 0, outputBuffer = None\<rparr>"

text \<open>
  One record: \<open>None\<close> when the length cannot be read, which ends the stream; an exception when
  the message is cut off or does not deserialise.
\<close>

definition read_record :: "bytes \<Rightarrow> log_error + (MessageVariant \<times> bytes) option" where
  "read_record src =
     (if length src < 4 then Inr None
      else let len = frame_len src; body = drop 4 src in
        if length body < len then Inl TruncatedRecord
        else case deserialise (take len body) of
               Inl e \<Rightarrow> Inl (BadRecord e)
             | Inr m \<Rightarrow> Inr (Some (m, drop len body)))"

lemma read_record_shorter: "read_record src = Inr (Some (m, rest)) \<Longrightarrow> length rest < length src"
  by (auto simp: read_record_def Let_def split: if_splits sum.splits)

definition log_first :: "MessageLogReader \<Rightarrow> log_error + (MessageVariant option \<times> MessageLogReader)" where
  "log_first r =
     rbind (read_record (rd_in r)) (\<lambda>rec.
       case rec of
         None \<Rightarrow> Inr (None, r\<lparr>rd_in := []\<rparr>)
       | Some (m, rest) \<Rightarrow> Inr (Some m, r\<lparr>rd_in := rest\<rparr>))"

abbreviation transact :: "MessageVariant \<Rightarrow> int" where
  "transact m \<equiv> sint (transactTime (header m))"

function batch_loop :: "MessageVariant list \<Rightarrow> MessageLogReader \<Rightarrow> log_error + (MessageVariant list \<times> MessageLogReader)" where
  "batch_loop output r =
     (case read_record (rd_in r) of
        Inl e \<Rightarrow> Inl e
      | Inr None \<Rightarrow> Inr (output, r\<lparr>rd_in := []\<rparr>)
      | Inr (Some (pm, rest)) \<Rightarrow>
          let r1 = r\<lparr>rd_in := rest\<rparr> in
          if currentTransactTime r = 0 then
            batch_loop (output @ [pm]) (r1\<lparr>currentTransactTime := transact pm\<rparr>)
          else if transact pm = currentTransactTime r then batch_loop (output @ [pm]) r1
          else if transact pm > currentTransactTime r then
            Inr (output, r1\<lparr>outputBuffer := Some pm, currentTransactTime := transact pm\<rparr>)
          else Inl OutOfOrder)"
  by pat_completeness auto
termination
  by (relation "measure (\<lambda>(output, r). length (rd_in r))") (auto dest: read_record_shorter)

declare batch_loop.simps [simp del]

definition nextBatch :: "MessageLogReader \<Rightarrow> log_error + (MessageVariant list \<times> MessageLogReader)" where
  "nextBatch r =
     (case outputBuffer r of
        Some m \<Rightarrow> batch_loop [m] (r\<lparr>outputBuffer := None, currentTransactTime := transact m\<rparr>)
      | None \<Rightarrow> batch_loop [] r)"

section \<open>A log that was written is read back\<close>

definition loggable :: "MessageVariant \<Rightarrow> bool" where
  "loggable m \<longleftrightarrow> wf_msg m \<and> length (encode m) < 2 ^ 32"

definition log_of :: "MessageVariant list \<Rightarrow> bytes" where
  "log_of ms = concat (map (\<lambda>m. make_frame (encode m)) ms)"

lemma log_of_simps [simp]:
  "log_of [] = []" "log_of (m # ms) = make_frame (encode m) @ log_of ms"
  "log_of (xs @ ys) = log_of xs @ log_of ys"
  by (simp_all add: log_of_def)

lemma read_record_log: "loggable m \<Longrightarrow> read_record (log_of (m # ms)) = Inr (Some (m, log_of ms))"
proof -
  assume m: "loggable m"
  then have len: "frame_len (make_frame (encode m) @ log_of ms) = length (encode m)"
    by (intro frame_len_make_frame) (simp add: loggable_def)
  show ?thesis
    using m unfolding read_record_def log_of_simps len
    by (simp add: make_frame_def Let_def loggable_def deserialise_encode)
qed

lemma read_record_nil [simp]: "read_record [] = Inr None"
  by (simp add: read_record_def)

text \<open>
  \<open>holds r ms\<close>: the reader has exactly the messages \<open>ms\<close> left to deliver, the first of them
  perhaps already in its output buffer.
\<close>

definition holds :: "MessageLogReader \<Rightarrow> MessageVariant list \<Rightarrow> bool" where
  "holds r ms \<longleftrightarrow> (case outputBuffer r of
       None \<Rightarrow> rd_in r = log_of ms \<and> (ms = [] \<or> currentTransactTime r = 0)
     | Some m \<Rightarrow> ms \<noteq> [] \<and> hd ms = m \<and> rd_in r = log_of (tl ms))"

definition times_ok :: "MessageVariant list \<Rightarrow> bool" where
  "times_ok ms \<longleftrightarrow> (\<forall>m\<in>set ms. 0 < transact m) \<and> sorted (map transact ms)"

lemma batch_loop_log:
  assumes "\<forall>m\<in>set ms. loggable m" and "0 < t" and "\<forall>m\<in>set ms. t \<le> transact m"
    and "sorted (map transact ms)"
    and "rd_in r = log_of ms" and "currentTransactTime r = t" and "outputBuffer r = None"
  shows "\<exists>r'. batch_loop out r = Inr (out @ takeWhile (\<lambda>m. transact m = t) ms, r')
     \<and> holds r' (dropWhile (\<lambda>m. transact m = t) ms)"
  using assms
proof (induction ms arbitrary: out r)
  case Nil
  then show ?case by (simp add: batch_loop.simps [of out r] holds_def)
next
  case (Cons m ms)
  then have rec: "read_record (rd_in r) = Inr (Some (m, log_of ms))"
    using read_record_log [of m ms] by simp
  show ?case
  proof (cases "transact m = t")
    case True
    with Cons.prems rec
      Cons.IH [of "r\<lparr>rd_in := log_of ms\<rparr>" "out @ [m]"]
    show ?thesis by (simp add: batch_loop.simps [of out r] Let_def)
  next
    case False
    with Cons.prems have "t < transact m" by (simp add: order_le_neq_trans)
    with Cons.prems rec show ?thesis
      by (simp add: batch_loop.simps [of out r] Let_def holds_def)
  qed
qed

lemma holds_nextBatch:
  assumes "holds r (m # ms)" and "\<forall>x\<in>set (m # ms). loggable x" and "times_ok (m # ms)"
  shows "\<exists>r'. nextBatch r = Inr (takeWhile (\<lambda>x. transact x = transact m) (m # ms), r')
     \<and> holds r' (dropWhile (\<lambda>x. transact x = transact m) (m # ms))"
proof (cases "outputBuffer r")
  case None
  let ?r = "r\<lparr>rd_in := log_of ms, currentTransactTime := transact m\<rparr>"
  from None assms have "rd_in r = log_of (m # ms)" and t: "currentTransactTime r = 0"
    by (auto simp: holds_def)
  then have "nextBatch r = batch_loop [m] ?r"
    using None assms(2) read_record_log [of m ms]
    by (simp add: nextBatch_def batch_loop.simps [of "[]" r] Let_def)
  with batch_loop_log [of ms "transact m" ?r "[m]"] assms None show ?thesis
    by (simp add: times_ok_def)
next
  case (Some m')
  let ?r = "r\<lparr>outputBuffer := None, currentTransactTime := transact m\<rparr>"
  from Some assms have "m' = m" and "rd_in r = log_of ms" by (auto simp: holds_def)
  with Some have "nextBatch r = batch_loop [m] ?r" by (simp add: nextBatch_def)
  with batch_loop_log [of ms "transact m" ?r "[m]"] assms \<open>rd_in r = log_of ms\<close> show ?thesis
    by (simp add: times_ok_def)
qed

lemma holds_nil_nextBatch: "holds r [] \<Longrightarrow> \<exists>r'. nextBatch r = Inr ([], r') \<and> holds r' []"
  by (auto simp: holds_def nextBatch_def batch_loop.simps [of "[]" r] split: option.splits)

text \<open>Reading batches until an empty one comes, as the replaying server does.\<close>

partial_function (option) read_batches :: "MessageLogReader \<Rightarrow> (log_error + MessageVariant list list) option" where
  "read_batches r =
     (case nextBatch r of
        Inl e \<Rightarrow> Some (Inl e)
      | Inr (batch, r') \<Rightarrow>
          if batch = [] then Some (Inr [])
          else Option.bind (read_batches r') (\<lambda>res. Some (map_sum id (\<lambda>bs. batch # bs) res)))"

text \<open>The batches a log falls into: maximal runs of messages with the same time.\<close>

function runs :: "MessageVariant list \<Rightarrow> MessageVariant list list" where
  "runs [] = []"
| "runs (m # ms) = takeWhile (\<lambda>x. transact x = transact m) (m # ms) #
     runs (dropWhile (\<lambda>x. transact x = transact m) (m # ms))"
  by pat_completeness auto
termination
  by (relation "measure length") (auto simp: le_imp_less_Suc length_dropWhile_le)

lemma concat_runs: "concat (runs ms) = ms"
proof (induction ms rule: runs.induct)
  case (2 m ms)
  then show ?case by (simp only: runs.simps concat.simps) (simp only: takeWhile_dropWhile_id)
qed simp

lemma times_ok_dropWhile: "times_ok ms \<Longrightarrow> times_ok (dropWhile P ms)"
  by (auto simp: times_ok_def dropWhile_map dest: set_dropWhileD intro: sorted_dropWhile
      simp flip: dropWhile_eq_drop) (metis drop_map dropWhile_eq_drop sorted_wrt_drop)

lemma read_batches_log:
  "holds r ms \<Longrightarrow> \<forall>m\<in>set ms. loggable m \<Longrightarrow> times_ok ms \<Longrightarrow> read_batches r = Some (Inr (runs ms))"
proof (induction ms arbitrary: r rule: runs.induct)
  case 1
  with holds_nil_nextBatch [of r] show ?case by (auto simp: read_batches.simps [of r])
next
  case (2 m ms)
  let ?rest = "dropWhile (\<lambda>x. transact x = transact m) (m # ms)"
  from holds_nextBatch [OF "2.prems"] obtain r' where
    b: "nextBatch r = Inr (takeWhile (\<lambda>x. transact x = transact m) (m # ms), r')"
    and h: "holds r' ?rest" by blast
  have "\<forall>x\<in>set ?rest. loggable x" using "2.prems"(2) by (metis set_dropWhileD)
  from "2.IH" [OF h this times_ok_dropWhile [OF "2.prems"(3)]] b
  show ?case by (simp add: read_batches.simps [of r])
qed

section \<open>Properties\<close>

text \<open>
  Reading the log back. A server that logs messages with positive time stamps that never
  decrease can hand its file to a reader: reading batches until an empty one comes terminates
  without an exception and delivers exactly the messages, in order, cut into the maximal runs
  of equal time stamps. So a replay sees the passes of the run that wrote the log.
\<close>

theorem log_read_back:
  assumes "\<forall>m\<in>set ms. loggable m" and "times_ok ms"
    and "file = fold (\<lambda>m out. log_write out (encode m)) ms []"
  shows "read_batches (MessageLogReader_new file) = Some (Inr (runs ms)) \<and> concat (runs ms) = ms"
proof -
  have "fold (\<lambda>m out. log_write out (encode m)) ms out = out @ log_of ms" for out
    using assms(1) by (induction ms arbitrary: out) (simp_all add: log_write_frame loggable_def)
  with assms show ?thesis
    by (intro conjI read_batches_log concat_runs) (simp_all add: holds_def MessageLogReader_new_def)
qed

definition sample_log :: "MessageVariant list" where
  "sample_log = map (\<lambda>(t, k). VClientInput \<lparr>ci_hdr =
      \<lparr>messageType = 4, clientId = 1, sequence = 0, transactTime = t\<rparr>, ci_input = k\<rparr>)
     [(5, 0x5E), (5, 0x3C), (9, 0x76)]"

theorem log_read_back_witness:
  "map length (the (map_option projr (read_batches (MessageLogReader_new
     (fold (\<lambda>m out. log_write out (encode m)) sample_log []))))) = [2, 1]"
proof -
  have "\<forall>m\<in>set sample_log. loggable m" and "times_ok sample_log"
    by (auto simp: sample_log_def loggable_def wf_msg_def times_ok_def encode_def)
  from log_read_back [OF this refl] show ?thesis
    by (simp add: sample_log_def)
qed

end
