(* ===== verification/Unordered_Map.thy ===== *)
theory Unordered_Map
  imports Snake_Prelude
begin

text \<open>
  \<open>std::unordered_map\<close> and \<open>std::unordered_set\<close>. A map is the list of its entries in the
  order in which the container iterates at that moment. Looking up, erasing and writing
  through a reference follow the standard: erasing keeps the order of the other elements. An
  insertion may rehash, after which the iteration order is any permutation; which one is a
  parameter of every insertion, a value of the type \<open>iter_order\<close> of permuting functions. What is
  proved of one operation so holds whatever order a container takes. A run, however, has one such
  function of the keys for all its insertions, where a real container may also look at the history
  of its buckets: what is proved of runs is for implementations whose order depends on the keys
  and their previous order only. The interface is the locale \<open>unordered_map\<close>.
\<close>

section \<open>Iteration orders\<close>

typedef 'k iter_order = "{ord :: 'k list \<Rightarrow> 'k list. \<forall>ks. mset (ord ks) = mset ks}"
  morphisms apply_order Abs_iter_order
  by (rule exI [where x = "\<lambda>ks. ks"]) simp

lemma mset_apply_order [simp]: "mset (apply_order ord ks) = mset ks"
  using apply_order [of ord] by simp

lemma set_apply_order [simp]: "set (apply_order ord ks) = set ks"
  by (metis mset_apply_order set_mset_mset)

lemma distinct_apply_order [simp]: "distinct (apply_order ord ks) = distinct ks"
  by (metis mset_apply_order mset_eq_imp_distinct_iff)

lemma length_apply_order [simp]: "length (apply_order ord ks) = length ks"
  by (metis mset_apply_order size_mset)

text \<open>The order in which new elements come first, for concrete runs.\<close>

definition newest_first :: "'k iter_order" where
  "newest_first = Abs_iter_order (\<lambda>ks. ks)"

lemma apply_newest_first [simp]: "apply_order newest_first ks = ks"
  by (simp add: newest_first_def Abs_iter_order_inverse)

section \<open>Maps\<close>

type_synonym ('k, 'v) umap = "('k \<times> 'v) list"

definition um_keys :: "('k, 'v) umap \<Rightarrow> 'k list" where
  "um_keys m = map fst m"

definition um_at :: "('k, 'v) umap \<Rightarrow> 'k \<Rightarrow> 'v option" where
  "um_at m k = map_of m k"

definition um_contains :: "('k, 'v) umap \<Rightarrow> 'k \<Rightarrow> bool" where
  "um_contains m k = (um_at m k \<noteq> None)"

definition um_erase :: "'k \<Rightarrow> ('k, 'v) umap \<Rightarrow> ('k, 'v) umap" where
  "um_erase k m = filter (\<lambda>e. fst e \<noteq> k) m"

text \<open>Writing through a reference to the value of a key: the order of iteration is unchanged.\<close>

definition um_modify :: "'k \<Rightarrow> ('v \<Rightarrow> 'v) \<Rightarrow> ('k, 'v) umap \<Rightarrow> ('k, 'v) umap" where
  "um_modify k f m = map (\<lambda>(k', v). (k', if k' = k then f v else v)) m"

definition um_insert_new :: "'k iter_order \<Rightarrow> 'k \<Rightarrow> 'v \<Rightarrow> ('k, 'v) umap \<Rightarrow> ('k, 'v) umap" where
  "um_insert_new ord k v m =
     map (\<lambda>k'. (k', the (map_of ((k, v) # m) k'))) (apply_order ord (k # um_keys m))"

text \<open>\<open>m[k] = v\<close> and \<open>m.emplace(k, v)\<close>, which leaves an existing entry alone.\<close>

definition um_set :: "'k iter_order \<Rightarrow> 'k \<Rightarrow> 'v \<Rightarrow> ('k, 'v) umap \<Rightarrow> ('k, 'v) umap" where
  "um_set ord k v m = (if um_contains m k then um_modify k (\<lambda>_. v) m else um_insert_new ord k v m)"

definition um_emplace :: "'k iter_order \<Rightarrow> 'k \<Rightarrow> 'v \<Rightarrow> ('k, 'v) umap \<Rightarrow> ('k, 'v) umap" where
  "um_emplace ord k v m = (if um_contains m k then m else um_insert_new ord k v m)"

definition um_wf :: "('k, 'v) umap \<Rightarrow> bool" where
  "um_wf m = distinct (um_keys m)"

section \<open>The interface\<close>

locale unordered_map =
  fixes lookup :: "'m \<Rightarrow> 'k \<Rightarrow> 'v option"
    and keys :: "'m \<Rightarrow> 'k list"
    and put :: "'k \<Rightarrow> 'v \<Rightarrow> 'm \<Rightarrow> 'm"
    and erase :: "'k \<Rightarrow> 'm \<Rightarrow> 'm"
    and modify :: "'k \<Rightarrow> ('v \<Rightarrow> 'v) \<Rightarrow> 'm \<Rightarrow> 'm"
    and wf :: "'m \<Rightarrow> bool"
  assumes lookup_put: "wf m \<Longrightarrow> lookup (put k v m) = (lookup m)(k \<mapsto> v)"
    and lookup_erase: "wf m \<Longrightarrow> lookup (erase k m) = (lookup m)(k := None)"
    and lookup_modify: "wf m \<Longrightarrow> lookup (modify k f m) = (lookup m)(k := map_option f (lookup m k))"
    and wf_put: "wf m \<Longrightarrow> wf (put k v m)"
    and wf_erase: "wf m \<Longrightarrow> wf (erase k m)"
    and wf_modify: "wf m \<Longrightarrow> wf (modify k f m)"
    and keys_dom: "wf m \<Longrightarrow> set (keys m) = dom (lookup m)"
    and keys_distinct: "wf m \<Longrightarrow> distinct (keys m)"
begin

text \<open>The size of the container, as its clients compare it.\<close>

lemma size_card: "wf m \<Longrightarrow> length (keys m) = card (dom (lookup m))"
  by (metis distinct_card keys_distinct keys_dom)

lemma finite_dom: "wf m \<Longrightarrow> finite (dom (lookup m))"
  by (metis List.finite_set keys_dom)

lemma size_put:
  "wf m \<Longrightarrow> length (keys (put k v m)) =
     (if lookup m k = None then Suc (length (keys m)) else length (keys m))"
  by (auto simp: size_card wf_put lookup_put insert_absorb domIff card_insert_if finite_dom)

lemma size_put_mono: "wf m \<Longrightarrow> length (keys m) \<le> length (keys (put k v m))"
  by (simp add: size_put)

lemma set_keys_put: "wf m \<Longrightarrow> set (keys (put k v m)) = insert k (set (keys m))"
  by (simp add: keys_dom wf_put lookup_put)

lemma set_keys_erase: "wf m \<Longrightarrow> set (keys (erase k m)) = set (keys m) - {k}"
  by (auto simp: keys_dom wf_erase lookup_erase)

lemma set_keys_modify: "wf m \<Longrightarrow> set (keys (modify k f m)) = set (keys m)"
  by (auto simp: keys_dom wf_modify lookup_modify split: if_splits)

lemma in_keys: "wf m \<Longrightarrow> k \<in> set (keys m) \<longleftrightarrow> (\<exists>v. lookup m k = Some v)"
  by (auto simp: keys_dom)

text \<open>Erasing a list of keys.\<close>

lemma wf_erase_all: "wf m \<Longrightarrow> wf (fold erase ks m)"
  by (induction ks arbitrary: m) (auto simp: wf_erase)

lemma lookup_erase_all:
  "wf m \<Longrightarrow> lookup (fold erase ks m) k = (if k \<in> set ks then None else lookup m k)"
  by (induction ks arbitrary: m) (auto simp: wf_erase lookup_erase)

text \<open>Properties of all entries.\<close>

lemma all_put:
  "wf m \<Longrightarrow> \<forall>k v. lookup m k = Some v \<longrightarrow> P k v \<Longrightarrow> P k v \<Longrightarrow>
     \<forall>k' v'. lookup (put k v m) k' = Some v' \<longrightarrow> P k' v'"
  by (auto simp: lookup_put)

lemma all_erase:
  "wf m \<Longrightarrow> \<forall>k v. lookup m k = Some v \<longrightarrow> P k v \<Longrightarrow>
     \<forall>k' v'. lookup (erase k m) k' = Some v' \<longrightarrow> P k' v'"
  by (auto simp: lookup_erase)

lemma all_modify:
  "wf m \<Longrightarrow> \<forall>k v. lookup m k = Some v \<longrightarrow> P k v \<Longrightarrow>
     (\<And>v. lookup m k = Some v \<Longrightarrow> P k v \<Longrightarrow> P k (f v)) \<Longrightarrow>
     \<forall>k' v'. lookup (modify k f m) k' = Some v' \<longrightarrow> P k' v'"
  by (auto simp: lookup_modify split: if_splits)

end

section \<open>The container implements the interface\<close>

lemma um_at_None: "um_at m k = None \<longleftrightarrow> k \<notin> set (um_keys m)"
  by (simp add: um_at_def um_keys_def map_of_eq_None_iff)

lemma um_at_nil [simp]: "um_at [] k = None"
  by (simp add: um_at_def)

lemma um_at_map_values: "um_at (map (\<lambda>(k, v). (k, f k v)) m) k = map_option (f k) (um_at m k)"
  by (induction m) (auto simp: um_at_def)

lemma um_contains_iff: "um_contains m k \<longleftrightarrow> k \<in> set (um_keys m)"
  by (simp add: um_contains_def um_at_None)

lemma um_at_erase: "um_at (um_erase k m) = (um_at m)(k := None)"
  by (induction m) (auto simp: um_at_def um_erase_def fun_eq_iff)

lemma um_at_modify: "um_at (um_modify k f m) = (um_at m)(k := map_option f (um_at m k))"
  by (induction m) (auto simp: um_at_def um_modify_def fun_eq_iff)

lemma um_keys_modify [simp]: "um_keys (um_modify k f m) = um_keys m"
  by (induction m) (auto simp: um_keys_def um_modify_def)

lemma um_keys_erase: "um_keys (um_erase k m) = filter (\<lambda>k'. k' \<noteq> k) (um_keys m)"
  by (induction m) (auto simp: um_keys_def um_erase_def)

lemma um_keys_insert_new: "um_keys (um_insert_new ord k v m) = apply_order ord (k # um_keys m)"
  by (simp add: um_keys_def um_insert_new_def comp_def)

lemma um_at_insert_new: "um_at (um_insert_new ord k v m) = (um_at m)(k \<mapsto> v)"
proof
  fix k'
  show "um_at (um_insert_new ord k v m) k' = ((um_at m)(k \<mapsto> v)) k'"
  proof (cases "k' \<in> set (k # um_keys m)")
    case True
    then have "\<exists>v'. map_of ((k, v) # m) k' = Some v'"
      by (cases "map_of m k'") (auto simp: um_keys_def map_of_eq_None_iff)
    with True show ?thesis
      by (auto simp: um_at_def um_insert_new_def map_of_map_value)
  next
    case False
    then have "um_at (um_insert_new ord k v m) k' = None" and "um_at m k' = None"
      by (simp_all only: um_at_None um_keys_insert_new set_apply_order) simp_all
    with False show ?thesis by simp
  qed
qed

lemma um_at_set: "um_at (um_set ord k v m) = (um_at m)(k \<mapsto> v)"
  by (auto simp: um_set_def um_at_insert_new um_at_modify um_contains_def fun_eq_iff)

lemma um_wf_set: "um_wf m \<Longrightarrow> um_wf (um_set ord k v m)"
  by (simp add: um_wf_def um_set_def um_keys_insert_new um_contains_iff)

lemma um_wf_nil [simp]: "um_wf []"
  by (simp add: um_wf_def um_keys_def)

interpretation um: unordered_map um_at um_keys "um_set ord" um_erase um_modify um_wf
  for ord :: "'k iter_order"
proof unfold_locales
  fix m :: "('k, 'v) umap" and k
  assume "um_wf m"
  then show "um_wf (um_erase k m)" by (simp add: um_wf_def um_keys_erase)
next
  fix m :: "('k, 'v) umap"
  show "set (um_keys m) = dom (um_at m)" using um_at_None by (metis domIff subsetI subset_antisym)
qed (simp_all add: um_at_set um_at_erase um_at_modify um_wf_set, simp_all add: um_wf_def)

lemma length_um_keys [simp]: "length (um_keys m) = length m"
  by (simp add: um_keys_def)

lemma length_um_set:
  "um_wf m \<Longrightarrow> length (um_set ord k v m) = (if um_at m k = None then Suc (length m) else length m)"
  using um.size_put [of m ord k v] by simp

lemma um_emplace_alt: "um_emplace ord k v m = (if um_contains m k then m else um_set ord k v m)"
  by (simp add: um_emplace_def um_set_def)

lemma um_wf_emplace: "um_wf m \<Longrightarrow> um_wf (um_emplace ord k v m)"
  by (simp add: um_emplace_alt um_wf_set)

lemma um_at_emplace:
  "um_at (um_emplace ord k v m) = (if um_contains m k then um_at m else (um_at m)(k \<mapsto> v))"
  by (simp add: um_emplace_alt um_at_set)

lemmas um_simps = um_at_set um_at_erase um_at_modify um_at_emplace

section \<open>Sets\<close>

type_synonym 'k uset = "'k list"

definition us_insert :: "'k iter_order \<Rightarrow> 'k \<Rightarrow> 'k uset \<Rightarrow> 'k uset" where
  "us_insert ord k s = (if k \<in> set s then s else apply_order ord (k # s))"

lemma set_us_insert [simp]: "set (us_insert ord k s) = insert k (set s)"
  by (auto simp: us_insert_def)

lemma distinct_us_insert [simp]: "distinct s \<Longrightarrow> distinct (us_insert ord k s)"
  by (simp add: us_insert_def)

end
