(* ===== verification/NetworkServer.thy ===== *)
theory NetworkServer
  imports MessageLog Unordered_Map
begin

text \<open>
  \<open>src/snake_server/NetworkServer.cpp\<close>. The kernel is the environment: what \<open>epoll_wait\<close>,
  \<open>accept\<close>, \<open>fcntl\<close>, \<open>epoll_ctl\<close>, \<open>recv\<close> and \<open>send\<close> return are arguments of the operations
  (\<open>os_event\<close> for a poll, the result function of \<open>send\<close> for the sends). The calls of \<open>send\<close> are
  recorded in \<open>sentFrames\<close>, which no code reads. \<open>startServer\<close>, which sets the listening socket
  up, is in \<open>Sockets\<close>; the logging is not modelled. The build files define no \<open>NDEBUG\<close>, so the assertions
  are part of the program: a failed one is the error \<open>AssertionFailed\<close>.
\<close>

section \<open>State and environment\<close>

datatype server_error =
    FcntlFailed
  | EpollAddFailed
  | AssertionFailed
  | IntOverflow \<comment> \<open>an \<open>int\<close> incremented beyond its range (undefined behaviour)\<close>
  | OutOfRange \<comment> \<open>\<open>std::out_of_range\<close> of a container's \<open>at\<close>\<close>
  | WireError wire_error
  | LogError log_error
  | InvalidDirection byte
  | BadVariantAccess \<comment> \<open>\<open>std::get\<close> of another alternative\<close>
  | UnterminatedString \<comment> \<open>a C string read past the end of its array (undefined behaviour)\<close>

record NetworkServer =
  serverFd :: int
  nextClientId :: int
  fdToClientIdMap :: "(int, int) umap"
  clientIdToFdMap :: "(int, int) umap"
  fdToBufferMap :: "(int, bytes) umap"
  fdsToDisconnect :: "int uset"
  sentFrames :: "(int \<times> bytes) list"

definition NetworkServer_new :: "int \<Rightarrow> NetworkServer" where
  "NetworkServer_new fd =
     \<lparr>serverFd = fd, nextClientId = 1, fdToClientIdMap = [], clientIdToFdMap = [],
      fdToBufferMap = [], fdsToDisconnect = [], sentFrames = []\<rparr>"

record os_event =
  ev_fd :: int
  ev_accept :: int \<comment> \<open>the result of \<open>accept\<close>: a descriptor or -1\<close>
  ev_fcntl_ok :: bool
  ev_epoll_ok :: bool
  ev_recv :: recv_result

definition mark_disconnect :: "int iter_order \<Rightarrow> int \<Rightarrow> NetworkServer \<Rightarrow> NetworkServer" where
  "mark_disconnect ord fd s = s\<lparr>fdsToDisconnect := us_insert ord fd (fdsToDisconnect s)\<rparr>"

section \<open>Receiving\<close>

definition acceptNewClient :: "int iter_order \<Rightarrow> os_event \<Rightarrow> NetworkServer \<Rightarrow> server_error + NetworkServer" where
  "acceptNewClient ord ev s =
     (let clientFd = ev_accept ev in
      if clientFd = -1 then Inr s
      else if \<not> ev_fcntl_ok ev then Inl FcntlFailed
      else if \<not> ev_epoll_ok ev then Inl EpollAddFailed
      else if nextClientId s = INT_MAX then Inl IntOverflow
      else let cid = nextClientId s in
        Inr (s\<lparr>nextClientId := cid + 1,
               fdToClientIdMap := um_set ord clientFd cid (fdToClientIdMap s),
               clientIdToFdMap := um_set ord cid clientFd (clientIdToFdMap s),
               fdToBufferMap := um_set ord clientFd [] (fdToBufferMap s)\<rparr>))"

text \<open>\<open>fdToBufferMap[fd]\<close> creates an empty buffer when there is none.\<close>

definition parseReceivedPacket :: "int iter_order \<Rightarrow> int \<Rightarrow> bytes \<Rightarrow> NetworkServer \<Rightarrow> bytes list \<times> NetworkServer" where
  "parseReceivedPacket ord fd inputBuffer s =
     (let fdBuffer = (case um_at (fdToBufferMap s) fd of None \<Rightarrow> [] | Some b \<Rightarrow> b) @ inputBuffer;
          (frames, rest, over) = parse_loop SERVER_RECV_MAX_MESSAGE_SIZE fdBuffer;
          s1 = s\<lparr>fdToBufferMap := um_set ord fd rest (fdToBufferMap s)\<rparr>
      in (frames, if over then mark_disconnect ord fd s1 else s1))"

fun receiveFromClient :: "int iter_order \<Rightarrow> int \<Rightarrow> recv_result \<Rightarrow> NetworkServer \<Rightarrow> bytes list \<times> NetworkServer" where
  "receiveFromClient ord fd RecvAgain s = ([], s)"
| "receiveFromClient ord fd (RecvError errno) s = ([], mark_disconnect ord fd s)"
| "receiveFromClient ord fd RecvEof s = ([], mark_disconnect ord fd s)"
| "receiveFromClient ord fd (RecvBytes bs) s = parseReceivedPacket ord fd bs s"

definition handle_event :: "int iter_order \<Rightarrow> os_event \<Rightarrow> (int \<times> bytes) list \<times> NetworkServer \<Rightarrow>
    server_error + ((int \<times> bytes) list \<times> NetworkServer)" where
  "handle_event ord ev st =
     (let (messages, s) = st; fd = ev_fd ev in
      if fd = serverFd s then rbind (acceptNewClient ord ev s) (\<lambda>s1. Inr (messages, s1))
      else let (frames, s1) = receiveFromClient ord fd (ev_recv ev) s in
        if frames = [] then Inr (messages, s1)
        else case um_at (fdToClientIdMap s1) fd of
               None \<Rightarrow> Inl OutOfRange
             | Some cid \<Rightarrow> Inr (messages @ map (\<lambda>bs. (cid, bs)) frames, s1))"

definition net_pollMessages :: "int iter_order \<Rightarrow> os_event list \<Rightarrow> NetworkServer \<Rightarrow>
    server_error + ((int \<times> bytes) list \<times> NetworkServer)" where
  "net_pollMessages ord events s =
     rbind (guard_or AssertionFailed (fdsToDisconnect s = []))
       (\<lambda>_. rfold (handle_event ord) events ([], s))"

section \<open>Disconnecting\<close>

definition disconnectClient :: "int \<Rightarrow> NetworkServer \<Rightarrow> server_error + NetworkServer" where
  "disconnectClient fd s =
     (case um_at (fdToClientIdMap s) fd of
        None \<Rightarrow> Inl AssertionFailed
      | Some cid \<Rightarrow>
          Inr (s\<lparr>clientIdToFdMap := um_erase cid (clientIdToFdMap s),
                 fdToClientIdMap := um_erase fd (fdToClientIdMap s),
                 fdToBufferMap := um_erase fd (fdToBufferMap s)\<rparr>))"

definition drain_one :: "int \<Rightarrow> int list \<times> NetworkServer \<Rightarrow> server_error + (int list \<times> NetworkServer)" where
  "drain_one fd st =
     (let (clientIds, s) = st in
      case um_at (fdToClientIdMap s) fd of
        None \<Rightarrow> Inr (clientIds, s)
      | Some cid \<Rightarrow> rbind (disconnectClient fd s) (\<lambda>s1. Inr (clientIds @ [cid], s1)))"

definition drainDisconnects :: "NetworkServer \<Rightarrow> server_error + (int list \<times> NetworkServer)" where
  "drainDisconnects s =
     rbind (rfold drain_one (fdsToDisconnect s) ([], s))
       (\<lambda>(clientIds, s1). Inr (clientIds, s1\<lparr>fdsToDisconnect := []\<rparr>))"

section \<open>Sending\<close>

text \<open>\<open>snd_res fd frame\<close> is what \<open>send\<close> returns: the bytes taken, or -1.\<close>

definition networkSend :: "int iter_order \<Rightarrow> (int \<Rightarrow> bytes \<Rightarrow> int) \<Rightarrow> int \<Rightarrow> bytes \<Rightarrow> NetworkServer \<Rightarrow> NetworkServer" where
  "networkSend ord snd_res fd bs s =
     (let frame = make_frame bs;
          sent = snd_res fd frame;
          s1 = s\<lparr>sentFrames := sentFrames s @ [(fd, frame)]\<rparr>
      in if 0 \<le> sent \<and> sent < int (length frame) then mark_disconnect ord fd s1
         else if sent = -1 then mark_disconnect ord fd s1
         else s1)"

definition sendToClient :: "int iter_order \<Rightarrow> (int \<Rightarrow> bytes \<Rightarrow> int) \<Rightarrow> int \<Rightarrow> bytes \<Rightarrow> NetworkServer \<Rightarrow> server_error + NetworkServer" where
  "sendToClient ord snd_res cid bs s =
     (case um_at (clientIdToFdMap s) cid of
        None \<Rightarrow> Inl OutOfRange
      | Some fd \<Rightarrow> Inr (networkSend ord snd_res fd bs s))"

definition net_broadcast :: "int iter_order \<Rightarrow> (int \<Rightarrow> bytes \<Rightarrow> int) \<Rightarrow> bytes \<Rightarrow> NetworkServer \<Rightarrow> NetworkServer" where
  "net_broadcast ord snd_res bs s =
     fold (\<lambda>(fd, cid). networkSend ord snd_res fd bs) (fdToClientIdMap s) s"

end
