(* ===== verification/Timer.thy ===== *)
theory Timer
  imports Constants
begin

text \<open>
  \<open>include/common/Timer.h\<close>. Time points are nanoseconds since the clock's epoch; what
  \<open>steady_clock::now()\<close> returned is an argument of the operations that call it. The statistics
  line that \<open>tick\<close> logs is not modelled, the counters behind it are.
\<close>

record Timer =
  currentGameTick :: int
  previousStatTick :: int
  engineLoopCounter :: int

definition ms_to_ns :: "int \<Rightarrow> int" where
  "ms_to_ns ms = ms * 1000000"

definition Timer_new :: "int \<Rightarrow> int \<Rightarrow> Timer" where
  "Timer_new now1 now2 =
     \<lparr>currentGameTick = now1, previousStatTick = now2, engineLoopCounter = 0\<rparr>"

definition Timer_tick :: "int \<Rightarrow> Timer \<Rightarrow> Timer" where
  "Timer_tick now t =
     (let t1 = t\<lparr>engineLoopCounter := engineLoopCounter t + 1, currentGameTick := now\<rparr>
      in if currentGameTick t1 - previousStatTick t1 > ms_to_ns (STATS_FREQUENCY_SECONDS * 1000)
         then t1\<lparr>engineLoopCounter := 0, previousStatTick := currentGameTick t1\<rparr>
         else t1)"

definition Timer_setTick :: "int \<Rightarrow> Timer \<Rightarrow> Timer" where
  "Timer_setTick nanos t = t\<lparr>currentGameTick := nanos\<rparr>"

definition currentTick :: "Timer \<Rightarrow> int" where
  "currentTick t = currentGameTick t"

definition currentTickAsNanos :: "Timer \<Rightarrow> i64" where
  "currentTickAsNanos t = word_of_int (currentGameTick t)"

lemma currentTick_tick [simp]: "currentTick (Timer_tick now t) = now"
  by (simp add: currentTick_def Timer_tick_def Let_def)

lemma currentTick_setTick [simp]: "currentTick (Timer_setTick nanos t) = nanos"
  by (simp add: currentTick_def Timer_setTick_def)

text \<open>A time stamp read back from a header sets the clock to the tick that wrote it.\<close>

lemma setTick_currentTickAsNanos:
  assumes "- (2 ^ 63) \<le> currentTick t" and "currentTick t < 2 ^ 63"
  shows "currentTick (Timer_setTick (sint (currentTickAsNanos t)) t') = currentTick t"
  using assms
  by (simp add: currentTickAsNanos_def currentTick_def Timer_setTick_def sint_word_ariths
      signed_of_int signed_take_bit_int_eq_self)

end
