(* ===== verification/PlayerNode.thy ===== *)
theory PlayerNode
  imports Constants
begin

text \<open>
  \<open>PlayerNode\<close> of \<open>include/snake_server/Player.h\<close>: the snake as a linked list of segments, each
  with its position and its previous position. What it promises is a queue of cells
  (\<open>segs\<close>): moving drops the last cell and puts the new head in front, growing after a move
  gives the dropped cell back. The lemmas also show that a snake stays in one piece, and that
  all positions it can ever show come from the cells its head has visited.
\<close>

section \<open>The linked list\<close>

datatype PlayerNode =
  PlayerNode (xPos: int) (yPos: int) (prevX: int) (prevY: int) (nextNode: "PlayerNode option")

text \<open>The constructor \<open>PlayerNode(x, y)\<close>.\<close>

definition new_node :: "int \<Rightarrow> int \<Rightarrow> PlayerNode" where
  "new_node x y = PlayerNode x y x y None"

fun moveTo :: "int \<Rightarrow> int \<Rightarrow> PlayerNode \<Rightarrow> PlayerNode" where
  "moveTo xMove yMove (PlayerNode x y px py None) = PlayerNode xMove yMove x y None"
| "moveTo xMove yMove (PlayerNode x y px py (Some n)) = PlayerNode xMove yMove x y (Some (moveTo x y n))"

definition move :: "int \<Rightarrow> int \<Rightarrow> PlayerNode \<Rightarrow> PlayerNode" where
  "move xMove yMove n = moveTo (xPos n + xMove) (yPos n + yMove) n"

fun grow :: "PlayerNode \<Rightarrow> PlayerNode" where
  "grow (PlayerNode x y px py None) = PlayerNode x y px py (Some (new_node px py))"
| "grow (PlayerNode x y px py (Some n)) = PlayerNode x y px py (Some (grow n))"

text \<open>\<open>getSegments\<close> appends to the vector it is given.\<close>

fun getSegments :: "PlayerNode \<Rightarrow> cell list \<Rightarrow> cell list" where
  "getSegments (PlayerNode x y px py None) segments = segments @ [(x, y)]"
| "getSegments (PlayerNode x y px py (Some n)) segments = getSegments n (segments @ [(x, y)])"

section \<open>The queue of cells it stands for\<close>

text \<open>Induction over the list, without the option in between.\<close>

lemma PlayerNode_induct [case_names last more]:
  assumes "\<And>x y px py. P (PlayerNode x y px py None)"
    and "\<And>x y px py n. P n \<Longrightarrow> P (PlayerNode x y px py (Some n))"
  shows "P n"
proof (induction n)
  case (PlayerNode x y px py nx)
  then show ?case using assms by (cases nx) auto
qed

abbreviation segs :: "PlayerNode \<Rightarrow> cell list" where
  "segs n \<equiv> getSegments n []"

definition prev :: "PlayerNode \<Rightarrow> cell" where
  "prev n = (prevX n, prevY n)"

text \<open>The previous position of the last node: the cell the snake has just left.\<close>

fun tail_prev :: "PlayerNode \<Rightarrow> cell" where
  "tail_prev (PlayerNode x y px py None) = (px, py)"
| "tail_prev (PlayerNode x y px py (Some n)) = tail_prev n"

lemma getSegments_append: "getSegments n acc = acc @ segs n"
proof (induction n arbitrary: acc rule: PlayerNode_induct)
  case (last x y px py)
  then show ?case by simp
next
  case (more x y px py n)
  show ?case
    using more [of "acc @ [(x, y)]"] more [of "[(x, y)]"] by simp
qed

lemma getSegments_Cons [simp]: "getSegments n (c # cs) = c # cs @ segs n"
  using getSegments_append [of n "c # cs"] by simp

lemma segs_nonempty [simp]: "segs n \<noteq> []"
  by (induction n rule: PlayerNode_induct) simp_all

lemma hd_segs [simp]: "hd (segs n) = (xPos n, yPos n)"
  by (induction n rule: PlayerNode_induct) simp_all

lemma segs_new_node [simp]: "segs (new_node x y) = [(x, y)]"
  by (simp add: new_node_def)

lemma xPos_moveTo [simp]: "xPos (moveTo x y n) = x"
  and yPos_moveTo [simp]: "yPos (moveTo x y n) = y"
  by (induction n rule: PlayerNode_induct) simp_all

lemma xPos_grow [simp]: "xPos (grow n) = xPos n"
  and yPos_grow [simp]: "yPos (grow n) = yPos n"
  by (induction n rule: PlayerNode_induct) simp_all

lemma segs_moveTo: "segs (moveTo x y n) = (x, y) # butlast (segs n)"
  by (induction n arbitrary: x y rule: PlayerNode_induct) simp_all

lemma segs_move: "segs (move dx dy n) = (xPos n + dx, yPos n + dy) # butlast (segs n)"
  by (simp add: move_def segs_moveTo)

lemma segs_grow: "segs (grow n) = segs n @ [tail_prev n]"
  by (induction n rule: PlayerNode_induct) (simp_all add: new_node_def)

lemma tail_prev_moveTo: "tail_prev (moveTo x y n) = last (segs n)"
  by (induction n arbitrary: x y rule: PlayerNode_induct) simp_all

lemma tail_prev_grow: "tail_prev (grow n) = tail_prev n"
  by (induction n rule: PlayerNode_induct) (simp_all add: new_node_def)

lemma segs_grow_moveTo: "segs (grow (moveTo x y n)) = (x, y) # segs n"
  by (simp add: segs_grow segs_moveTo tail_prev_moveTo)

lemma length_segs_moveTo [simp]: "length (segs (moveTo x y n)) = length (segs n)"
  by (simp add: segs_moveTo)

lemma length_segs_grow [simp]: "length (segs (grow n)) = Suc (length (segs n))"
  by (simp add: segs_grow)

section \<open>A snake's abstract behaviour\<close>

text \<open>
  The contract of a snake body, over the queue of its cells and the cell it would grow into:
  \<open>advance\<close> is a step to a new head cell, \<open>extend\<close> is growing.
\<close>

type_synonym body = "cell list \<times> cell"

definition advance :: "cell \<Rightarrow> body \<Rightarrow> body" where
  "advance c b = (c # butlast (fst b), last (fst b))"

definition extend :: "body \<Rightarrow> body" where
  "extend b = (fst b @ [snd b], snd b)"

definition body_of :: "PlayerNode \<Rightarrow> body" where
  "body_of n = (segs n, tail_prev n)"

section \<open>Shape invariants\<close>

text \<open>
  \<open>touching\<close>: the same cell or a neighbour of it. \<open>connected\<close>: every node's previous position
  is where its successor is, and is at most one step from its own position.
\<close>

definition touching :: "cell \<Rightarrow> cell \<Rightarrow> bool" where
  "touching a b \<longleftrightarrow> \<bar>fst a - fst b\<bar> + \<bar>snd a - snd b\<bar> \<le> 1"

fun connected :: "PlayerNode \<Rightarrow> bool" where
  "connected (PlayerNode x y px py None) \<longleftrightarrow> touching (x, y) (px, py)"
| "connected (PlayerNode x y px py (Some n)) \<longleftrightarrow>
     touching (x, y) (px, py) \<and> (xPos n, yPos n) = (px, py) \<and> connected n"

fun touching_chain :: "cell list \<Rightarrow> bool" where
  "touching_chain (a # b # cs) \<longleftrightarrow> touching a b \<and> touching_chain (b # cs)"
| "touching_chain _ \<longleftrightarrow> True"

lemma connected_new_node: "connected (new_node x y)"
  by (simp add: new_node_def touching_def)

lemma connected_moveTo:
  assumes "connected n" and "touching (x, y) (xPos n, yPos n)"
  shows "connected (moveTo x y n)"
  using assms
  by (induction n arbitrary: x y rule: PlayerNode_induct) (auto simp: touching_def abs_minus_commute)

lemma connected_grow: "connected n \<Longrightarrow> connected (grow n)"
  by (induction n rule: PlayerNode_induct) (simp_all add: new_node_def touching_def)

lemma connected_chain: "connected n \<Longrightarrow> touching_chain (segs n @ [tail_prev n])"
proof (induction n rule: PlayerNode_induct)
  case (last x y px py)
  then show ?case by simp
next
  case (more x y px py n)
  obtain cs where "segs n = (xPos n, yPos n) # cs"
    by (metis hd_segs list.collapse segs_nonempty)
  with more show ?case by simp
qed

text \<open>All positions a node knows: its own and the previous one, of every segment.\<close>

fun positions :: "PlayerNode \<Rightarrow> cell set" where
  "positions (PlayerNode x y px py None) = {(x, y), (px, py)}"
| "positions (PlayerNode x y px py (Some n)) = insert (x, y) (insert (px, py) (positions n))"

lemma segs_positions: "set (segs n) \<subseteq> positions n"
  by (induction n rule: PlayerNode_induct) auto

lemma tail_prev_positions: "tail_prev n \<in> positions n"
  by (induction n rule: PlayerNode_induct) auto

lemma positions_moveTo: "positions (moveTo x y n) \<subseteq> insert (x, y) (positions n)"
  by (induction n arbitrary: x y rule: PlayerNode_induct) auto

lemma positions_grow: "positions (grow n) = positions n"
  by (induction n rule: PlayerNode_induct) (auto simp: new_node_def)

lemma positions_new_node: "positions (new_node x y) = {(x, y)}"
  by (simp add: new_node_def)

text \<open>After a move everything but the head is a position the snake already knew.\<close>

lemma positions_moveTo_old: "set (tl (segs (moveTo x y n))) \<subseteq> positions n"
  using segs_positions [of n] by (auto simp: segs_moveTo dest: in_set_butlastD)

section \<open>Properties\<close>

text \<open>
  C15: The linked list implements the snake's contract. The recursive pointer updates of \<open>move\<close>
  and \<open>grow\<close> refine the queue: a move is \<open>advance\<close> to the neighbouring cell, growing is \<open>extend\<close>
  by the cell the tail left last, and \<open>getSegments\<close> appends the queue to its argument.
\<close>

theorem PlayerNode_refines_body:
  "body_of (move dx dy n) = advance (xPos n + dx, yPos n + dy) (body_of n) \<and>
   body_of (grow n) = extend (body_of n) \<and>
   body_of (new_node x y) = ([(x, y)], (x, y)) \<and>
   getSegments n acc = acc @ fst (body_of n)"
proof (intro conjI)
  show "getSegments n acc = acc @ fst (body_of n)" by (simp add: body_of_def getSegments_append [of n acc])
qed (simp_all add: body_of_def advance_def extend_def segs_moveTo segs_grow tail_prev_grow
      move_def tail_prev_moveTo, simp add: new_node_def)

text \<open>
  A snake stays in one piece. From a connected snake, a step of one cell followed by growing
  gives a connected snake: consecutive segments touch, the new body is the new head in front of
  all the old segments, so eating right after a move loses no cell.
\<close>

theorem snake_stays_connected:
  assumes "connected n" and "\<bar>dx\<bar> + \<bar>dy\<bar> \<le> 1"
  shows "connected (move dx dy n) \<and> connected (grow (move dx dy n)) \<and>
     segs (grow (move dx dy n)) = (xPos n + dx, yPos n + dy) # segs n \<and>
     touching_chain (segs (grow (move dx dy n)))"
proof -
  have "touching (xPos n + dx, yPos n + dy) (xPos n, yPos n)" using assms(2) by (simp add: touching_def)
  with assms(1) have c: "connected (move dx dy n)" by (simp add: move_def connected_moveTo)
  then have "touching_chain (segs (grow (move dx dy n)))"
    using connected_chain [of "move dx dy n"] by (simp add: segs_grow)
  with c show ?thesis by (simp add: connected_grow) (simp add: move_def segs_grow_moveTo)
qed

theorem snake_stays_connected_witness:
  "segs (grow (move 0 (-1) (new_node 3 4))) = [(3, 3), (3, 4)]"
  using snake_stays_connected [of "new_node 3 4" 0 "-1"] by (simp add: connected_new_node) (simp add: new_node_def)

end
