(* ===== verification/SnakeServer.thy ===== *)
theory SnakeServer
  imports NetworkServer Timer PlayerNode "HOL-Library.Signed_Division"
begin

text \<open>
  \<open>SnakeServer.h\<close>, \<open>SnakeServer.cpp\<close>, \<open>ServerConfig.h\<close> and the structures of \<open>Player.h\<close>: the
  game engine. The state is the record \<open>SnakeServer\<close>, one definition per member function,
  called in the order of the source. Coordinates, scores and client ids are \<open>int\<close> (the laws
  bound them), the counters of \<open>occupiedCellsBodies\<close> are 16-bit words, sequence numbers are
  64-bit words, time points are nanoseconds. Every \<open>at\<close> that can throw does so here.
  Outside the sources and therefore parameters (record \<open>env\<close>): the random numbers and the
  iteration orders of the unordered containers, and the one order of evaluation that C++ leaves
  open.
\<close>

section \<open>The environment\<close>

text \<open>
  \<open>std::uniform_int_distribution\<close> on a generator: all the standard promises is that a draw from
  \<open>[a, b]\<close> lies in it.
\<close>

typedef 'g uniform_int =
  "{f :: int \<Rightarrow> int \<Rightarrow> 'g \<Rightarrow> int \<times> 'g. \<forall>a b g. a \<le> b \<longrightarrow> a \<le> fst (f a b g) \<and> fst (f a b g) \<le> b}"
  morphisms draw Abs_uniform_int
  by (rule exI [where x = "\<lambda>a b g. (a, g)"]) simp

lemma draw_range: "a \<le> b \<Longrightarrow> a \<le> fst (draw d a b g) \<and> fst (draw d a b g) \<le> b"
  using draw [of d] by blast

record 'g env =
  rng :: "'g uniform_int"
  mt19937 :: "u32 \<Rightarrow> 'g"
  player_ord :: "int iter_order"
  cell_ord :: "cell iter_order"
  net_ord :: "int iter_order"
  x_first :: bool \<comment> \<open>does the compiler evaluate the first argument of a call first?\<close>

section \<open>Structures\<close>

record Player =
  head :: PlayerNode
  direction :: byte
  nextDirection :: byte
  name :: bytes
  score :: int
  color :: int
  p_movementFrequencyMs :: int
  nextMoveTime :: int
  boosted :: bool
  boostExpireTime :: int

record Food =
  f_x :: int
  f_y :: int
  f_icon :: byte
  f_color :: int

record SpeedBoost =
  sb_x :: int
  sb_y :: int
  sb_icon :: byte
  sb_color :: int

record ServerConfig =
  cfg_port :: int
  cfg_width :: int
  cfg_height :: int
  cfg_seed :: u32
  cfg_movementFrequencyMs :: int
  cfg_boostedMovementFrequencyMs :: int
  cfg_boostDurationMs :: int

text \<open>\<open>random_device\<close> is what \<open>std::random_device {}()\<close> returned.\<close>

definition initServerConfig :: "u32 \<Rightarrow> MessageVariant option \<Rightarrow> server_error + ServerConfig" where
  "initServerConfig random_device msg =
     rbind (case msg of
              None \<Rightarrow> Inr random_device
            | Some m \<Rightarrow>
                if messageType (header m) \<noteq> mt_code SERVER_CONFIG then Inl AssertionFailed
                else (case m of VServerConfig sc \<Rightarrow> Inr (sc_seed sc) | _ \<Rightarrow> Inl BadVariantAccess))
       (\<lambda>seed. Inr \<lparr>cfg_port = SERVER_PORT, cfg_width = ARENA_WIDTH, cfg_height = ARENA_HEIGHT,
          cfg_seed = seed, cfg_movementFrequencyMs = MOVEMENT_FREQUENCY_MS,
          cfg_boostedMovementFrequencyMs = BOOSTED_MOVEMENT_FREQUENCY_MS,
          cfg_boostDurationMs = SPEED_BOOST_DURATION_MS\<rparr>)"

record 'g SnakeServer =
  width :: int
  height :: int
  currentSequence :: i64
  movementFrequencyMs :: int
  boostedMovementFrequencyMs :: int
  boostDurationMs :: int
  timer :: Timer
  seed :: u32
  gen :: 'g
  msgLog :: bytes \<comment> \<open>the file behind \<open>msgLogWriter\<close>\<close>
  serverHighScore :: "bytes \<times> int"
  replayFile :: "MessageLogReader option"
  network :: NetworkServer
  clientIdToPlayerMap :: "(int, Player) umap"
  occupiedCellsBodies :: "u16 list" \<comment> \<open>body segments per cell, indexed y * width + x\<close>
  foodMap :: "(cell, Food) umap"
  speedBoostMap :: "(cell, SpeedBoost) umap"

definition SnakeServer_new :: "'g env \<Rightarrow> ServerConfig \<Rightarrow> MessageLogReader option \<Rightarrow> Timer \<Rightarrow> NetworkServer \<Rightarrow> 'g SnakeServer" where
  "SnakeServer_new env cfg reader t net =
     \<lparr>width = cfg_width cfg, height = cfg_height cfg, currentSequence = 0,
      movementFrequencyMs = cfg_movementFrequencyMs cfg,
      boostedMovementFrequencyMs = cfg_boostedMovementFrequencyMs cfg,
      boostDurationMs = cfg_boostDurationMs cfg, timer = t, seed = cfg_seed cfg,
      gen = mt19937 env (cfg_seed cfg), msgLog = [], serverHighScore = ([], 0),
      replayFile = reader, network = net, clientIdToPlayerMap = [],
      occupiedCellsBodies = replicate (nat (cfg_width cfg * cfg_height cfg)) 0,
      foodMap = [], speedBoostMap = []\<rparr>"

section \<open>Stamping and logging messages\<close>

definition stamp :: "'g SnakeServer \<Rightarrow> Header \<Rightarrow> Header" where
  "stamp s h = h\<lparr>sequence := currentSequence s, transactTime := currentTickAsNanos (timer s)\<rparr>"

definition stampMessage :: "MessageVariant \<Rightarrow> 'g SnakeServer \<Rightarrow> MessageVariant \<times> 'g SnakeServer" where
  "stampMessage msg s = (header_update (stamp s) msg, s\<lparr>currentSequence := currentSequence s + 1\<rparr>)"

primrec lift_wire :: "wire_error + 'a \<Rightarrow> server_error + 'a" where
  "lift_wire (Inl e) = Inl (WireError e)"
| "lift_wire (Inr x) = Inr x"

primrec lift_log :: "log_error + 'a \<Rightarrow> server_error + 'a" where
  "lift_log (Inl e) = Inl (LogError e)"
| "lift_log (Inr x) = Inr x"

text \<open>\<open>msgLogWriter.log(protocol::serialise(msg))\<close>; the bytes are returned for the sends.\<close>

definition log_message :: "MessageVariant \<Rightarrow> 'g SnakeServer \<Rightarrow> server_error + (bytes \<times> 'g SnakeServer)" where
  "log_message msg s =
     rbind (lift_wire (serialise msg)) (\<lambda>bs. Inr (bs, s\<lparr>msgLog := log_write (msgLog s) bs\<rparr>))"

definition recordServerConfig :: "'g SnakeServer \<Rightarrow> server_error + 'g SnakeServer" where
  "recordServerConfig s =
     (let msg = VServerConfig
            \<lparr>sc_hdr = header_of SERVER_CONFIG (-1), sc_width = word_of_int (width s),
             sc_height = word_of_int (height s), sc_seed = seed s,
             sc_minFoodInArena = of_nat MIN_FOOD_IN_ARENA,
             sc_foodSpawnFromBodySegmentProbability = word_of_int FOOD_SPAWN_FROM_BODY_SEGMENT_PROBABILITY,
             sc_speedBoostProbability = word_of_int SPEED_BOOST_PROBABILITY,
             sc_speedBoostRatio = SPEED_BOOST_RATIO,
             sc_movementFrequencyMs = word_of_int (movementFrequencyMs s),
             sc_boostedMovementFrequencyMs = word_of_int (boostedMovementFrequencyMs s),
             sc_boostDurationMs = word_of_int (boostDurationMs s)\<rparr>;
          (msg, s) = stampMessage msg s
      in rbind (log_message msg s) (\<lambda>(_, s). Inr s))"

definition isInReplay :: "'g SnakeServer \<Rightarrow> bool" where
  "isInReplay s = (replayFile s \<noteq> None)"

section \<open>Handlers\<close>

text \<open>A char array used as a C string: its characters up to the terminator, which must exist.\<close>

definition c_string :: "bytes \<Rightarrow> server_error + bytes" where
  "c_string arr = (if 0 \<in> set arr then Inr (takeWhile (\<lambda>c. c \<noteq> 0) arr) else Inl UnterminatedString)"

abbreviation client_of :: "Header \<Rightarrow> int" where
  "client_of h \<equiv> sint (clientId h)"

definition new_player :: "'g SnakeServer \<Rightarrow> int \<Rightarrow> int \<Rightarrow> int \<Rightarrow> bytes \<Rightarrow> Player" where
  "new_player s cid x y nm =
     \<lparr>head = new_node x y, direction = PLAYER_KEY_UP, nextDirection = PLAYER_KEY_UP,
      name = nm, score = 1, color = (cid smod 5) + 2,
      p_movementFrequencyMs = movementFrequencyMs s,
      nextMoveTime = currentTick (timer s) + ms_to_ns (movementFrequencyMs s),
      boosted = False, boostExpireTime = currentTick (timer s)\<rparr>"

definition createNewPlayer :: "'g env \<Rightarrow> ClientJoinMsg \<Rightarrow> 'g SnakeServer \<Rightarrow> server_error + 'g SnakeServer" where
  "createNewPlayer env msg s =
     (let (x, g1) = draw (rng env) (1 + 5) (width s - 1 - 5) (gen s);
          (y, g2) = draw (rng env) (1 + 5) (height s - 1 - 5) g1;
          cid = client_of (cj_hdr msg)
      in rbind (c_string (cj_username msg)) (\<lambda>nm.
           Inr (s\<lparr>gen := g2,
                 clientIdToPlayerMap := um_emplace (player_ord env) cid (new_player s cid x y nm)
                   (clientIdToPlayerMap s)\<rparr>)))"

definition handleClientJoin :: "'g env \<Rightarrow> (int \<Rightarrow> bytes \<Rightarrow> int) \<Rightarrow> ClientJoinMsg \<Rightarrow> 'g SnakeServer \<Rightarrow> server_error + 'g SnakeServer" where
  "handleClientJoin env snd_res msg s =
     rbind (createNewPlayer env msg s) (\<lambda>s.
       let (welcome, s) = stampMessage
             (VServerWelcome \<lparr>sw_hdr = header_of SERVER_WELCOME (clientId (cj_hdr msg))\<rparr>) s
       in rbind (log_message welcome s) (\<lambda>(msgBytes, s).
            if \<not> isInReplay s then
              rbind (sendToClient (net_ord env) snd_res (client_of (cj_hdr msg)) msgBytes (network s))
                (\<lambda>net. Inr (s\<lparr>network := net\<rparr>))
            else Inr s))"

definition handleClientDisconnect :: "ClientDisconnectMsg \<Rightarrow> 'g SnakeServer \<Rightarrow> 'g SnakeServer" where
  "handleClientDisconnect msg s =
     (let cid = client_of (cd_hdr msg) in
      if um_contains (clientIdToPlayerMap s) cid
      then s\<lparr>clientIdToPlayerMap := um_erase cid (clientIdToPlayerMap s)\<rparr> else s)"

definition steer :: "byte \<Rightarrow> Player \<Rightarrow> Player" where
  "steer inp p =
     (if inp = PLAYER_KEY_UP then
        if direction p \<noteq> PLAYER_KEY_DOWN then p\<lparr>nextDirection := PLAYER_KEY_UP\<rparr> else p
      else if inp = PLAYER_KEY_DOWN then
        if direction p \<noteq> PLAYER_KEY_UP then p\<lparr>nextDirection := PLAYER_KEY_DOWN\<rparr> else p
      else if inp = PLAYER_KEY_LEFT then
        if direction p \<noteq> PLAYER_KEY_RIGHT then p\<lparr>nextDirection := PLAYER_KEY_LEFT\<rparr> else p
      else if inp = PLAYER_KEY_RIGHT then
        if direction p \<noteq> PLAYER_KEY_LEFT then p\<lparr>nextDirection := PLAYER_KEY_RIGHT\<rparr> else p
      else p)"

definition handleClientInput :: "ClientInputMsg \<Rightarrow> 'g SnakeServer \<Rightarrow> 'g SnakeServer" where
  "handleClientInput msg s =
     (let cid = client_of (ci_hdr msg) in
      if \<not> um_contains (clientIdToPlayerMap s) cid then s
      else s\<lparr>clientIdToPlayerMap := um_modify cid (steer (ci_input msg)) (clientIdToPlayerMap s)\<rparr>)"

section \<open>Moving the snakes\<close>

definition player_at :: "int \<Rightarrow> 'g SnakeServer \<Rightarrow> server_error + Player" where
  "player_at cid s =
     (case um_at (clientIdToPlayerMap s) cid of None \<Rightarrow> Inl OutOfRange | Some p \<Rightarrow> Inr p)"

definition modify_player :: "int \<Rightarrow> (Player \<Rightarrow> Player) \<Rightarrow> 'g SnakeServer \<Rightarrow> 'g SnakeServer" where
  "modify_player cid f s = s\<lparr>clientIdToPlayerMap := um_modify cid f (clientIdToPlayerMap s)\<rparr>"

text \<open>The step a direction stands for; any other character is the exception.\<close>

definition direction_step :: "byte \<Rightarrow> server_error + (int \<times> int)" where
  "direction_step d =
     (if d = PLAYER_KEY_UP then Inr (0, -1)
      else if d = PLAYER_KEY_DOWN then Inr (0, 1)
      else if d = PLAYER_KEY_LEFT then Inr (-1, 0)
      else if d = PLAYER_KEY_RIGHT then Inr (1, 0)
      else Inl (InvalidDirection d))"

definition moveSnake :: "int \<Rightarrow> 'g SnakeServer \<Rightarrow> server_error + 'g SnakeServer" where
  "moveSnake cid s =
     rbind (player_at cid s) (\<lambda>player.
     rbind (direction_step (nextDirection player)) (\<lambda>(dx, dy).
       Inr (modify_player cid (\<lambda>p. p\<lparr>direction := nextDirection p, head := move dx dy (head p),
              nextMoveTime := currentTick (timer s) + ms_to_ns (p_movementFrequencyMs p)\<rparr>) s)))"

text \<open>
  \<open>occupiedCellsBodies.at(static_cast<size_t>(i))\<close>: a negative index becomes a huge one, so it is
  out of range as well.
\<close>

definition cell_index :: "'g SnakeServer \<Rightarrow> cell \<Rightarrow> int" where
  "cell_index s c = (snd c - 1) * width s + fst c - 1"

definition occupied_at :: "'g SnakeServer \<Rightarrow> cell \<Rightarrow> server_error + u16" where
  "occupied_at s c =
     (let i = cell_index s c in
      if 0 \<le> i \<and> i < int (length (occupiedCellsBodies s))
      then Inr (occupiedCellsBodies s ! nat i) else Inl OutOfRange)"

definition occupy_cell :: "cell \<Rightarrow> 'g SnakeServer \<Rightarrow> server_error + 'g SnakeServer" where
  "occupy_cell c s =
     rbind (occupied_at s c) (\<lambda>n.
       Inr (s\<lparr>occupiedCellsBodies := (occupiedCellsBodies s)[nat (cell_index s c) := n + 1]\<rparr>))"

definition updateOccupiedCells :: "int \<Rightarrow> 'g SnakeServer \<Rightarrow> server_error + 'g SnakeServer" where
  "updateOccupiedCells cid s =
     rbind (player_at cid s) (\<lambda>player. rfold occupy_cell (tl (getSegments (head player) [])) s)"

definition expire_boost :: "int \<Rightarrow> 'g SnakeServer \<Rightarrow> 'g SnakeServer" where
  "expire_boost cid s =
     modify_player cid (\<lambda>p.
       if boosted p \<and> boostExpireTime p \<le> currentTick (timer s)
       then p\<lparr>boosted := False, p_movementFrequencyMs := movementFrequencyMs s\<rparr> else p) s"

definition updateSnake :: "int \<Rightarrow> bool \<times> 'g SnakeServer \<Rightarrow> server_error + (bool \<times> 'g SnakeServer)" where
  "updateSnake cid st =
     (let (snakeUpdates, s) = st; s = expire_boost cid s in
      rbind (player_at cid s) (\<lambda>player.
      rbind (if currentTick (timer s) \<ge> nextMoveTime player
             then rbind (moveSnake cid s) (\<lambda>s. Inr (True, s))
             else Inr (snakeUpdates, s)) (\<lambda>(snakeUpdates, s).
      rbind (updateOccupiedCells cid s) (\<lambda>s. Inr (snakeUpdates, s)))))"

definition updateSnakes :: "'g SnakeServer \<Rightarrow> server_error + (bool \<times> 'g SnakeServer)" where
  "updateSnakes s =
     rfold updateSnake (um_keys (clientIdToPlayerMap s))
       (False, s\<lparr>occupiedCellsBodies := replicate (length (occupiedCellsBodies s)) 0\<rparr>)"

section \<open>Food and speed boosts\<close>

definition placeFoodAt :: "'g env \<Rightarrow> int \<Rightarrow> int \<Rightarrow> int \<Rightarrow> 'g SnakeServer \<Rightarrow> 'g SnakeServer" where
  "placeFoodAt env x y col s =
     s\<lparr>foodMap := um_set (cell_ord env) (x, y)
         \<lparr>f_x = x, f_y = y, f_icon = ICON_FOOD, f_color = col\<rparr> (foodMap s)\<rparr>"

text \<open>
  The two draws are arguments of one call, \<open>placeFood(distX(gen), distY(gen))\<close>, and C++ leaves
  their order open.
\<close>

definition placeFood :: "'g env \<Rightarrow> 'g SnakeServer \<Rightarrow> 'g SnakeServer" where
  "placeFood env s =
     (if x_first env then
        let (x, g1) = draw (rng env) 1 (width s - 1) (gen s);
            (y, g2) = draw (rng env) 1 (height s - 1) g1
        in placeFoodAt env x y Color_WHITE (s\<lparr>gen := g2\<rparr>)
      else
        let (y, g1) = draw (rng env) 1 (height s - 1) (gen s);
            (x, g2) = draw (rng env) 1 (width s - 1) g1
        in placeFoodAt env x y Color_WHITE (s\<lparr>gen := g2\<rparr>))"

text \<open>The loop of \<open>replaceFood\<close> ends only if the draws do not keep hitting cells with food.\<close>

partial_function (option) replaceFood :: "'g env \<Rightarrow> 'g SnakeServer \<Rightarrow> 'g SnakeServer option" where
  "replaceFood env s =
     (if length (um_keys (foodMap s)) < MIN_FOOD_IN_ARENA
      then replaceFood env (placeFood env s) else Some s)"

definition placeSpeedBoost :: "'g env \<Rightarrow> 'g SnakeServer \<Rightarrow> 'g SnakeServer" where
  "placeSpeedBoost env s =
     (if speedBoostMap s = [] then
        let (n, g1) = draw (rng env) 1 SPEED_BOOST_PROBABILITY (gen s) in
        if n = 1 then
          let (x, g2) = draw (rng env) 1 (width s - 1) g1;
              (y, g3) = draw (rng env) 1 (height s - 1) g2
          in s\<lparr>gen := g3, speedBoostMap := um_set (cell_ord env) (x, y)
                 \<lparr>sb_x = x, sb_y = y, sb_icon = ICON_BOOST, sb_color = Color_WHITE\<rparr> (speedBoostMap s)\<rparr>
        else s\<lparr>gen := g1\<rparr>
      else s)"

definition feedPlayer :: "cell \<Rightarrow> int \<Rightarrow> 'g SnakeServer \<Rightarrow> 'g SnakeServer" where
  "feedPlayer playerCell cid s =
     (modify_player cid (\<lambda>p. p\<lparr>head := grow (head p), score := score p + 1\<rparr>) s)
       \<lparr>foodMap := um_erase playerCell (foodMap s)\<rparr>"

definition boostPlayer :: "cell \<Rightarrow> int \<Rightarrow> 'g SnakeServer \<Rightarrow> 'g SnakeServer" where
  "boostPlayer playerCell cid s =
     (modify_player cid (\<lambda>p. p\<lparr>boosted := True, p_movementFrequencyMs := boostedMovementFrequencyMs s,
          boostExpireTime := currentTick (timer s) + ms_to_ns (boostDurationMs s)\<rparr>) s)
       \<lparr>speedBoostMap := um_erase playerCell (speedBoostMap s)\<rparr>"

section \<open>Collisions\<close>

definition head_cell :: "Player \<Rightarrow> cell" where
  "head_cell p = (xPos (head p), yPos (head p))"

definition getPlayerHeadsInCell :: "cell \<Rightarrow> 'g SnakeServer \<Rightarrow> int list" where
  "getPlayerHeadsInCell c s = map fst (filter (\<lambda>e. head_cell (snd e) = c) (clientIdToPlayerMap s))"

text \<open>
  The order of \<open>std::min_element\<close> there: earlier \<open>nextMoveTime\<close> first, ties by client id. It is
  the lexicographic order on \<open>arrival\<close>.
\<close>

datatype arrival = Arrival (arr_time: int) (arr_id: int)

definition arrived_before :: "arrival \<Rightarrow> arrival \<Rightarrow> bool" where
  "arrived_before a b \<longleftrightarrow> (if arr_time a \<noteq> arr_time b then arr_time a < arr_time b else arr_id a < arr_id b)"

instantiation arrival :: linorder
begin

definition less_eq_arrival :: "arrival \<Rightarrow> arrival \<Rightarrow> bool" where
  "less_eq_arrival a b \<longleftrightarrow> arr_time a < arr_time b \<or> arr_time a = arr_time b \<and> arr_id a \<le> arr_id b"

definition less_arrival :: "arrival \<Rightarrow> arrival \<Rightarrow> bool" where
  "less_arrival = arrived_before"

instance
  by standard (auto simp: less_eq_arrival_def less_arrival_def arrived_before_def intro: arrival.expand)

end

definition arrival_of :: "'g SnakeServer \<Rightarrow> int \<Rightarrow> arrival" where
  "arrival_of s cid =
     Arrival (case um_at (clientIdToPlayerMap s) cid of None \<Rightarrow> 0 | Some p \<Rightarrow> nextMoveTime p) cid"

text \<open>\<open>std::min_element\<close>: keeps the current smallest unless a later element is less.\<close>

primrec min_element_from :: "('a \<Rightarrow> 'b::linorder) \<Rightarrow> 'a \<Rightarrow> 'a list \<Rightarrow> 'a" where
  "min_element_from f m [] = m"
| "min_element_from f m (x # xs) = min_element_from f (if f x < f m then x else m) xs"

definition firstPlayerInCell :: "'g SnakeServer \<Rightarrow> int list \<Rightarrow> int" where
  "firstPlayerInCell s cids = min_element_from (arrival_of s) (hd cids) (tl cids)"

definition track_high_score :: "int \<Rightarrow> 'g SnakeServer \<Rightarrow> server_error + 'g SnakeServer" where
  "track_high_score cid s =
     rbind (player_at cid s) (\<lambda>p.
       Inr (if score p > snd (serverHighScore s)
            then s\<lparr>serverHighScore := (name p, score p)\<rparr> else s))"

text \<open>The body of the loop; the state is the list of clients to destroy and the server.\<close>

definition check_player :: "int \<Rightarrow> int list \<times> 'g SnakeServer \<Rightarrow> server_error + (int list \<times> 'g SnakeServer)" where
  "check_player cid st =
     (let (destroy, s) = st in
      rbind (player_at cid s) (\<lambda>player.
        let playerHead = head_cell player;
            playerHeadCells = getPlayerHeadsInCell playerHead s
        in rbind
          (if snd playerHead \<le> 0 then Inr (destroy @ [cid], s)
           else if snd playerHead \<ge> height s + 1 then Inr (destroy @ [cid], s)
           else if fst playerHead \<le> 0 then Inr (destroy @ [cid], s)
           else if fst playerHead \<ge> width s + 1 then Inr (destroy @ [cid], s)
           else rbind (occupied_at s playerHead) (\<lambda>n.
             if n > 0 then Inr (destroy @ [cid], s)
             else if length playerHeadCells > 1 then
               if cid \<noteq> firstPlayerInCell s playerHeadCells then Inr (destroy @ [cid], s)
               else Inr (destroy, s)
             else if um_contains (foodMap s) playerHead then Inr (destroy, feedPlayer playerHead cid s)
             else if um_contains (speedBoostMap s) playerHead then Inr (destroy, boostPlayer playerHead cid s)
             else Inr (destroy, s)))
          (\<lambda>(destroy, s). rbind (track_high_score cid s) (\<lambda>s. Inr (destroy, s)))))"

text \<open>The chance of food on each body segment of a dead snake.\<close>

definition drop_food :: "'g env \<Rightarrow> int \<Rightarrow> cell \<Rightarrow> 'g SnakeServer \<Rightarrow> 'g SnakeServer" where
  "drop_food env col c s =
     (let (n, g) = draw (rng env) 1 FOOD_SPAWN_FROM_BODY_SEGMENT_PROBABILITY (gen s);
          s = s\<lparr>gen := g\<rparr>
      in if n = 1 then placeFoodAt env (fst c) (snd c) col s else s)"

definition destroyPlayer :: "'g env \<Rightarrow> int \<Rightarrow> 'g SnakeServer \<Rightarrow> server_error + 'g SnakeServer" where
  "destroyPlayer env cid s =
     rbind (player_at cid s) (\<lambda>player.
       let s = fold (drop_food env (color player)) (tl (getSegments (head player) [])) s
       in Inr (s\<lparr>clientIdToPlayerMap := um_erase cid (clientIdToPlayerMap s)\<rparr>))"

definition destroyPlayers :: "'g env \<Rightarrow> int list \<Rightarrow> 'g SnakeServer \<Rightarrow> server_error + 'g SnakeServer" where
  "destroyPlayers env cids s = rfold (destroyPlayer env) cids s"

definition checkCollisions :: "'g env \<Rightarrow> 'g SnakeServer \<Rightarrow> server_error + 'g SnakeServer" where
  "checkCollisions env s =
     rbind (rfold check_player (um_keys (clientIdToPlayerMap s)) ([], s)) (\<lambda>(destroy, s).
       if destroy \<noteq> [] then destroyPlayers env destroy s else Inr s)"

section \<open>The game state that is broadcast\<close>

text \<open>\<open>strncpy(dst, src.c_str(), 16)\<close>: padded with NUL bytes, not terminated if there is no room.\<close>

definition strncpy16 :: "bytes \<Rightarrow> bytes" where
  "strncpy16 src = take 16 (takeWhile (\<lambda>c. c \<noteq> 0) src @ replicate 16 0)"

definition buildGameState :: "'g SnakeServer \<Rightarrow> GameStateMsg" where
  "buildGameState s =
     \<lparr>gs_hdr = header_of GAME_STATE (-1),
      gs_highScore = word_of_int (snd (serverHighScore s)),
      gs_highScoreUsername = strncpy16 (fst (serverHighScore s)),
      gs_food = map (\<lambda>(_, f). \<lparr>gf_color = word_of_int (f_color f), gf_icon = f_icon f,
         gf_x = word_of_int (f_x f), gf_y = word_of_int (f_y f)\<rparr>) (foodMap s),
      gs_speedBoosts = map (\<lambda>(_, b). \<lparr>gf_color = word_of_int (sb_color b), gf_icon = sb_icon b,
         gf_x = word_of_int (sb_x b), gf_y = word_of_int (sb_y b)\<rparr>) (speedBoostMap s),
      gs_players = map (\<lambda>(cid, p). \<lparr>gp_clientId = word_of_int cid, gp_color = word_of_int (color p),
         gp_direction = direction p, gp_score = word_of_int (score p), gp_username = strncpy16 (name p),
         gp_segments = map (\<lambda>(x, y). (word_of_int x, word_of_int y)) (getSegments (head p) [])\<rparr>)
         (clientIdToPlayerMap s)\<rparr>"

definition broadcastGameState :: "'g env \<Rightarrow> (int \<Rightarrow> bytes \<Rightarrow> int) \<Rightarrow> 'g SnakeServer \<Rightarrow> server_error + 'g SnakeServer" where
  "broadcastGameState env snd_res s =
     (let (msg, s) = stampMessage (VGameState (buildGameState s)) s in
      rbind (log_message msg s) (\<lambda>(msgBytes, s).
        if \<not> isInReplay s
        then Inr (s\<lparr>network := net_broadcast (net_ord env) snd_res msgBytes (network s)\<rparr>)
        else Inr s))"

section \<open>The event loop\<close>

text \<open>What the kernel and the clock deliver for one pass of the loop.\<close>

record tick_input =
  events :: "os_event list"
  clock :: int
  send_result :: "int \<Rightarrow> bytes \<Rightarrow> int"

definition disconnect_message :: "int \<Rightarrow> MessageVariant" where
  "disconnect_message cid =
     VClientDisconnect \<lparr>cd_hdr = header_of CLIENT_DISCONNECT (word_of_int cid)\<rparr>"

definition add_disconnects :: "MessageVariant list \<Rightarrow> 'g SnakeServer \<Rightarrow> server_error + (MessageVariant list option \<times> 'g SnakeServer)" where
  "add_disconnects messages s =
     rbind (drainDisconnects (network s)) (\<lambda>(cids, net).
       Inr (Some (messages @ map disconnect_message cids), s\<lparr>network := net\<rparr>))"

definition is_input_message :: "MessageVariant \<Rightarrow> bool" where
  "is_input_message m \<longleftrightarrow>
     messageType (header m) \<noteq> mt_code SERVER_WELCOME \<and> messageType (header m) \<noteq> mt_code GAME_STATE"

definition decode_frames :: "(int \<times> bytes) list \<Rightarrow> server_error + MessageVariant list" where
  "decode_frames frames =
     rfold (\<lambda>(cid, frame) messages.
         rbind (lift_wire (deserialise_for frame (word_of_int cid))) (\<lambda>m. Inr (messages @ [m])))
       frames []"

text \<open>\<open>None\<close> is the \<open>nullopt\<close> that ends a replay.\<close>

definition pollMessages :: "'g env \<Rightarrow> tick_input \<Rightarrow> 'g SnakeServer \<Rightarrow> server_error + (MessageVariant list option \<times> 'g SnakeServer)" where
  "pollMessages env inp s =
     (case replayFile s of
        Some reader \<Rightarrow>
          rbind (lift_log (nextBatch reader)) (\<lambda>(fileMessages, reader).
            if fileMessages \<noteq> [] then
              add_disconnects (filter is_input_message fileMessages)
                (s\<lparr>replayFile := Some reader,
                   timer := fold (\<lambda>m. Timer_setTick (transact m)) fileMessages (timer s)\<rparr>)
            else Inr (None, s\<lparr>replayFile := None\<rparr>))
      | None \<Rightarrow>
          rbind (net_pollMessages (net_ord env) (events inp) (network s)) (\<lambda>(frames, net).
          rbind (decode_frames frames) (\<lambda>messages.
            add_disconnects messages
              (s\<lparr>network := net, timer := Timer_tick (clock inp) (timer s)\<rparr>))))"

definition dispatch :: "'g env \<Rightarrow> (int \<Rightarrow> bytes \<Rightarrow> int) \<Rightarrow> MessageVariant \<Rightarrow> bool \<times> 'g SnakeServer \<Rightarrow> server_error + (bool \<times> 'g SnakeServer)" where
  "dispatch env snd_res msg st =
     (let (stateChanged, s) = st; (msg, s) = stampMessage msg s in
      rbind (log_message msg s) (\<lambda>(_, s).
        case mt_of (messageType (header msg)) of
          Some CLIENT_JOIN \<Rightarrow>
            (case msg of VClientJoin m \<Rightarrow> rbind (handleClientJoin env snd_res m s) (\<lambda>s. Inr (True, s))
             | _ \<Rightarrow> Inl BadVariantAccess)
        | Some CLIENT_INPUT \<Rightarrow>
            (case msg of VClientInput m \<Rightarrow> Inr (stateChanged, handleClientInput m s)
             | _ \<Rightarrow> Inl BadVariantAccess)
        | Some CLIENT_DISCONNECT \<Rightarrow>
            (case msg of VClientDisconnect m \<Rightarrow> Inr (True, handleClientDisconnect m s)
             | _ \<Rightarrow> Inl BadVariantAccess)
        | _ \<Rightarrow> Inr (stateChanged, s)))"

text \<open>What follows the polling in one pass of the loop.\<close>

definition move_phase :: "'g env \<Rightarrow> bool \<times> 'g SnakeServer \<Rightarrow> server_error + (bool \<times> 'g SnakeServer)" where
  "move_phase env st =
     (let (stateChanged, s) = st in
      rbind (updateSnakes s) (\<lambda>(moved, s).
        if moved then
          rbind (checkCollisions env s) (\<lambda>s. Inr (True, placeSpeedBoost env s))
        else Inr (stateChanged, s)))"

definition after_food :: "'g env \<Rightarrow> (int \<Rightarrow> bytes \<Rightarrow> int) \<Rightarrow> MessageVariant list \<Rightarrow> 'g SnakeServer \<Rightarrow> server_error + 'g SnakeServer" where
  "after_food env snd_res messages s =
     rbind (rfold (dispatch env snd_res) messages (False, s)) (\<lambda>st.
     rbind (move_phase env st) (\<lambda>(stateChanged, s).
       if stateChanged then broadcastGameState env snd_res s else Inr s))"

text \<open>
  One pass: \<open>None\<close> if \<open>replaceFood\<close> does not return; the flag says whether the loop goes on.
\<close>

definition run_pass :: "'g env \<Rightarrow> tick_input \<Rightarrow> 'g SnakeServer \<Rightarrow> (server_error + (bool \<times> 'g SnakeServer)) option" where
  "run_pass env inp s =
     (case pollMessages env inp s of
        Inl e \<Rightarrow> Some (Inl e)
      | Inr (None, s) \<Rightarrow> Some (Inr (False, s))
      | Inr (Some messages, s) \<Rightarrow>
          Option.bind (replaceFood env s) (\<lambda>s.
            Some (rbind (after_food env (send_result inp) messages s) (\<lambda>s. Inr (True, s)))))"

text \<open>The loop over the passes the environment allows.\<close>

primrec run_loop :: "'g env \<Rightarrow> tick_input list \<Rightarrow> 'g SnakeServer \<Rightarrow> (server_error + 'g SnakeServer) option" where
  "run_loop env [] s = Some (Inr s)"
| "run_loop env (inp # inps) s =
     Option.bind (run_pass env inp s) (\<lambda>res.
       case res of
         Inl e \<Rightarrow> Some (Inl e)
       | Inr (go_on, s) \<Rightarrow> if go_on then run_loop env inps s else Some (Inr s))"

definition run_server :: "'g env \<Rightarrow> tick_input list \<Rightarrow> 'g SnakeServer \<Rightarrow> (server_error + 'g SnakeServer) option" where
  "run_server env inps s =
     (case recordServerConfig s of Inl e \<Rightarrow> Some (Inl e) | Inr s \<Rightarrow> run_loop env inps s)"

end
