(* ===== verification/Engine_Invariant.thy ===== *)
theory Engine_Invariant
  imports SnakeServer
begin

text \<open>
  The invariant of the game engine and the operations that keep it one by one: well-formed
  containers, every coordinate that a snake can ever show inside the arena, food where its key
  says, a score that counts the segments, names that fit their array. \<open>engine_inv\<close> holds
  between the phases of a pass; after \<open>updateSnakes\<close> heads may be one step outside
  (\<open>engine_moving\<close>), which \<open>checkCollisions\<close> repairs.
\<close>

section \<open>The invariant\<close>

definition arena :: "'g SnakeServer \<Rightarrow> cell set" where
  "arena s = {c. 1 \<le> fst c \<and> fst c \<le> width s \<and> 1 \<le> snd c \<and> snd c \<le> height s}"

lemma in_arena [simp]:
  "(x, y) \<in> arena s \<longleftrightarrow> 1 \<le> x \<and> x \<le> width s \<and> 1 \<le> y \<and> y \<le> height s"
  by (simp add: arena_def)

definition is_direction :: "byte \<Rightarrow> bool" where
  "is_direction d \<longleftrightarrow>
     d = PLAYER_KEY_UP \<or> d = PLAYER_KEY_DOWN \<or> d = PLAYER_KEY_LEFT \<or> d = PLAYER_KEY_RIGHT"

definition short_name :: "bytes \<Rightarrow> bool" where
  "short_name nm \<longleftrightarrow> length nm \<le> 15 \<and> 0 \<notin> set nm"

definition player_wf :: "Player \<Rightarrow> bool" where
  "player_wf p \<longleftrightarrow>
     is_direction (direction p) \<and> is_direction (nextDirection p) \<and> connected (head p) \<and>
     score p = int (length (segs (head p))) \<and> short_name (name p)"

text \<open>
  \<open>settled\<close>: all positions of the snake, the remembered ones included, are in the arena.
  \<open>moving\<close>: the same but for the head, which has just made a step.
\<close>

definition settled :: "cell set \<Rightarrow> Player \<Rightarrow> bool" where
  "settled A p \<longleftrightarrow> positions (head p) \<subseteq> A"

definition moving :: "cell set \<Rightarrow> Player \<Rightarrow> bool" where
  "moving A p \<longleftrightarrow> positions (head p) \<subseteq> insert (head_cell p) A \<and> set (tl (segs (head p))) \<subseteq> A"

definition engine_wf :: "'g SnakeServer \<Rightarrow> bool" where
  "engine_wf s \<longleftrightarrow>
     12 \<le> width s \<and> 12 \<le> height s \<and>
     length (occupiedCellsBodies s) = nat (width s * height s) \<and>
     um_wf (clientIdToPlayerMap s) \<and> um_wf (foodMap s) \<and> um_wf (speedBoostMap s) \<and>
     (\<forall>cid p. um_at (clientIdToPlayerMap s) cid = Some p \<longrightarrow> player_wf p) \<and>
     (\<forall>c f. um_at (foodMap s) c = Some f \<longrightarrow> c \<in> arena s \<and> (f_x f, f_y f) = c) \<and>
     (\<forall>c b. um_at (speedBoostMap s) c = Some b \<longrightarrow> c \<in> arena s \<and> (sb_x b, sb_y b) = c) \<and>
     length (speedBoostMap s) \<le> 1 \<and>
     short_name (fst (serverHighScore s))"

definition engine_inv :: "'g SnakeServer \<Rightarrow> bool" where
  "engine_inv s \<longleftrightarrow> engine_wf s \<and>
     (\<forall>cid p. um_at (clientIdToPlayerMap s) cid = Some p \<longrightarrow> settled (arena s) p)"

definition engine_moving :: "'g SnakeServer \<Rightarrow> bool" where
  "engine_moving s \<longleftrightarrow> engine_wf s \<and>
     (\<forall>cid p. um_at (clientIdToPlayerMap s) cid = Some p \<longrightarrow> moving (arena s) p)"

lemma engine_wfD:
  assumes "engine_wf s"
  shows "um_wf (clientIdToPlayerMap s)" "um_wf (foodMap s)" "um_wf (speedBoostMap s)"
    "12 \<le> width s" "12 \<le> height s"
    "length (occupiedCellsBodies s) = nat (width s * height s)"
  using assms by (simp_all add: engine_wf_def)

lemma engine_invD: "engine_inv s \<Longrightarrow> engine_wf s"
  by (simp add: engine_inv_def)

lemma engine_movingD: "engine_moving s \<Longrightarrow> engine_wf s"
  by (simp add: engine_moving_def)

section \<open>Positions of a snake\<close>

lemma head_cell_positions: "head_cell p \<in> positions (head p)"
  unfolding head_cell_def by (cases "head p" rule: positions.cases) auto

lemma settled_moving: "settled A p \<Longrightarrow> moving A p"
  using segs_positions [of "head p"] set_tl_subset [of "segs (head p)"]
  by (auto simp: settled_def moving_def)

lemma moving_settled: "moving A p \<Longrightarrow> head_cell p \<in> A \<Longrightarrow> settled A p"
  by (auto simp: settled_def moving_def)

lemma moving_step:
  assumes "settled A p" and "head p' = moveTo x y (head p)"
  shows "moving A p'"
  using assms positions_moveTo [of x y "head p"] positions_moveTo_old [of x y "head p"]
  by (auto simp: settled_def moving_def head_cell_def)

lemma settled_grow: "settled A p \<Longrightarrow> settled A (p\<lparr>head := grow (head p), score := n\<rparr>)"
  by (simp add: settled_def positions_grow)

lemma settled_segs: "settled A p \<Longrightarrow> set (segs (head p)) \<subseteq> A"
  using segs_positions [of "head p"] by (auto simp: settled_def)

section \<open>Operations on single players\<close>

lemma player_wf_steer: "player_wf p \<Longrightarrow> player_wf (steer k p)"
  by (auto simp: player_wf_def steer_def is_direction_def)

lemma head_steer [simp]: "head (steer k p) = head p"
  by (simp add: steer_def)

lemma settled_steer [simp]: "settled A (steer k p) = settled A p"
  by (simp add: settled_def)

lemma player_wf_grow:
  "player_wf p \<Longrightarrow> player_wf (p\<lparr>head := grow (head p), score := score p + 1\<rparr>)"
  by (simp add: player_wf_def connected_grow)

lemma direction_step_ok:
  assumes "is_direction d"
  obtains dx dy where "direction_step d = Inr (dx, dy)" and "\<bar>dx\<bar> + \<bar>dy\<bar> = 1"
  using assms by (auto simp: is_direction_def direction_step_def key_defs)

lemma touching_step: "\<bar>dx\<bar> + \<bar>dy\<bar> = (1::int) \<Longrightarrow> touching (x + dx, y + dy) (x, y)"
  by (simp add: touching_def)

lemma player_wf_move:
  assumes "player_wf p" and "direction_step (nextDirection p) = Inr (dx, dy)"
  shows "player_wf (p\<lparr>direction := nextDirection p, head := move dx dy (head p), nextMoveTime := t\<rparr>)"
proof -
  from assms(1) have "is_direction (nextDirection p)" by (simp add: player_wf_def)
  with assms(2) have "\<bar>dx\<bar> + \<bar>dy\<bar> = 1" by (elim direction_step_ok) simp
  with assms(1) show ?thesis
    by (simp add: player_wf_def move_def connected_moveTo touching_step)
qed

section \<open>Joining, leaving, steering\<close>

lemma c_string_short: "length arr = 16 \<Longrightarrow> c_string arr = Inr nm \<Longrightarrow> short_name nm"
proof -
  assume len: "length arr = 16" and "c_string arr = Inr nm"
  then have "0 \<in> set arr" and nm: "nm = takeWhile (\<lambda>c. c \<noteq> 0) arr"
    by (auto simp: c_string_def split: if_splits)
  then have "nm \<noteq> arr" by (auto dest: set_takeWhileD)
  with nm have "length nm < length arr"
    by (metis length_takeWhile_le order_le_neq_trans takeWhile_eq_take take_all_iff linorder_not_less)
  with len nm show "short_name nm" by (auto simp: short_name_def dest: set_takeWhileD)
qed

lemma arena_update [simp]:
  "arena (s\<lparr>clientIdToPlayerMap := m\<rparr>) = arena s" "arena (s\<lparr>gen := g\<rparr>) = arena s"
  "arena (s\<lparr>foodMap := fm\<rparr>) = arena s" "arena (s\<lparr>speedBoostMap := bm\<rparr>) = arena s"
  "arena (s\<lparr>occupiedCellsBodies := oc\<rparr>) = arena s" "arena (s\<lparr>serverHighScore := hs\<rparr>) = arena s"
  "arena (s\<lparr>network := nw\<rparr>) = arena s" "arena (s\<lparr>timer := tm\<rparr>) = arena s"
  "arena (s\<lparr>msgLog := lg\<rparr>) = arena s" "arena (s\<lparr>currentSequence := sq\<rparr>) = arena s"
  "arena (s\<lparr>replayFile := rf\<rparr>) = arena s"
  by (simp_all add: arena_def)

text \<open>Fields the invariant does not look at.\<close>

lemma engine_wf_frame [simp]:
  "engine_wf (s\<lparr>gen := g\<rparr>) = engine_wf s" "engine_wf (s\<lparr>network := nw\<rparr>) = engine_wf s"
  "engine_wf (s\<lparr>timer := tm\<rparr>) = engine_wf s" "engine_wf (s\<lparr>msgLog := lg\<rparr>) = engine_wf s"
  "engine_wf (s\<lparr>currentSequence := sq\<rparr>) = engine_wf s" "engine_wf (s\<lparr>replayFile := rf\<rparr>) = engine_wf s"
  by (simp_all add: engine_wf_def)

lemma engine_inv_frame [simp]:
  "engine_inv (s\<lparr>gen := g\<rparr>) = engine_inv s" "engine_inv (s\<lparr>network := nw\<rparr>) = engine_inv s"
  "engine_inv (s\<lparr>timer := tm\<rparr>) = engine_inv s" "engine_inv (s\<lparr>msgLog := lg\<rparr>) = engine_inv s"
  "engine_inv (s\<lparr>currentSequence := sq\<rparr>) = engine_inv s" "engine_inv (s\<lparr>replayFile := rf\<rparr>) = engine_inv s"
  by (simp_all add: engine_inv_def)

text \<open>A change of the player map keeps the invariant if it keeps that of the players.\<close>

lemma engine_inv_players:
  assumes "engine_inv s" and "um_wf m"
    and "\<And>cid p. um_at m cid = Some p \<Longrightarrow> player_wf p \<and> settled (arena s) p"
  shows "engine_inv (s\<lparr>clientIdToPlayerMap := m\<rparr>)"
  using assms by (simp add: engine_inv_def engine_wf_def)

lemma engine_inv_player_at:
  "engine_inv s \<Longrightarrow> um_at (clientIdToPlayerMap s) cid = Some p \<Longrightarrow> player_wf p \<and> settled (arena s) p"
  by (auto simp: engine_inv_def engine_wf_def)

lemma createNewPlayer_inv:
  assumes "engine_inv s" and "length (cj_username msg) = 16" and "createNewPlayer env msg s = Inr s'"
  shows "engine_inv s'"
proof -
  let ?x = "fst (draw (rng env) (1 + 5) (width s - 1 - 5) (gen s))"
  let ?g = "snd (draw (rng env) (1 + 5) (width s - 1 - 5) (gen s))"
  let ?y = "fst (draw (rng env) (1 + 5) (height s - 1 - 5) ?g)"
  from assms(3) obtain nm where nm: "c_string (cj_username msg) = Inr nm" and
    s': "s' = s\<lparr>gen := snd (draw (rng env) (1 + 5) (height s - 1 - 5) ?g), clientIdToPlayerMap :=
        um_emplace (player_ord env) (client_of (cj_hdr msg))
          (new_player s (client_of (cj_hdr msg)) ?x ?y nm) (clientIdToPlayerMap s)\<rparr>"
    by (auto simp: createNewPlayer_def rbind_eq_Inr Let_def split_beta)
  define p where "p = new_player s (client_of (cj_hdr msg)) ?x ?y nm"
  define g2 where "g2 = snd (draw (rng env) (1 + 5) (height s - 1 - 5) ?g)"
  have p: "head p = new_node ?x ?y" "is_direction (direction p)" "is_direction (nextDirection p)"
      "score p = 1" "name p = nm"
    by (simp_all add: p_def new_player_def is_direction_def)
  from assms(1) have wh: "12 \<le> width s" "12 \<le> height s" and wf: "um_wf (clientIdToPlayerMap s)"
    by (auto simp: engine_inv_def engine_wf_def)
  have "(?x, ?y) \<in> arena s"
    using wh draw_range [of "1 + 5" "width s - 1 - 5" "rng env" "gen s"]
      draw_range [of "1 + 5" "height s - 1 - 5" "rng env" ?g] by auto
  then have "settled (arena s) p" by (simp add: settled_def p(1) positions_new_node)
  moreover have "player_wf p"
    using p c_string_short [OF assms(2) nm] by (simp add: player_wf_def connected_new_node)
  ultimately have "engine_inv ((s\<lparr>gen := g2\<rparr>)\<lparr>clientIdToPlayerMap :=
        um_emplace (player_ord env) (client_of (cj_hdr msg)) p (clientIdToPlayerMap s)\<rparr>)"
    using assms(1) wf engine_inv_player_at [OF assms(1)]
    by (intro engine_inv_players) (auto simp: um_wf_emplace um_simps split: if_splits)
  then show ?thesis by (simp add: s' p_def g2_def)
qed

lemma handleClientDisconnect_inv:
  assumes "engine_inv s" shows "engine_inv (handleClientDisconnect msg s)"
proof -
  have "engine_inv (s\<lparr>clientIdToPlayerMap := um_erase cid (clientIdToPlayerMap s)\<rparr>)" for cid
    using assms engine_inv_player_at [OF assms]
    by (intro engine_inv_players)
      (auto simp: um_simps um.wf_erase engine_inv_def engine_wf_def split: if_splits)
  with assms show ?thesis by (simp add: handleClientDisconnect_def Let_def)
qed

lemma modify_player_inv:
  assumes "engine_inv s"
    and "\<And>p. um_at (clientIdToPlayerMap s) cid = Some p \<Longrightarrow> player_wf p \<Longrightarrow> settled (arena s) p \<Longrightarrow>
           player_wf (f p) \<and> settled (arena s) (f p)"
  shows "engine_inv (modify_player cid f s)"
  unfolding modify_player_def
  using assms engine_inv_player_at [OF assms(1)]
  by (intro engine_inv_players)
    (auto simp: um_simps um.wf_modify engine_inv_def engine_wf_def split: if_splits)

lemma handleClientInput_inv:
  assumes "engine_inv s" shows "engine_inv (handleClientInput msg s)"
proof -
  have "engine_inv (modify_player cid (steer k) s)" for cid k
    using assms by (rule modify_player_inv) (simp_all add: player_wf_steer)
  with assms show ?thesis by (simp add: handleClientInput_def Let_def modify_player_def)
qed

section \<open>Food and boosts\<close>

lemma engine_inv_foodMap:
  assumes "engine_inv s" and "um_wf m" and "\<And>c f. um_at m c = Some f \<Longrightarrow> c \<in> arena s \<and> (f_x f, f_y f) = c"
  shows "engine_inv (s\<lparr>foodMap := m\<rparr>)"
  using assms by (simp add: engine_inv_def engine_wf_def)

lemma engine_inv_boostMap:
  assumes "engine_inv s" and "um_wf m" and "length m \<le> 1"
    and "\<And>c b. um_at m c = Some b \<Longrightarrow> c \<in> arena s \<and> (sb_x b, sb_y b) = c"
  shows "engine_inv (s\<lparr>speedBoostMap := m\<rparr>)"
  using assms by (simp add: engine_inv_def engine_wf_def)

lemma food_at_arena:
  "engine_wf s \<Longrightarrow> um_at (foodMap s) c = Some f \<Longrightarrow> c \<in> arena s \<and> (f_x f, f_y f) = c"
  unfolding engine_wf_def by blast

lemma boost_at_arena:
  "engine_wf s \<Longrightarrow> um_at (speedBoostMap s) c = Some b \<Longrightarrow> c \<in> arena s \<and> (sb_x b, sb_y b) = c"
  unfolding engine_wf_def by blast

lemma placeFoodAt_inv:
  assumes "engine_inv s" and "(x, y) \<in> arena s"
  shows "engine_inv (placeFoodAt env x y col s)"
  unfolding placeFoodAt_def
  using assms food_at_arena [OF engine_invD [OF assms(1)]]
  by (intro engine_inv_foodMap)
    (auto simp: um_simps um_wf_set engine_wfD [OF engine_invD [OF assms(1)]] split: if_splits)

lemma placeFood_eq:
  assumes "engine_wf s"
  obtains x y g where "placeFood env s = placeFoodAt env x y Color_WHITE (s\<lparr>gen := g\<rparr>)"
    and "1 \<le> x" "x \<le> width s - 1" "1 \<le> y" "y \<le> height s - 1"
proof -
  let ?X = "\<lambda>g. draw (rng env) 1 (width s - 1) g" and ?Y = "\<lambda>g. draw (rng env) 1 (height s - 1) g"
  have range: "1 \<le> fst (?X g) \<and> fst (?X g) \<le> width s - 1" "1 \<le> fst (?Y g) \<and> fst (?Y g) \<le> height s - 1" for g
    by (rule draw_range, use engine_wfD(4,5) [OF assms] in simp)+
  have "placeFood env s = (if x_first env
      then placeFoodAt env (fst (?X (gen s))) (fst (?Y (snd (?X (gen s))))) Color_WHITE (s\<lparr>gen := snd (?Y (snd (?X (gen s))))\<rparr>)
      else placeFoodAt env (fst (?X (snd (?Y (gen s))))) (fst (?Y (gen s))) Color_WHITE (s\<lparr>gen := snd (?X (snd (?Y (gen s))))\<rparr>))"
    by (simp add: placeFood_def Let_def split: prod.splits)
  with range that show thesis by metis
qed

lemma placeFood_inv: "engine_inv s \<Longrightarrow> engine_inv (placeFood env s)"
proof -
  assume inv: "engine_inv s"
  obtain x y g where eq: "placeFood env s = placeFoodAt env x y Color_WHITE (s\<lparr>gen := g\<rparr>)"
    and "1 \<le> x" "x \<le> width s - 1" "1 \<le> y" "y \<le> height s - 1"
    using placeFood_eq [OF engine_invD [OF inv]] by metis
  with inv show ?thesis unfolding eq by (intro placeFoodAt_inv) simp_all
qed

lemma placeSpeedBoost_inv:
  assumes "engine_inv s" shows "engine_inv (placeSpeedBoost env s)"
proof -
  let ?d0 = "draw (rng env) 1 SPEED_BOOST_PROBABILITY (gen s)"
  let ?d1 = "draw (rng env) 1 (width s - 1) (snd ?d0)"
  let ?d2 = "draw (rng env) 1 (height s - 1) (snd ?d1)"
  let ?b = "\<lparr>sb_x = fst ?d1, sb_y = fst ?d2, sb_icon = ICON_BOOST, sb_color = Color_WHITE\<rparr>"
  let ?s = "s\<lparr>gen := snd ?d2, speedBoostMap := um_set (cell_ord env) (fst ?d1, fst ?d2) ?b (speedBoostMap s)\<rparr>"
  have d1: "1 \<le> fst ?d1 \<and> fst ?d1 \<le> width s - 1"
    by (rule draw_range) (use engine_wfD(4) [OF engine_invD [OF assms]] in simp)
  have d2: "1 \<le> fst ?d2 \<and> fst ?d2 \<le> height s - 1"
    by (rule draw_range) (use engine_wfD(5) [OF engine_invD [OF assms]] in simp)
  have "engine_inv ((s\<lparr>gen := snd ?d2\<rparr>)\<lparr>speedBoostMap :=
      um_set (cell_ord env) (fst ?d1, fst ?d2) ?b (speedBoostMap s)\<rparr>)" if "speedBoostMap s = []"
    using assms d1 d2 that
    by (intro engine_inv_boostMap)
      (auto simp: um_at_set um_wf_set length_um_set split: if_splits)
  then have "speedBoostMap s = [] \<Longrightarrow> engine_inv ?s" by simp
  with assms show ?thesis
    by (cases "speedBoostMap s = []") (simp_all add: placeSpeedBoost_def Let_def split_beta)
qed

end
