(* ===== verification/Engine_Update.thy ===== *)
theory Engine_Update
  imports Engine_Invariant
begin

text \<open>
  \<open>updateSnakes\<close>: what the loop over the players, with its lookups that may throw and its
  counters, computes. Every snake that is due makes one step, no index is out of range, and the
  counters of the cells are the numbers of body segments on them.
\<close>

section \<open>Entries of the player map\<close>

text \<open>The loop modifies the entry it is at; the entries before and after stay.\<close>

lemma um_modify_append:
  assumes "distinct (um_keys (xs @ (k, v) # ys))"
  shows "um_modify k f (xs @ (k, v) # ys) = xs @ (k, f v) # ys"
proof -
  have "um_modify k f zs = zs" if "k \<notin> set (um_keys zs)" for zs
    using that by (induction zs) (auto simp: um_modify_def um_keys_def)
  then show ?thesis using assms by (simp add: um_modify_def um_keys_def)
qed

lemma um_at_append:
  "distinct (um_keys (xs @ (k, v) # ys)) \<Longrightarrow> um_at (xs @ (k, v) # ys) k = Some v"
  by (auto simp: um_at_def um_keys_def map_add_def split: option.splits dest: map_of_SomeD)
    (metis image_eqI fst_conv map_of_SomeD)

lemma um_modify_modify: "um_modify k f (um_modify k g m) = um_modify k (f \<circ> g) m"
  by (induction m) (auto simp: um_modify_def)

lemma um_at_in_set: "um_wf m \<Longrightarrow> um_at m k = Some v \<longleftrightarrow> (k, v) \<in> set m"
  by (auto simp: um_at_def um_wf_def um_keys_def dest: map_of_SomeD)

lemma um_modify_at_cong:
  "um_wf m \<Longrightarrow> um_at m k = Some v \<Longrightarrow> f v = g v \<Longrightarrow> um_modify k f m = um_modify k g m"
proof -
  assume wf: "um_wf m" and at: "um_at m k = Some v" and eq: "f v = g v"
  have "w = v" if "(k, w) \<in> set m" for w using that wf at um_at_in_set [of m k w] by simp
  then show ?thesis using eq by (auto simp: um_modify_def)
qed

lemma modify_player_modify: "modify_player cid f (modify_player cid g s) = modify_player cid (f \<circ> g) s"
  by (simp add: modify_player_def um_modify_modify)

lemma modify_player_cong:
  "um_wf (clientIdToPlayerMap s) \<Longrightarrow> um_at (clientIdToPlayerMap s) cid = Some p \<Longrightarrow> f p = g p \<Longrightarrow>
     modify_player cid f s = modify_player cid g s"
  using um_modify_at_cong [of "clientIdToPlayerMap s" cid p f g] by (simp add: modify_player_def)

lemma player_at_modify:
  "um_at (clientIdToPlayerMap s) cid = Some p \<Longrightarrow> player_at cid (modify_player cid f s) = Inr (f p)"
  by (simp add: player_at_def modify_player_def um_at_modify)

lemma modify_player_sel [simp]:
  "timer (modify_player cid f s) = timer s" "width (modify_player cid f s) = width s"
  "height (modify_player cid f s) = height s"
  "occupiedCellsBodies (modify_player cid f s) = occupiedCellsBodies s"
  "foodMap (modify_player cid f s) = foodMap s" "speedBoostMap (modify_player cid f s) = speedBoostMap s"
  "movementFrequencyMs (modify_player cid f s) = movementFrequencyMs s"
  "serverHighScore (modify_player cid f s) = serverHighScore s"
  "clientIdToPlayerMap (modify_player cid f s) = um_modify cid f (clientIdToPlayerMap s)"
  by (simp_all add: modify_player_def)

section \<open>Cells and counters\<close>

lemma cell_index_range:
  assumes "c \<in> arena s"
  shows "0 \<le> cell_index s c" "cell_index s c < width s * height s"
proof -
  obtain x y where c: "c = (x, y)" by (cases c)
  with assms have xy: "1 \<le> x" "x \<le> width s" "1 \<le> y" "y \<le> height s" by simp_all
  then have "0 \<le> (y - 1) * width s" by (intro mult_nonneg_nonneg) simp_all
  with xy(1) show "0 \<le> cell_index s c" unfolding cell_index_def c by simp
  have "(y - 1) * width s \<le> (height s - 1) * width s" using xy by (intro mult_right_mono) simp_all
  also have "\<dots> = width s * height s - width s" by (simp add: algebra_simps)
  finally show "cell_index s c < width s * height s" using xy by (simp add: cell_index_def c)
qed

lemma cell_index_inj:
  assumes "c \<in> arena s" and "d \<in> arena s" and "cell_index s c = cell_index s d"
  shows "c = d"
proof -
  have split: "snd e - 1 = cell_index s e div width s \<and> fst e - 1 = cell_index s e mod width s"
    if "e \<in> arena s" for e
  proof -
    obtain x y where e: "e = (x, y)" by (cases e)
    with that have "0 \<le> x - 1" "x - 1 < width s" by simp_all
    then have "((y - 1) * width s + (x - 1)) div width s = y - 1 \<and>
        ((y - 1) * width s + (x - 1)) mod width s = x - 1"
      by (simp add: div_pos_pos_trivial mod_pos_pos_trivial)
    then show ?thesis by (simp add: e cell_index_def add_diff_eq)
  qed
  from split [OF assms(1)] split [OF assms(2)] assms(3) show ?thesis by (simp add: prod_eq_iff)
qed

text \<open>Counting one more segment on a cell.\<close>

definition bump :: "'g SnakeServer \<Rightarrow> cell \<Rightarrow> u16 list \<Rightarrow> u16 list" where
  "bump s c oc = oc[nat (cell_index s c) := oc ! nat (cell_index s c) + 1]"

lemma length_fold_bump [simp]: "length (fold (bump s) cs oc) = length oc"
  by (induction cs arbitrary: oc) (simp_all add: bump_def)

lemma bump_frame [simp]:
  "bump (s\<lparr>occupiedCellsBodies := oc\<rparr>) = bump s" "bump (s\<lparr>clientIdToPlayerMap := m\<rparr>) = bump s"
  "bump (modify_player cid f s) = bump s"
  by (simp_all add: bump_def cell_index_def fun_eq_iff)

lemma fold_bump_nth:
  assumes "c \<in> arena s" and "set cs \<subseteq> arena s" and "length oc = nat (width s * height s)"
  shows "fold (bump s) cs oc ! nat (cell_index s c) =
     oc ! nat (cell_index s c) + of_nat (count_list cs c)"
  using assms(2,3)
proof (induction cs arbitrary: oc)
  case Nil
  then show ?case by simp
next
  case (Cons d cs)
  then have d: "d \<in> arena s" by simp
  have lt: "nat (cell_index s c) < length oc"
    using cell_index_range [OF assms(1)] Cons.prems(2) by (simp add: nat_less_eq_zless)
  have "nat (cell_index s c) = nat (cell_index s d) \<longleftrightarrow> c = d"
    using cell_index_range(1) [OF assms(1)] cell_index_range(1) [OF d]
      cell_index_inj [OF assms(1) d] by auto
  with lt have "bump s d oc ! nat (cell_index s c) = oc ! nat (cell_index s c) + of_nat (if c = d then 1 else 0)"
    by (auto simp: bump_def nth_list_update)
  with Cons.IH [of "bump s d oc"] Cons.prems show ?case by (simp add: bump_def)
qed

lemma occupied_at_arena:
  assumes "c \<in> arena s" and "length (occupiedCellsBodies s) = nat (width s * height s)"
  shows "occupied_at s c = Inr (occupiedCellsBodies s ! nat (cell_index s c))"
  using cell_index_range [OF assms(1)] assms(2) by (simp add: occupied_at_def Let_def)

lemma occupy_cells:
  assumes "set cs \<subseteq> arena s" and "length (occupiedCellsBodies s) = nat (width s * height s)"
  shows "rfold occupy_cell cs s = Inr (s\<lparr>occupiedCellsBodies := fold (bump s) cs (occupiedCellsBodies s)\<rparr>)"
  using assms
proof (induction cs arbitrary: s)
  case Nil
  then show ?case by simp
next
  case (Cons c cs)
  let ?s = "s\<lparr>occupiedCellsBodies := bump s c (occupiedCellsBodies s)\<rparr>"
  from Cons.prems have "occupy_cell c s = Inr ?s"
    by (simp add: occupy_cell_def occupied_at_arena bump_def)
  moreover from Cons.prems have "rfold occupy_cell cs ?s =
      Inr (?s\<lparr>occupiedCellsBodies := fold (bump ?s) cs (occupiedCellsBodies ?s)\<rparr>)"
    by (intro Cons.IH) (simp_all add: bump_def)
  ultimately show ?case by simp
qed

section \<open>One snake\<close>

text \<open>The step of a direction as a vector, and what a pass does to one player.\<close>

definition vector :: "byte \<Rightarrow> int \<times> int" where
  "vector d = (if d = PLAYER_KEY_UP then (0, -1) else if d = PLAYER_KEY_DOWN then (0, 1)
     else if d = PLAYER_KEY_LEFT then (-1, 0) else (1, 0))"

lemma direction_step_vector: "is_direction d \<Longrightarrow> direction_step d = Inr (vector d)"
  by (auto simp: is_direction_def direction_step_def vector_def key_defs)

definition due :: "'g SnakeServer \<Rightarrow> Player \<Rightarrow> bool" where
  "due s p \<longleftrightarrow> nextMoveTime p \<le> currentTick (timer s)"

definition expire :: "'g SnakeServer \<Rightarrow> Player \<Rightarrow> Player" where
  "expire s p = (if boosted p \<and> boostExpireTime p \<le> currentTick (timer s)
     then p\<lparr>boosted := False, p_movementFrequencyMs := movementFrequencyMs s\<rparr> else p)"

definition step_player :: "'g SnakeServer \<Rightarrow> Player \<Rightarrow> Player" where
  "step_player s p =
     (let p = expire s p; (dx, dy) = vector (nextDirection p) in
      if due s p
      then p\<lparr>direction := nextDirection p, head := move dx dy (head p),
             nextMoveTime := currentTick (timer s) + ms_to_ns (p_movementFrequencyMs p)\<rparr>
      else p)"

lemma expire_sel [simp]:
  "head (expire s p) = head p" "nextMoveTime (expire s p) = nextMoveTime p"
  "nextDirection (expire s p) = nextDirection p" "direction (expire s p) = direction p"
  "score (expire s p) = score p" "name (expire s p) = name p"
  "due s (expire s p) = due s p"
  by (simp_all add: expire_def due_def)

lemma player_wf_expire [simp]: "player_wf (expire s p) = player_wf p"
  by (simp add: player_wf_def)

lemma step_player_wf: "player_wf p \<Longrightarrow> player_wf (step_player s p)"
proof -
  assume p: "player_wf p"
  obtain dx dy where v: "vector (nextDirection p) = (dx, dy)" by (cases "vector (nextDirection p)")
  from p have "direction_step (nextDirection (expire s p)) = Inr (dx, dy)"
    by (simp add: player_wf_def direction_step_vector v)
  with p player_wf_move [of "expire s p" dx dy] show ?thesis
    by (simp add: step_player_def Let_def v)
qed

lemma step_player_moving: "settled A p \<Longrightarrow> moving A (step_player s p)"
proof -
  assume p: "settled A p"
  obtain dx dy where v: "vector (nextDirection p) = (dx, dy)" by (cases "vector (nextDirection p)")
  show ?thesis
  proof (cases "due s p")
    case True
    then show ?thesis
      by (intro moving_step [OF p]) (simp add: step_player_def v move_def Let_def)
  next
    case False
    with p have "settled A (step_player s p)" by (simp add: settled_def step_player_def v Let_def)
    then show ?thesis by (rule settled_moving)
  qed
qed

lemma step_player_frame [simp]:
  "step_player (s\<lparr>occupiedCellsBodies := oc\<rparr>) = step_player s"
  "step_player (s\<lparr>clientIdToPlayerMap := m\<rparr>) = step_player s"
  "due (s\<lparr>occupiedCellsBodies := oc\<rparr>) = due s" "due (s\<lparr>clientIdToPlayerMap := m\<rparr>) = due s"
  by (simp_all add: step_player_def due_def expire_def fun_eq_iff Let_def split: prod.splits)

abbreviation body :: "Player \<Rightarrow> cell list" where
  "body p \<equiv> tl (segs (head p))"

lemma updateSnake_eq:
  assumes wf: "um_wf (clientIdToPlayerMap s)"
    and at: "um_at (clientIdToPlayerMap s) cid = Some p" and p: "player_wf p" "settled (arena s) p"
    and len: "length (occupiedCellsBodies s) = nat (width s * height s)"
  shows "updateSnake cid (b, s) = Inr (b \<or> due s p,
     (modify_player cid (step_player s) s)
       \<lparr>occupiedCellsBodies := fold (bump s) (body (step_player s p)) (occupiedCellsBodies s)\<rparr>)"
proof -
  obtain dx dy where v: "vector (nextDirection p) = (dx, dy)" by (cases "vector (nextDirection p)")
  have dir: "direction_step (nextDirection p) = Inr (dx, dy)"
    using p(1) by (simp add: player_wf_def direction_step_vector v)
  let ?mv = "\<lambda>q. q\<lparr>direction := nextDirection q, head := move dx dy (head q),
      nextMoveTime := currentTick (timer s) + ms_to_ns (p_movementFrequencyMs q)\<rparr>"
  let ?t = "modify_player cid (step_player s) s"
  have e: "expire_boost cid s = modify_player cid (expire s) s"
    by (simp add: expire_boost_def expire_def [abs_def])
  have moved: "modify_player cid ?mv (modify_player cid (expire s) s) = ?t" if "due s p"
    unfolding modify_player_modify using that v
    by (intro modify_player_cong [OF wf at]) (simp add: step_player_def Let_def)
  have unmoved: "modify_player cid (expire s) s = ?t" if "\<not> due s p"
    using that v by (intro modify_player_cong [OF wf at]) (simp add: step_player_def Let_def)
  have mv: "rbind (if currentTick (timer (expire_boost cid s)) \<ge> nextMoveTime (expire s p)
             then rbind (moveSnake cid (expire_boost cid s)) (\<lambda>s. Inr (True, s))
             else Inr (b, expire_boost cid s)) f = f (b \<or> due s p, ?t)" for f
    using at moved unmoved
    by (auto simp: e moveSnake_def player_at_modify dir due_def)
  have "set (body (step_player s p)) \<subseteq> arena ?t"
    using step_player_moving [OF p(2), of s] by (simp add: moving_def modify_player_def)
  with at len have upd: "updateOccupiedCells cid ?t = Inr (?t
       \<lparr>occupiedCellsBodies := fold (bump s) (body (step_player s p)) (occupiedCellsBodies s)\<rparr>)"
    by (simp add: player_at_modify updateOccupiedCells_def occupy_cells)
  have pl: "player_at cid (expire_boost cid s) = Inr (expire s p)"
    using at by (simp add: e player_at_modify)
  show ?thesis
    unfolding updateSnake_def Let_def prod.case pl rbind_Inr mv by (simp add: upd)
qed

section \<open>The loop\<close>

definition step_entry :: "'g SnakeServer \<Rightarrow> int \<times> Player \<Rightarrow> int \<times> Player" where
  "step_entry s e = (fst e, step_player s (snd e))"

definition bodies :: "(int, Player) umap \<Rightarrow> cell list" where
  "bodies m = concat (map (\<lambda>e. body (snd e)) m)"

lemma bodies_simps [simp]: "bodies [] = []" "bodies ((cid, p) # m) = body p @ bodies m"
  by (simp_all add: bodies_def)

lemma set_bodies: "set (bodies m) = (\<Union>(cid, p)\<in>set m. set (body p))"
  by (induction m) auto

lemma step_entry_Pair: "step_entry s (cid, p) = (cid, step_player s p)"
  by (simp add: step_entry_def)

lemma keys_step_entry [simp]: "um_keys (map (step_entry s) m) = um_keys m"
  by (simp add: um_keys_def step_entry_def comp_def)

lemma step_entry_frame [simp]:
  "step_entry (s\<lparr>occupiedCellsBodies := oc\<rparr>) = step_entry s"
  "step_entry (s\<lparr>clientIdToPlayerMap := m\<rparr>) = step_entry s"
  by (simp_all add: step_entry_def fun_eq_iff)

lemma updateSnakes_loop:
  assumes "clientIdToPlayerMap s = xs @ todo" and "um_wf (xs @ todo)"
    and "\<forall>(cid, p)\<in>set todo. player_wf p \<and> settled (arena s) p"
    and "length (occupiedCellsBodies s) = nat (width s * height s)"
  shows "rfold updateSnake (um_keys todo) (b, s) =
     Inr (b \<or> (\<exists>(cid, p)\<in>set todo. due s p),
          s\<lparr>clientIdToPlayerMap := xs @ map (step_entry s) todo,
            occupiedCellsBodies := fold (bump s) (bodies (map (step_entry s) todo)) (occupiedCellsBodies s)\<rparr>)"
  using assms
proof (induction todo arbitrary: xs b s)
  case Nil
  then show ?case by (simp add: um_keys_def)
next
  case (Cons e todo)
  obtain cid p where e: "e = (cid, p)" by (cases e)
  let ?p = "step_player s p"
  let ?s = "s\<lparr>clientIdToPlayerMap := xs @ (cid, ?p) # todo,
      occupiedCellsBodies := fold (bump s) (body ?p) (occupiedCellsBodies s)\<rparr>"
  have d: "distinct (um_keys (xs @ (cid, p) # todo))" using Cons.prems(2) by (simp add: um_wf_def e)
  have at: "um_at (clientIdToPlayerMap s) cid = Some p"
    unfolding Cons.prems(1) e by (rule um_at_append [OF d])
  have "updateSnake cid (b, s) = Inr (b \<or> due s p, (modify_player cid (step_player s) s)
       \<lparr>occupiedCellsBodies := fold (bump s) (body ?p) (occupiedCellsBodies s)\<rparr>)"
    using Cons.prems by (intro updateSnake_eq at) (simp_all add: e)
  also have "\<dots> = Inr (b \<or> due s p, ?s)"
    using Cons.prems(1) by (simp add: modify_player_def e um_modify_append [OF d])
  finally have one: "updateSnake cid (b, s) = Inr (b \<or> due s p, ?s)" .
  have "rfold updateSnake (um_keys todo) (b \<or> due s p, ?s) =
     Inr ((b \<or> due s p) \<or> (\<exists>(cid, p)\<in>set todo. due ?s p),
          ?s\<lparr>clientIdToPlayerMap := (xs @ [(cid, ?p)]) @ map (step_entry ?s) todo,
            occupiedCellsBodies := fold (bump ?s) (bodies (map (step_entry ?s) todo)) (occupiedCellsBodies ?s)\<rparr>)"
    using Cons.prems by (intro Cons.IH) (auto simp: e um_wf_def um_keys_def)
  then show ?case by (simp add: e um_keys_def [of "(cid, p) # todo"] um_keys_def [symmetric] one step_entry_Pair)
qed

text \<open>What \<open>updateSnakes\<close> returns, as one expression.\<close>

definition updated :: "'g SnakeServer \<Rightarrow> 'g SnakeServer" where
  "updated s =
     (let m = map (step_entry s) (clientIdToPlayerMap s) in
      s\<lparr>clientIdToPlayerMap := m,
        occupiedCellsBodies := fold (bump s) (bodies m) (replicate (length (occupiedCellsBodies s)) 0)\<rparr>)"

lemma engine_inv_entries:
  "engine_inv s \<Longrightarrow> (cid, p) \<in> set (clientIdToPlayerMap s) \<Longrightarrow> player_wf p \<and> settled (arena s) p"
  using engine_inv_player_at [of s cid p] um_at_in_set [of "clientIdToPlayerMap s" cid p]
  by (simp add: engine_wfD engine_invD)

lemma updateSnakes_eq:
  assumes "engine_inv s"
  shows "updateSnakes s = Inr (\<exists>(cid, p)\<in>set (clientIdToPlayerMap s). due s p, updated s)"
proof -
  let ?s = "s\<lparr>occupiedCellsBodies := replicate (length (occupiedCellsBodies s)) 0\<rparr>"
  have "rfold updateSnake (um_keys (clientIdToPlayerMap s)) (False, ?s) =
     Inr (False \<or> (\<exists>(cid, p)\<in>set (clientIdToPlayerMap s). due ?s p),
          ?s\<lparr>clientIdToPlayerMap := [] @ map (step_entry ?s) (clientIdToPlayerMap s),
            occupiedCellsBodies := fold (bump ?s) (bodies (map (step_entry ?s) (clientIdToPlayerMap s)))
              (occupiedCellsBodies ?s)\<rparr>)"
    using assms engine_inv_entries [OF assms] engine_wfD [OF engine_invD [OF assms]]
    by (intro updateSnakes_loop) auto
  then show ?thesis by (simp add: updateSnakes_def updated_def Let_def)
qed

lemma arena_updated [simp]: "arena (updated s) = arena s"
  by (simp add: updated_def Let_def)

lemma updated_entries: "clientIdToPlayerMap (updated s) = map (step_entry s) (clientIdToPlayerMap s)"
  by (simp add: updated_def Let_def)

lemma updated_moving: "engine_inv s \<Longrightarrow> engine_moving (updated s)"
proof -
  assume inv: "engine_inv s"
  have wf: "um_wf (clientIdToPlayerMap (updated s))"
    using engine_wfD(1) [OF engine_invD [OF inv]] by (simp add: updated_entries um_wf_def)
  have entry: "player_wf p \<and> moving (arena s) p"
    if at: "um_at (clientIdToPlayerMap (updated s)) cid = Some p" for cid p
  proof -
    from at wf have "(cid, p) \<in> set (map (step_entry s) (clientIdToPlayerMap s))"
      by (simp add: um_at_in_set updated_entries)
    then obtain q where "(cid, q) \<in> set (clientIdToPlayerMap s)" "p = step_player s q"
      by (auto simp: step_entry_def)
    with engine_inv_entries [OF inv] show ?thesis by (metis step_player_wf step_player_moving)
  qed
  have "engine_wf (s\<lparr>clientIdToPlayerMap := m, occupiedCellsBodies := oc\<rparr>)"
    if "um_wf m" "length oc = length (occupiedCellsBodies s)" "\<And>cid p. um_at m cid = Some p \<Longrightarrow> player_wf p"
    for m oc using engine_invD [OF inv] that by (simp add: engine_wf_def)
  with wf entry show ?thesis by (simp add: engine_moving_def updated_def Let_def)
qed

text \<open>The counter of a cell of the arena is the number of body segments there.\<close>

lemma updated_occupied:
  assumes "engine_inv s" and "c \<in> arena s"
  shows "occupied_at (updated s) c = Inr (of_nat (count_list (bodies (clientIdToPlayerMap (updated s))) c))"
proof -
  have len: "length (occupiedCellsBodies s) = nat (width s * height s)"
    using engine_wfD(6) [OF engine_invD [OF assms(1)]] .
  let ?m = "map (step_entry s) (clientIdToPlayerMap s)"
  have in_arena: "set (bodies ?m) \<subseteq> arena s"
  proof
    fix d assume "d \<in> set (bodies ?m)"
    then obtain cid p q where "(cid, q) \<in> set (clientIdToPlayerMap s)" "p = step_player s q"
      and d: "d \<in> set (body p)"
      by (auto simp: set_bodies step_entry_def)
    with engine_inv_entries [OF assms(1)] have "moving (arena s) p" by (metis step_player_moving)
    with d show "d \<in> arena s" by (auto simp: moving_def)
  qed
  have "nat (cell_index s c) < nat (width s * height s)"
    using cell_index_range [OF assms(2)] by (simp add: nat_less_eq_zless)
  with fold_bump_nth [OF assms(2) in_arena, of "replicate (nat (width s * height s)) 0"]
  have "occupiedCellsBodies (updated s) ! nat (cell_index s c) = of_nat (count_list (bodies ?m) c)"
    by (simp add: updated_def Let_def len)
  moreover have "cell_index (updated s) c = cell_index s c"
    by (simp add: cell_index_def updated_def Let_def)
  moreover have "occupied_at (updated s) c =
      Inr (occupiedCellsBodies (updated s) ! nat (cell_index (updated s) c))"
    using assms(2) len by (intro occupied_at_arena) (simp_all add: updated_def Let_def)
  ultimately show ?thesis by (simp add: updated_entries)
qed

end
