(* ===== verification/Engine_Collisions.thy ===== *)
theory Engine_Collisions
  imports Engine_Update
begin

text \<open>
  \<open>checkCollisions\<close>: who dies, who eats and who is boosted, stated on the state before the loop
  and without its order, and the proof that the loop, which changes the players, the food and
  the high score while it runs over them, computes exactly that.
\<close>

section \<open>The smallest element\<close>

lemma min_element_from:
  "min_element_from f m xs \<in> insert m (set xs) \<and> (\<forall>x\<in>insert m (set xs). f (min_element_from f m xs) \<le> f x)"
proof (induction xs arbitrary: m)
  case Nil
  then show ?case by simp
next
  case (Cons x xs)
  show ?case
    using Cons.IH [of "if f x < f m then x else m"] by (auto split: if_splits intro: order_trans)
qed

text \<open>For an injective key: an element is not the smallest iff another is smaller.\<close>

lemma not_min_element:
  assumes "x \<in> set xs" and "inj f"
  shows "x \<noteq> min_element_from f (hd xs) (tl xs) \<longleftrightarrow> (\<exists>y\<in>set xs. f y < f x)"
proof -
  let ?m = "min_element_from f (hd xs) (tl xs)"
  have xs: "insert (hd xs) (set (tl xs)) = set xs" using assms(1) by (cases xs) auto
  with min_element_from [of f "hd xs" "tl xs"] have m: "?m \<in> set xs" "\<forall>y\<in>set xs. f ?m \<le> f y" by simp_all
  show ?thesis
  proof
    assume "x \<noteq> ?m"
    then have "f ?m \<noteq> f x" using assms(2) by (auto dest: injD)
    with m assms(1) show "\<exists>y\<in>set xs. f y < f x" by (metis order_le_neq_trans)
  next
    assume "\<exists>y\<in>set xs. f y < f x"
    with m show "x \<noteq> ?m" by (metis linorder_not_less)
  qed
qed

lemma inj_arrival_of: "inj (arrival_of s)"
  by (rule injI) (simp add: arrival_of_def)

section \<open>Who dies, who eats\<close>

text \<open>
  A player dies if its head left the arena, is on a body segment (its own included), or shares
  its cell with the head of a player that arrived earlier.
\<close>

definition dies :: "'g SnakeServer \<Rightarrow> int \<times> Player \<Rightarrow> bool" where
  "dies s e \<longleftrightarrow> (let c = head_cell (snd e) in
     c \<notin> arena s \<or> c \<in> set (bodies (clientIdToPlayerMap s)) \<or>
     (\<exists>(cid', p')\<in>set (clientIdToPlayerMap s).
        head_cell p' = c \<and> Arrival (nextMoveTime p') cid' < Arrival (nextMoveTime (snd e)) (fst e)))"

definition alone :: "'g SnakeServer \<Rightarrow> cell \<Rightarrow> bool" where
  "alone s c \<longleftrightarrow> length (getPlayerHeadsInCell c s) \<le> 1"

definition eats :: "'g SnakeServer \<Rightarrow> int \<times> Player \<Rightarrow> bool" where
  "eats s e \<longleftrightarrow> (let c = head_cell (snd e) in \<not> dies s e \<and> alone s c \<and> um_contains (foodMap s) c)"

definition speeds_up :: "'g SnakeServer \<Rightarrow> int \<times> Player \<Rightarrow> bool" where
  "speeds_up s e \<longleftrightarrow> (let c = head_cell (snd e) in
     \<not> dies s e \<and> alone s c \<and> \<not> um_contains (foodMap s) c \<and> um_contains (speedBoostMap s) c)"

definition feed :: "Player \<Rightarrow> Player" where
  "feed p = p\<lparr>head := grow (head p), score := score p + 1\<rparr>"

definition boost :: "'g SnakeServer \<Rightarrow> Player \<Rightarrow> Player" where
  "boost s p = p\<lparr>boosted := True, p_movementFrequencyMs := boostedMovementFrequencyMs s,
     boostExpireTime := currentTick (timer s) + ms_to_ns (boostDurationMs s)\<rparr>"

definition outcome :: "'g SnakeServer \<Rightarrow> int \<times> Player \<Rightarrow> int \<times> Player" where
  "outcome s e = (fst e,
     if eats s e then feed (snd e) else if speeds_up s e then boost s (snd e) else snd e)"

definition take_score :: "int \<times> Player \<Rightarrow> bytes \<times> int \<Rightarrow> bytes \<times> int" where
  "take_score e hs = (if score (snd e) > snd hs then (name (snd e), score (snd e)) else hs)"

text \<open>The state after the loop has handled the entries \<open>done\<close>, the rest being \<open>todo\<close>.\<close>

definition checked :: "'g SnakeServer \<Rightarrow> (int, Player) umap \<Rightarrow> (int, Player) umap \<Rightarrow> 'g SnakeServer" where
  "checked s dn todo =
     s\<lparr>clientIdToPlayerMap := map (outcome s) dn @ todo,
       foodMap := filter (\<lambda>f. fst f \<notin> head_cell ` snd ` {e \<in> set dn. eats s e}) (foodMap s),
       speedBoostMap := filter (\<lambda>f. fst f \<notin> head_cell ` snd ` {e \<in> set dn. speeds_up s e}) (speedBoostMap s),
       serverHighScore := fold take_score (map (outcome s) dn) (serverHighScore s)\<rparr>"

lemma fst_outcome [simp]: "fst (outcome s e) = fst e"
  by (simp add: outcome_def)

lemma outcome_sel [simp]:
  "head_cell (snd (outcome s e)) = head_cell (snd e)"
  "nextMoveTime (snd (outcome s e)) = nextMoveTime (snd e)"
  "name (snd (outcome s e)) = name (snd e)"
  by (simp_all add: outcome_def feed_def boost_def head_cell_def)

lemma keys_outcome [simp]: "um_keys (map (outcome s) m) = um_keys m"
  by (simp add: um_keys_def comp_def)

lemma um_keys_append [simp]: "um_keys (xs @ ys) = um_keys xs @ um_keys ys"
  by (simp add: um_keys_def)

lemma getPlayerHeads_checked:
  "clientIdToPlayerMap s = dn @ todo \<Longrightarrow> getPlayerHeadsInCell c (checked s dn todo) = getPlayerHeadsInCell c s"
proof -
  have "map fst (filter (\<lambda>e. head_cell (snd e) = c) (map (outcome s) xs)) =
      map fst (filter (\<lambda>e. head_cell (snd e) = c) xs)" for xs
    by (induction xs) simp_all
  then show "clientIdToPlayerMap s = dn @ todo \<Longrightarrow> ?thesis"
    by (simp add: getPlayerHeadsInCell_def checked_def)
qed

lemma arrival_of_checked:
  "clientIdToPlayerMap s = dn @ todo \<Longrightarrow> arrival_of (checked s dn todo) = arrival_of s"
proof -
  have "map_option nextMoveTime (um_at (map (outcome s) xs @ ys) cid) =
      map_option nextMoveTime (um_at (xs @ ys) cid)" for xs ys cid
    by (induction xs) (auto simp: um_at_def outcome_def feed_def boost_def)
  note eq = this
  have "(case um_at (map (outcome s) xs @ ys) cid of None \<Rightarrow> 0 | Some p \<Rightarrow> nextMoveTime p) =
      (case um_at (xs @ ys) cid of None \<Rightarrow> 0 | Some p \<Rightarrow> nextMoveTime p)" for xs ys cid
    using eq [of xs ys cid] by (auto split: option.splits)
  then show "clientIdToPlayerMap s = dn @ todo \<Longrightarrow> ?thesis"
    by (simp add: arrival_of_def checked_def fun_eq_iff)
qed

lemma checked_sel [simp]:
  "width (checked s dn todo) = width s" "height (checked s dn todo) = height s"
  "arena (checked s dn todo) = arena s" "timer (checked s dn todo) = timer s"
  "occupied_at (checked s dn todo) = occupied_at s"
  "clientIdToPlayerMap (checked s dn todo) = map (outcome s) dn @ todo"
  by (simp_all add: checked_def occupied_at_def cell_index_def fun_eq_iff Let_def)

text \<open>The head-on-head rule of the code is the third case of \<open>dies\<close>.\<close>

lemma in_getPlayerHeads:
  "cid \<in> set (getPlayerHeadsInCell c s) \<longleftrightarrow> (\<exists>p. (cid, p) \<in> set (clientIdToPlayerMap s) \<and> head_cell p = c)"
  by (force simp: getPlayerHeadsInCell_def)

lemma not_first_in_cell:
  assumes wf: "um_wf (clientIdToPlayerMap s)" and e: "(cid, p) \<in> set (clientIdToPlayerMap s)"
  shows "cid \<noteq> firstPlayerInCell s (getPlayerHeadsInCell (head_cell p) s) \<longleftrightarrow>
     (\<exists>(cid', p')\<in>set (clientIdToPlayerMap s).
        head_cell p' = head_cell p \<and> Arrival (nextMoveTime p') cid' < Arrival (nextMoveTime p) cid)"
proof -
  have at: "arrival_of s i = Arrival (nextMoveTime q) i" if "(i, q) \<in> set (clientIdToPlayerMap s)" for i q
    using that um_at_in_set [OF wf, of i q] by (simp add: arrival_of_def)
  have "cid \<in> set (getPlayerHeadsInCell (head_cell p) s)" using e by (auto simp: in_getPlayerHeads)
  from not_min_element [OF this inj_arrival_of, of s]
  have "cid \<noteq> firstPlayerInCell s (getPlayerHeadsInCell (head_cell p) s) \<longleftrightarrow>
      (\<exists>i\<in>set (getPlayerHeadsInCell (head_cell p) s). arrival_of s i < arrival_of s cid)"
    by (simp add: firstPlayerInCell_def)
  also have "\<dots> \<longleftrightarrow> (\<exists>i q. (i, q) \<in> set (clientIdToPlayerMap s) \<and> head_cell q = head_cell p \<and>
      arrival_of s i < arrival_of s cid)"
    by (simp add: Bex_def in_getPlayerHeads) blast
  also have "\<dots> \<longleftrightarrow> (\<exists>i q. (i, q) \<in> set (clientIdToPlayerMap s) \<and> head_cell q = head_cell p \<and>
      Arrival (nextMoveTime q) i < Arrival (nextMoveTime p) cid)"
    by (simp only: at [OF e]) (metis at)
  also have "\<dots> \<longleftrightarrow> (\<exists>(i, q)\<in>set (clientIdToPlayerMap s). head_cell q = head_cell p \<and>
      Arrival (nextMoveTime q) i < Arrival (nextMoveTime p) cid)" by blast
  finally show ?thesis .
qed

lemma alone_first:
  assumes "um_wf (clientIdToPlayerMap s)" and e: "(cid, p) \<in> set (clientIdToPlayerMap s)"
    and "alone s (head_cell p)"
  shows "getPlayerHeadsInCell (head_cell p) s = [cid]"
proof -
  have "cid \<in> set (getPlayerHeadsInCell (head_cell p) s)" using e by (auto simp: in_getPlayerHeads)
  with assms(3) show ?thesis
    by (cases "getPlayerHeadsInCell (head_cell p) s") (auto simp: alone_def)
qed

section \<open>The loop over the players\<close>

text \<open>
  What \<open>updateSnakes\<close> leaves behind: the counters are right. They are 16 bits wide, so fewer than
  65536 body segments are assumed.
\<close>

definition counted :: "'g SnakeServer \<Rightarrow> bool" where
  "counted s \<longleftrightarrow> length (bodies (clientIdToPlayerMap s)) < 2 ^ 16 \<and>
     (\<forall>c\<in>arena s. occupied_at s c = Inr (of_nat (count_list (bodies (clientIdToPlayerMap s)) c)))"

lemma counted_occupied:
  assumes "counted s" and "c \<in> arena s"
  obtains n where "occupied_at s c = Inr n" and "0 < n \<longleftrightarrow> c \<in> set (bodies (clientIdToPlayerMap s))"
proof -
  let ?k = "count_list (bodies (clientIdToPlayerMap s)) c"
  have "?k < 2 ^ 16" using assms(1) count_le_length [of "bodies (clientIdToPlayerMap s)" c]
    by (simp add: counted_def)
  then have "(of_nat ?k :: u16) = 0 \<longleftrightarrow> ?k = 0"
    by (auto simp: word_of_nat_eq_0_iff dest: dvd_imp_le)
  then have "0 < (of_nat ?k :: u16) \<longleftrightarrow> c \<in> set (bodies (clientIdToPlayerMap s))"
    by (simp add: word_gt_0 count_list_0_iff)
  with assms that show thesis by (auto simp: counted_def)
qed

lemma um_contains_filter:
  "um_contains (filter (\<lambda>f. fst f \<notin> X) m) c \<longleftrightarrow> um_contains m c \<and> c \<notin> X"
  by (force simp: um_contains_iff um_keys_def)

lemma alone_not_done:
  assumes "clientIdToPlayerMap s = dn @ (cid, p) # todo" and "um_wf (clientIdToPlayerMap s)"
    and "alone s (head_cell p)"
  shows "head_cell p \<notin> head_cell ` snd ` {e \<in> set dn. P e}"
proof
  assume "head_cell p \<in> head_cell ` snd ` {e \<in> set dn. P e}"
  then obtain i q where iq: "(i, q) \<in> set dn" "head_cell q = head_cell p" by auto
  have "getPlayerHeadsInCell (head_cell p) s = [cid]"
    using assms by (intro alone_first) simp_all
  with iq assms(1) in_getPlayerHeads [of i "head_cell p" s] have "i = cid" by auto
  with iq assms(1,2) show False by (force simp: um_wf_def um_keys_def)
qed

lemma filter_fst_insert:
  "filter (\<lambda>f. fst f \<notin> insert c X) m = um_erase c (filter (\<lambda>f. fst f \<notin> X) m)"
  by (simp add: um_erase_def) (rule arg_cong [where f = "\<lambda>P. filter P m"], auto)

definition before_score :: "'g SnakeServer \<Rightarrow> (int, Player) umap \<Rightarrow> (int, Player) umap \<Rightarrow> (int, Player) umap \<Rightarrow> 'g SnakeServer" where
  "before_score s dn dn' todo = (checked s dn' todo)\<lparr>serverHighScore := serverHighScore (checked s dn todo)\<rparr>"

lemma before_score_same:
  assumes "\<not> eats s e" and "\<not> speeds_up s e"
  shows "before_score s dn (dn @ [e]) todo = checked s dn (e # todo)"
proof -
  have "{x \<in> set (dn @ [e]). eats s x} = {x \<in> set dn. eats s x}"
    "{x \<in> set (dn @ [e]). speeds_up s x} = {x \<in> set dn. speeds_up s x}" using assms by auto
  moreover have "outcome s e = e" using assms by (simp add: outcome_def)
  ultimately show ?thesis by (simp only: before_score_def checked_def) simp
qed

lemma cells_append:
  "P (cid, p) \<Longrightarrow> head_cell ` snd ` {x \<in> set (dn @ [(cid, p)]). P x} =
     insert (head_cell p) (head_cell ` snd ` {x \<in> set dn. P x})"
  by (force simp: image_iff)

lemma before_score_feed:
  assumes "eats s (cid, p)" and "distinct (um_keys (dn @ (cid, p) # todo))"
  shows "feedPlayer (head_cell p) cid (checked s dn ((cid, p) # todo)) =
     before_score s dn (dn @ [(cid, p)]) todo"
proof -
  have "head_cell ` snd ` {x \<in> set (dn @ [(cid, p)]). eats s x} =
      insert (head_cell p) (head_cell ` snd ` {x \<in> set dn. eats s x})"
    by (rule cells_append) (rule assms(1))
  moreover have "{x \<in> set (dn @ [(cid, p)]). speeds_up s x} = {x \<in> set dn. speeds_up s x}"
    using assms by (auto simp: eats_def speeds_up_def Let_def)
  moreover have "outcome s (cid, p) = (cid, feed p)" using assms by (simp add: outcome_def)
  moreover have "distinct (um_keys (map (outcome s) dn @ (cid, p) # todo))"
    using assms(2) by (simp add: um_keys_def comp_def)
  ultimately show ?thesis
    by (simp only: before_score_def checked_def feedPlayer_def modify_player_def filter_fst_insert)
      (simp add: um_modify_append feed_def)
qed

lemma before_score_boost:
  assumes "speeds_up s (cid, p)" and "distinct (um_keys (dn @ (cid, p) # todo))"
  shows "boostPlayer (head_cell p) cid (checked s dn ((cid, p) # todo)) =
     before_score s dn (dn @ [(cid, p)]) todo"
proof -
  have "head_cell ` snd ` {x \<in> set (dn @ [(cid, p)]). speeds_up s x} =
      insert (head_cell p) (head_cell ` snd ` {x \<in> set dn. speeds_up s x})"
    by (rule cells_append) (rule assms(1))
  moreover have not_eats: "\<not> eats s (cid, p)" using assms by (auto simp: eats_def speeds_up_def Let_def)
  then have "{x \<in> set (dn @ [(cid, p)]). eats s x} = {x \<in> set dn. eats s x}" by auto
  moreover have "outcome s (cid, p) = (cid, boost s p)" using assms not_eats by (simp add: outcome_def)
  moreover have "distinct (um_keys (map (outcome s) dn @ (cid, p) # todo))"
    using assms(2) by (simp add: um_keys_def comp_def)
  ultimately show ?thesis
    by (simp only: before_score_def checked_def boostPlayer_def modify_player_def filter_fst_insert)
      (simp add: um_modify_append boost_def)
qed

lemma track_before_score:
  assumes "distinct (um_keys (dn @ (cid, p) # todo))"
  shows "track_high_score cid (before_score s dn (dn @ [(cid, p)]) todo) = Inr (checked s (dn @ [(cid, p)]) todo)"
proof -
  have "outcome s (cid, p) = (cid, snd (outcome s (cid, p)))" by (simp add: prod_eq_iff)
  then obtain q where q: "outcome s (cid, p) = (cid, q)" by blast
  have "distinct (um_keys (map (outcome s) dn @ (cid, q) # todo))"
    using assms by (simp add: um_keys_def comp_def)
  from um_at_append [OF this]
  have "player_at cid (before_score s dn (dn @ [(cid, p)]) todo) = Inr q"
    by (simp add: player_at_def before_score_def q)
  then show ?thesis
    by (simp add: track_high_score_def before_score_def checked_def q take_score_def)
qed

text \<open>One iteration. The conditions of the code, in its order, are the cases of the definitions.\<close>

lemma check_player_eq:
  assumes m: "clientIdToPlayerMap s = dn @ (cid, p) # todo" and wf: "um_wf (clientIdToPlayerMap s)"
    and ct: "counted s"
  shows "check_player cid (destroy, checked s dn ((cid, p) # todo)) =
     Inr (destroy @ (if dies s (cid, p) then [cid] else []), checked s (dn @ [(cid, p)]) todo)"
proof -
  let ?S = "checked s dn ((cid, p) # todo)" and ?c = "head_cell p"
  let ?B = "before_score s dn (dn @ [(cid, p)]) todo"
  have d: "distinct (um_keys (dn @ (cid, p) # todo))" using wf m by (simp add: um_wf_def)
  have "distinct (um_keys (map (outcome s) dn @ (cid, p) # todo))"
    using d by (simp add: um_keys_def comp_def)
  from um_at_append [OF this] have at: "player_at cid ?S = Inr p" by (simp add: player_at_def)
  have heads: "getPlayerHeadsInCell ?c ?S = getPlayerHeadsInCell ?c s" by (rule getPlayerHeads_checked) (rule m)
  have first: "cid \<noteq> firstPlayerInCell ?S (getPlayerHeadsInCell ?c s) \<longleftrightarrow> (\<exists>(cid', p')\<in>set (clientIdToPlayerMap s).
        head_cell p' = ?c \<and> Arrival (nextMoveTime p') cid' < Arrival (nextMoveTime p) cid)"
    using not_first_in_cell [OF wf, of cid p] m
    by (simp add: firstPlayerInCell_def arrival_of_checked [OF m])
  have fd: "um_contains (foodMap ?S) ?c \<longleftrightarrow> um_contains (foodMap s) ?c"
    "um_contains (speedBoostMap ?S) ?c \<longleftrightarrow> um_contains (speedBoostMap s) ?c" if "alone s ?c"
    using alone_not_done [OF m wf that] by (simp_all add: checked_def um_contains_filter)
  have al: "\<not> (\<exists>(cid', p')\<in>set (clientIdToPlayerMap s).
        head_cell p' = ?c \<and> Arrival (nextMoveTime p') cid' < Arrival (nextMoveTime p) cid)" if "alone s ?c"
  proof -
    have e: "(cid, p) \<in> set (clientIdToPlayerMap s)" using m by simp
    from not_first_in_cell [OF wf e] alone_first [OF wf e that]
    show ?thesis by (simp add: firstPlayerInCell_def)
  qed
  have lo: "length (getPlayerHeadsInCell ?c s) > 1 \<longleftrightarrow> \<not> alone s ?c" by (simp add: alone_def not_le)
  have die: "before_score s dn (dn @ [(cid, p)]) todo = ?S" if "dies s (cid, p) \<or> \<not> alone s ?c"
    using that by (intro before_score_same) (auto simp: eats_def speeds_up_def Let_def)
  have upto: "(if snd ?c \<le> 0 then Inr (destroy @ [cid], ?S)
           else if snd ?c \<ge> height ?S + 1 then Inr (destroy @ [cid], ?S)
           else if fst ?c \<le> 0 then Inr (destroy @ [cid], ?S)
           else if fst ?c \<ge> width ?S + 1 then Inr (destroy @ [cid], ?S)
           else rbind (occupied_at ?S ?c) (\<lambda>n.
             if n > 0 then Inr (destroy @ [cid], ?S)
             else if length (getPlayerHeadsInCell ?c s) > 1 then
               if cid \<noteq> firstPlayerInCell ?S (getPlayerHeadsInCell ?c s) then Inr (destroy @ [cid], ?S)
               else Inr (destroy, ?S)
             else if um_contains (foodMap ?S) ?c then Inr (destroy, feedPlayer ?c cid ?S)
             else if um_contains (speedBoostMap ?S) ?c then Inr (destroy, boostPlayer ?c cid ?S)
             else Inr (destroy, ?S)))
       = Inr (destroy @ (if dies s (cid, p) then [cid] else []), ?B)" (is "?code = _")
  proof (cases "?c \<in> arena s")
    case False
    then have dies: "dies s (cid, p)" by (simp add: dies_def Let_def)
    from False have "?code = Inr (destroy @ [cid], ?S)" by (auto simp: arena_def)
    with dies die show ?thesis by simp
  next
    case True
    then have inside: "\<not> snd ?c \<le> 0" "\<not> height ?S + 1 \<le> snd ?c" "\<not> fst ?c \<le> 0" "\<not> width ?S + 1 \<le> fst ?c"
      by (auto simp: arena_def)
    from counted_occupied [OF ct True] obtain n where
      n: "occupied_at s ?c = Inr n" "0 < n \<longleftrightarrow> ?c \<in> set (bodies (clientIdToPlayerMap s))" by blast
    show ?thesis
    proof (cases "0 < n")
      case True
      then have "dies s (cid, p)" using n by (simp add: dies_def Let_def)
      with die inside n True show ?thesis by simp
    next
      case False
      then have dies: "dies s (cid, p) \<longleftrightarrow> (\<exists>(cid', p')\<in>set (clientIdToPlayerMap s).
        head_cell p' = ?c \<and> Arrival (nextMoveTime p') cid' < Arrival (nextMoveTime p) cid)"
        using n \<open>?c \<in> arena s\<close> by (simp add: dies_def Let_def)
      show ?thesis
      proof (cases "alone s ?c")
        case False
        with \<open>\<not> 0 < n\<close> inside n die dies first lo show ?thesis by simp
      next
        case True
        with al dies have alive: "\<not> dies s (cid, p)" by simp
        have kinds: "eats s (cid, p) \<longleftrightarrow> um_contains (foodMap s) ?c"
          "speeds_up s (cid, p) \<longleftrightarrow> \<not> um_contains (foodMap s) ?c \<and> um_contains (speedBoostMap s) ?c"
          using True alive by (simp_all add: eats_def speeds_up_def Let_def)
        have "before_score s dn (dn @ [(cid, p)]) todo = ?S"
          if "\<not> um_contains (foodMap s) ?c" "\<not> um_contains (speedBoostMap s) ?c"
          using that kinds by (intro before_score_same) simp_all
        with \<open>\<not> 0 < n\<close> inside n lo True alive fd [OF True] kinds before_score_feed [OF _ d, of s]
          before_score_boost [OF _ d, of s]
        show ?thesis by auto
      qed
    qed
  qed
  show ?thesis
    unfolding check_player_def Let_def prod.case at rbind_Inr heads upto track_before_score [OF d] ..
qed

lemma check_loop:
  assumes "clientIdToPlayerMap s = dn @ todo" and "um_wf (clientIdToPlayerMap s)" and "counted s"
  shows "rfold check_player (um_keys todo) (destroy, checked s dn todo) =
     Inr (destroy @ map fst (filter (dies s) todo), checked s (dn @ todo) [])"
  using assms(1)
proof (induction todo arbitrary: dn destroy)
  case Nil
  then show ?case by (simp add: um_keys_def)
next
  case (Cons e todo)
  obtain cid p where e: "e = (cid, p)" by (cases e)
  from Cons.prems have "clientIdToPlayerMap s = dn @ (cid, p) # todo" by (simp add: e)
  from check_player_eq [OF this assms(2,3)] Cons.IH [of "dn @ [e]"] Cons.prems
  show ?case by (simp add: e um_keys_def)
qed

section \<open>Destroying\<close>

text \<open>
  Dropping food changes the generator and adds food on the cells given; nothing else.
\<close>

definition food_grows :: "cell set \<Rightarrow> (cell, Food) umap \<Rightarrow> (cell, Food) umap \<Rightarrow> bool" where
  "food_grows cs fm fm' \<longleftrightarrow> (um_wf fm \<longrightarrow> um_wf fm') \<and>
     (\<forall>c f. um_at fm' c = Some f \<longrightarrow> um_at fm c = Some f \<or> c \<in> cs \<and> (f_x f, f_y f) = c) \<and>
     (\<forall>c. um_contains fm c \<longrightarrow> um_contains fm' c)"

definition dropped :: "cell set \<Rightarrow> 'g SnakeServer \<Rightarrow> 'g SnakeServer \<Rightarrow> bool" where
  "dropped cs s s' \<longleftrightarrow>
     (\<exists>g fm. s' = s\<lparr>gen := g, foodMap := fm\<rparr> \<and> food_grows cs (foodMap s) fm)"

lemma food_grows_refl: "food_grows cs fm fm"
  by (simp add: food_grows_def)

lemma food_grows_trans: "food_grows cs fm fm' \<Longrightarrow> food_grows cs fm' fm'' \<Longrightarrow> food_grows cs fm fm''"
  by (simp add: food_grows_def) blast

lemma food_grows_set:
  "(f_x f, f_y f) = c \<Longrightarrow> c \<in> cs \<Longrightarrow> food_grows cs fm (um_set ord c f fm)"
  by (auto simp: food_grows_def um_at_set um_wf_set um_contains_def split: if_splits)

lemma droppedI: "food_grows cs (foodMap s) fm \<Longrightarrow> dropped cs s (s\<lparr>gen := g, foodMap := fm\<rparr>)"
  unfolding dropped_def by blast

lemma dropped_refl: "dropped cs s s"
  using droppedI [OF food_grows_refl, of cs s "gen s"] by simp

lemma dropped_trans:
  assumes "dropped cs s s'" and "dropped cs s' s''" shows "dropped cs s s''"
proof -
  from assms(1) obtain g fm where 1: "s' = s\<lparr>gen := g, foodMap := fm\<rparr>" "food_grows cs (foodMap s) fm"
    unfolding dropped_def by blast
  from assms(2) obtain g' fm' where 2: "s'' = s'\<lparr>gen := g', foodMap := fm'\<rparr>" "food_grows cs (foodMap s') fm'"
    unfolding dropped_def by blast
  have "s'' = s\<lparr>gen := g', foodMap := fm'\<rparr>" by (simp add: 1 2)
  moreover have "food_grows cs (foodMap s) fm'" using 1 2 food_grows_trans by fastforce
  ultimately show ?thesis using droppedI by metis
qed

lemma drop_food_dropped:
  assumes "c \<in> cs" shows "dropped cs s (drop_food env col c s)"
proof -
  obtain n g where d: "draw (rng env) 1 FOOD_SPAWN_FROM_BODY_SEGMENT_PROBABILITY (gen s) = (n, g)"
    by (cases "draw (rng env) 1 FOOD_SPAWN_FROM_BODY_SEGMENT_PROBABILITY (gen s)")
  let ?f = "\<lparr>f_x = fst c, f_y = snd c, f_icon = ICON_FOOD, f_color = col\<rparr>"
  have "drop_food env col c s = s\<lparr>gen := g, foodMap :=
      if n = 1 then um_set (cell_ord env) c ?f (foodMap s) else foodMap s\<rparr>"
    using d by (simp add: drop_food_def placeFoodAt_def)
  moreover have "food_grows cs (foodMap s) (if n = 1 then um_set (cell_ord env) c ?f (foodMap s) else foodMap s)"
    using assms food_grows_set [of ?f c cs] by (simp add: food_grows_refl)
  ultimately show ?thesis using droppedI by metis
qed

text \<open>
  What is left of dead snakes: the cells of their bodies with their colours, in the order in which
  the code looks at them, and the dropping of food on them.
\<close>

type_synonym remains = "(cell \<times> int) list"

definition remains_of :: "(int, Player) umap \<Rightarrow> remains" where
  "remains_of es = concat (map (\<lambda>(cid, p). map (\<lambda>c. (c, color p)) (body p)) es)"

definition drop_all :: "'g env \<Rightarrow> remains \<Rightarrow> 'g SnakeServer \<Rightarrow> 'g SnakeServer" where
  "drop_all env rs = fold (\<lambda>(c, col). drop_food env col c) rs"

lemma remains_of_simps [simp]:
  "remains_of [] = []" "remains_of ((cid, p) # es) = map (\<lambda>c. (c, color p)) (body p) @ remains_of es"
  by (simp_all add: remains_of_def)

lemma drop_all_append: "drop_all env (rs @ rs') s = drop_all env rs' (drop_all env rs s)"
  by (simp add: drop_all_def)

lemma drop_all_body: "drop_all env (map (\<lambda>c. (c, col)) cs) s = fold (drop_food env col) cs s"
  by (simp add: drop_all_def fold_map comp_def)

lemma drop_food_players:
  "drop_food env col c (s\<lparr>clientIdToPlayerMap := m\<rparr>) = (drop_food env col c s)\<lparr>clientIdToPlayerMap := m\<rparr>"
  by (simp add: drop_food_def placeFoodAt_def Let_def split: prod.split)

lemma drop_all_players:
  "drop_all env rs (s\<lparr>clientIdToPlayerMap := m\<rparr>) = (drop_all env rs s)\<lparr>clientIdToPlayerMap := m\<rparr>"
  by (induction rs arbitrary: s) (auto simp: drop_all_def drop_food_players)

lemma drop_all_dropped: "fst ` set rs \<subseteq> cs \<Longrightarrow> dropped cs s (drop_all env rs s)"
proof (induction rs arbitrary: s)
  case Nil
  then show ?case by (simp add: drop_all_def dropped_refl)
next
  case (Cons r rs)
  obtain c col where r: "r = (c, col)" by (cases r)
  with Cons.prems have "dropped cs s (drop_food env col c s)" by (intro drop_food_dropped) simp
  with Cons show ?case unfolding drop_all_def r by (auto elim: dropped_trans)
qed

lemma dropped_sel:
  assumes "dropped cs s s'"
  shows "clientIdToPlayerMap s' = clientIdToPlayerMap s" "food_grows cs (foodMap s) (foodMap s')"
    "dropped cs (s\<lparr>clientIdToPlayerMap := m\<rparr>) (s'\<lparr>clientIdToPlayerMap := m\<rparr>)"
proof -
  from assms obtain g fm where 1: "s' = s\<lparr>gen := g, foodMap := fm\<rparr>" "food_grows cs (foodMap s) fm"
    unfolding dropped_def by blast
  then show "clientIdToPlayerMap s' = clientIdToPlayerMap s" "food_grows cs (foodMap s) (foodMap s')"
    by simp_all
  have "s'\<lparr>clientIdToPlayerMap := m\<rparr> = s\<lparr>clientIdToPlayerMap := m\<rparr>\<lparr>gen := g, foodMap := fm\<rparr>"
    by (simp add: 1)
  then show "dropped cs (s\<lparr>clientIdToPlayerMap := m\<rparr>) (s'\<lparr>clientIdToPlayerMap := m\<rparr>)"
    using droppedI [of cs "s\<lparr>clientIdToPlayerMap := m\<rparr>" fm g] 1(2) by simp
qed

text \<open>Destroying a list of players: food is dropped on their bodies, and they are erased.\<close>

lemma destroyPlayers_eq:
  assumes "um_wf (clientIdToPlayerMap s)" and "distinct (map fst es)"
    and "\<forall>(cid, p)\<in>set es. um_at (clientIdToPlayerMap s) cid = Some p"
  shows "destroyPlayers env (map fst es) s = Inr ((drop_all env (remains_of es) s)
     \<lparr>clientIdToPlayerMap := filter (\<lambda>e. fst e \<notin> fst ` set es) (clientIdToPlayerMap s)\<rparr>)"
  using assms
proof (induction es arbitrary: s)
  case Nil
  then show ?case by (simp add: destroyPlayers_def drop_all_def)
next
  case (Cons e es)
  obtain cid p where e: "e = (cid, p)" by (cases e)
  let ?m = "clientIdToPlayerMap s" and ?t = "drop_all env (map (\<lambda>c. (c, color p)) (body p)) s"
  let ?s1 = "?t\<lparr>clientIdToPlayerMap := um_erase cid ?m\<rparr>"
  have "clientIdToPlayerMap ?t = ?m" by (metis dropped_sel(1) drop_all_dropped order_refl)
  then have one: "destroyPlayer env cid s = Inr ?s1"
    using Cons.prems(3) by (simp add: destroyPlayer_def player_at_def drop_all_body e)
  have "\<forall>(cid', p)\<in>set es. um_at (clientIdToPlayerMap ?s1) cid' = Some p"
    using Cons.prems(2,3) by (force simp: um_at_erase e)
  moreover have "um_wf (clientIdToPlayerMap ?s1)" using Cons.prems(1) by (simp add: um.wf_erase)
  ultimately have "destroyPlayers env (map fst es) ?s1 = Inr ((drop_all env (remains_of es) ?s1)
     \<lparr>clientIdToPlayerMap := filter (\<lambda>e. fst e \<notin> fst ` set es) (clientIdToPlayerMap ?s1)\<rparr>)"
    using Cons.IH [of ?s1] Cons.prems(2) by simp
  moreover have "filter (\<lambda>e. fst e \<notin> fst ` set es) (um_erase cid ?m) = filter (\<lambda>e. fst e \<notin> fst ` set ((cid, p) # es)) ?m"
    unfolding um_erase_def filter_filter by (rule filter_cong) auto
  ultimately show ?case
    using one by (simp add: destroyPlayers_def e drop_all_append drop_all_players)
qed

section \<open>The whole phase\<close>

text \<open>The state after the loop and the erasing, before the dropped food.\<close>

definition survivors :: "'g SnakeServer \<Rightarrow> (int, Player) umap" where
  "survivors s = map (outcome s) (filter (\<lambda>e. \<not> dies s e) (clientIdToPlayerMap s))"

definition collided :: "'g SnakeServer \<Rightarrow> 'g SnakeServer" where
  "collided s = (checked s (clientIdToPlayerMap s) [])\<lparr>clientIdToPlayerMap := survivors s\<rparr>"

definition dead_bodies :: "'g SnakeServer \<Rightarrow> cell set" where
  "dead_bodies s = (\<Union>e\<in>{e \<in> set (clientIdToPlayerMap s). dies s e}. set (body (snd e)))"

lemma dies_outcome: "dies s e \<Longrightarrow> outcome s e = e"
  by (simp add: outcome_def eats_def speeds_up_def Let_def)

lemma checkCollisions_eq:
  assumes wf: "um_wf (clientIdToPlayerMap s)" and ct: "counted s"
  shows "checkCollisions env s =
     Inr (drop_all env (remains_of (filter (dies s) (clientIdToPlayerMap s))) (collided s))"
proof -
  let ?m = "clientIdToPlayerMap s"
  let ?D = "filter (dies s) ?m"
  let ?C = "checked s ?m []"
  have "checked s [] ?m = s" by (simp add: checked_def)
  with check_loop [of s "[]" ?m "[]"] wf ct
  have loop: "rfold check_player (um_keys ?m) ([], s) = Inr (map fst ?D, ?C)" by simp
  have keep: "filter (\<lambda>e. fst e \<notin> fst ` set ?D) (map (outcome s) ?m) = survivors s"
  proof -
    have "fst e \<in> fst ` set ?D \<longleftrightarrow> dies s e" if "e \<in> set ?m" for e
    proof
      assume "fst e \<in> fst ` set ?D"
      then obtain e' where "e' \<in> set ?m" "dies s e'" "fst e' = fst e" by auto
      moreover from this that wf have "e' = e"
        by (auto simp: um_wf_def um_keys_def distinct_map inj_on_def)
      ultimately show "dies s e" by simp
    next
      assume "dies s e" with that show "fst e \<in> fst ` set ?D" by auto
    qed
    then have "filter (\<lambda>e. fst e \<notin> fst ` set ?D) ?m = filter (\<lambda>e. \<not> dies s e) ?m" by (intro filter_cong) auto
    then show ?thesis by (simp add: survivors_def filter_map comp_def)
  qed
  have wf': "um_wf (clientIdToPlayerMap ?C)" using wf by (simp add: um_wf_def)
  have "\<forall>(cid, p)\<in>set ?D. um_at (clientIdToPlayerMap ?C) cid = Some p"
  proof clarify
    fix cid p assume "(cid, p) \<in> set ?D"
    then have "(cid, p) \<in> set ?m" "outcome s (cid, p) = (cid, p)" by (auto simp: dies_outcome)
    then have "(cid, p) \<in> set (clientIdToPlayerMap ?C)"
      by (metis append_Nil2 checked_sel(6) image_eqI list.set_map)
    then show "um_at (clientIdToPlayerMap ?C) cid = Some p" by (simp only: um_at_in_set [OF wf'])
  qed
  moreover have "distinct (map fst ?D)" using wf by (simp add: um_wf_def um_keys_def distinct_map_filter)
  ultimately have "destroyPlayers env (map fst ?D) ?C = Inr ((drop_all env (remains_of ?D) ?C)
      \<lparr>clientIdToPlayerMap := filter (\<lambda>e. fst e \<notin> fst ` set ?D) (clientIdToPlayerMap ?C)\<rparr>)"
    by (intro destroyPlayers_eq wf')
  moreover have "checkCollisions env s = destroyPlayers env (map fst ?D) ?C"
    unfolding checkCollisions_def loop rbind_Inr prod.case by (simp add: destroyPlayers_def)
  ultimately show ?thesis using keep by (simp add: collided_def drop_all_players)
qed

lemma remains_dead: "fst ` set (remains_of (filter (dies s) (clientIdToPlayerMap s))) = dead_bodies s"
  by (force simp: remains_of_def dead_bodies_def)

section \<open>The invariant is restored\<close>

lemma outcome_wf: "player_wf p \<Longrightarrow> player_wf (snd (outcome s (cid, p)))"
  using player_wf_grow [of p]
  by (auto simp: outcome_def feed_def boost_def player_wf_def)

lemma outcome_moving: "moving A p \<Longrightarrow> head_cell p \<in> A \<Longrightarrow> settled A (snd (outcome s (cid, p)))"
  using settled_grow [of A p "score p + 1"] moving_settled [of A p]
  by (auto simp: outcome_def feed_def boost_def settled_def)

lemma engine_moving_entries:
  "engine_moving s \<Longrightarrow> (cid, p) \<in> set (clientIdToPlayerMap s) \<Longrightarrow> player_wf p \<and> moving (arena s) p"
  using um_at_in_set [of "clientIdToPlayerMap s" cid p]
  by (auto simp: engine_moving_def engine_wf_def)

lemma alive_in_arena: "\<not> dies s e \<Longrightarrow> head_cell (snd e) \<in> arena s"
  by (simp add: dies_def Let_def)

lemma survivors_entries:
  assumes "engine_moving s" and "(cid, p) \<in> set (survivors s)"
  shows "player_wf p \<and> settled (arena s) p"
proof -
  from assms(2) obtain q where q: "(cid, q) \<in> set (clientIdToPlayerMap s)" "\<not> dies s (cid, q)"
    and p: "p = snd (outcome s (cid, q))"
    by (auto simp: survivors_def outcome_def)
  from engine_moving_entries [OF assms(1) q(1)] alive_in_arena [OF q(2)] show ?thesis
    unfolding p by (simp add: outcome_wf outcome_moving)
qed

lemma survivors_wf: "um_wf (clientIdToPlayerMap s) \<Longrightarrow> um_wf (survivors s)"
  by (simp add: um_wf_def survivors_def um_keys_def comp_def distinct_map_filter)

lemma dead_bodies_arena: "engine_moving s \<Longrightarrow> dead_bodies s \<subseteq> arena s"
  unfolding dead_bodies_def using engine_moving_entries [of s] by (fastforce simp: moving_def)

lemma um_at_filter_keys:
  "um_at (filter (\<lambda>e. fst e \<notin> X) m) k = (if k \<in> X then None else um_at m k)"
  by (induction m) (auto simp: um_at_def)

lemma um_wf_filter: "um_wf m \<Longrightarrow> um_wf (filter P m)"
  by (simp add: um_wf_def um_keys_def distinct_map_filter)

lemma take_scores_short:
  "\<forall>e\<in>set es. short_name (name (snd e)) \<Longrightarrow> short_name (fst hs) \<Longrightarrow> short_name (fst (fold take_score es hs))"
  by (induction es arbitrary: hs) (auto simp: take_score_def)

lemma collided_inv:
  assumes "engine_moving s" shows "engine_inv (collided s)"
proof -
  have wf: "engine_wf s" using assms by (rule engine_movingD)
  let ?m = "clientIdToPlayerMap s"
  have names: "\<forall>e\<in>set (map (outcome s) ?m). short_name (name (snd e))"
    using engine_moving_entries [OF assms] by (auto simp: player_wf_def)
  have at: "player_wf p \<and> settled (arena s) p" if "um_at (survivors s) cid = Some p" for cid p
    using that survivors_entries [OF assms, of cid p] um_at_in_set survivors_wf engine_wfD(1) [OF wf] by metis
  have "arena (collided s) = arena s" by (simp add: collided_def)
  with at show ?thesis
    using wf survivors_wf [OF engine_wfD(1) [OF wf]] take_scores_short [OF names]
    by (simp add: engine_inv_def engine_wf_def collided_def checked_def um_wf_filter um_at_filter_keys
        order_trans [OF length_filter_le])
qed

lemma dropped_inv:
  assumes "engine_inv s" and "dropped cs s s'" and "cs \<subseteq> arena s"
  shows "engine_inv s'"
proof -
  from assms(2) obtain g fm where s': "s' = s\<lparr>gen := g, foodMap := fm\<rparr>" and fm: "food_grows cs (foodMap s) fm"
    unfolding dropped_def by blast
  have at: "c \<in> arena s \<and> (f_x f, f_y f) = c" if "um_at fm c = Some f" for c f
  proof -
    from fm that have "um_at (foodMap s) c = Some f \<or> c \<in> cs \<and> (f_x f, f_y f) = c"
      unfolding food_grows_def by blast
    with assms(3) food_at_arena [OF engine_invD [OF assms(1)]] show ?thesis by blast
  qed
  have "engine_inv ((s\<lparr>gen := g\<rparr>)\<lparr>foodMap := fm\<rparr>)"
    using assms(1) fm at engine_wfD(2) [OF engine_invD [OF assms(1)]]
    by (intro engine_inv_foodMap) (simp_all add: food_grows_def)
  then show ?thesis by (simp add: s')
qed

lemma checkCollisions_inv:
  assumes "engine_moving s" and "counted s"
  shows "\<exists>s'. checkCollisions env s = Inr s' \<and> engine_inv s' \<and> dropped (dead_bodies s) (collided s) s'"
proof -
  from checkCollisions_eq [OF engine_wfD(1) [OF engine_movingD [OF assms(1)]] assms(2), of env] obtain s' where
    s': "checkCollisions env s = Inr s'" "dropped (dead_bodies s) (collided s) s'"
    using drop_all_dropped [OF eq_refl [OF remains_dead]] by blast
  moreover have "engine_inv s'"
    using dead_bodies_arena [OF assms(1)]
    by (intro dropped_inv [OF collided_inv [OF assms(1)] s'(2)]) (simp add: collided_def)
  ultimately show ?thesis by blast
qed

text \<open>No two survivors have their heads on one cell.\<close>

lemma alive_heads_differ:
  assumes "e \<in> set (clientIdToPlayerMap s)" "e' \<in> set (clientIdToPlayerMap s)"
    and "\<not> dies s e" "\<not> dies s e'" and "head_cell (snd e) = head_cell (snd e')"
  shows "fst e = fst e'"
proof -
  let ?a = "\<lambda>e. Arrival (nextMoveTime (snd e)) (fst e)"
  have "\<not> ?a e' < ?a e" "\<not> ?a e < ?a e'"
    using assms by (fastforce simp: dies_def Let_def)+
  then show ?thesis by (auto simp: less_arrival_def arrived_before_def split: if_splits)
qed

lemma survivors_heads_distinct:
  assumes "um_wf (clientIdToPlayerMap s)"
  shows "distinct (map (\<lambda>e. head_cell (snd e)) (survivors s))"
proof -
  let ?alive = "filter (\<lambda>e. \<not> dies s e) (clientIdToPlayerMap s)"
  have d: "distinct (map fst ?alive)" using assms by (simp add: um_wf_def um_keys_def distinct_map_filter)
  then have "distinct ?alive" by (simp add: distinct_map)
  moreover have "inj_on (\<lambda>e. head_cell (snd e)) (set ?alive)"
  proof (rule inj_onI)
    fix e e' assume "e \<in> set ?alive" "e' \<in> set ?alive" "head_cell (snd e) = head_cell (snd e')"
    with alive_heads_differ [of e s e'] have "fst e = fst e'" by simp
    with d \<open>e \<in> set ?alive\<close> \<open>e' \<in> set ?alive\<close> show "e = e'" by (metis distinct_map inj_onD)
  qed
  ultimately have "distinct (map (\<lambda>e. head_cell (snd e)) ?alive)" by (simp only: distinct_map)
  then show ?thesis by (simp add: survivors_def comp_def)
qed

end
