(* ===== verification/Server_Log.thy ===== *)
theory Server_Log
  imports Engine_Collisions
begin

text \<open>
  What the server writes to its message log, for every run and every behaviour of the
  environment: each pass appends serialised messages that carry consecutive sequence numbers
  and the tick of the pass. The engine's own operations do not touch log, network or clock.
\<close>

section \<open>The engine leaves log, network and clock alone\<close>

definition io :: "'g SnakeServer \<Rightarrow> NetworkServer \<times> Timer \<times> bytes \<times> i64 \<times> MessageLogReader option \<times> int \<times> int" where
  "io s = (network s, timer s, msgLog s, currentSequence s, replayFile s, width s, height s)"

lemma io_frame [simp]:
  "io (s\<lparr>clientIdToPlayerMap := m\<rparr>) = io s" "io (s\<lparr>gen := g\<rparr>) = io s" "io (s\<lparr>foodMap := fm\<rparr>) = io s"
  "io (s\<lparr>speedBoostMap := bm\<rparr>) = io s" "io (s\<lparr>occupiedCellsBodies := oc\<rparr>) = io s"
  "io (s\<lparr>serverHighScore := hs\<rparr>) = io s" "io (modify_player cid f s) = io s"
  by (simp_all add: io_def modify_player_def)

lemma rfold_io:
  assumes "rfold f xs s = Inr s'" and "\<And>x s s'. f x s = Inr s' \<Longrightarrow> h s' = h s"
  shows "h s' = h s"
  by (rule rfold_preserves [OF assms(1), where I = "\<lambda>t. h t = h s"]) (use assms(2) in auto)

lemma io_moveSnake: "moveSnake cid s = Inr s' \<Longrightarrow> io s' = io s"
  by (auto simp: moveSnake_def rbind_eq_Inr split: prod.splits)

lemma io_updateOccupiedCells: "updateOccupiedCells cid s = Inr s' \<Longrightarrow> io s' = io s"
  by (auto simp: updateOccupiedCells_def occupy_cell_def rbind_eq_Inr elim!: rfold_io)

lemma io_updateSnake: "updateSnake cid st = Inr st' \<Longrightarrow> io (snd st') = io (snd st)"
  by (auto simp: updateSnake_def expire_boost_def rbind_eq_Inr Let_def split: prod.splits if_splits
      dest!: io_moveSnake io_updateOccupiedCells)

lemma io_updateSnakes: "updateSnakes s = Inr (b, s') \<Longrightarrow> io s' = io s"
  unfolding updateSnakes_def by (drule rfold_io [where h = "\<lambda>st. io (snd st)"]) (auto dest: io_updateSnake)

lemma io_feed_boost [simp]: "io (feedPlayer c cid s) = io s" "io (boostPlayer c cid s) = io s"
  by (simp_all add: feedPlayer_def boostPlayer_def)

lemma io_track: "track_high_score cid s = Inr s' \<Longrightarrow> io s' = io s"
  by (auto simp: track_high_score_def rbind_eq_Inr split: if_splits)

lemma io_check_player: "check_player cid (d, s) = Inr (d', s') \<Longrightarrow> io s' = io s"
  unfolding check_player_def Let_def prod.case
  by (elim rbind_InrE) (auto simp: rbind_eq_Inr split: if_splits dest!: io_track)

lemma io_placeFoodAt [simp]: "io (placeFoodAt env x y col s) = io s"
  by (simp add: placeFoodAt_def)

lemma io_drop_food [simp]: "io (drop_food env col c s) = io s"
  by (simp add: drop_food_def Let_def split: prod.splits)

lemma io_drop_foods [simp]: "io (fold (drop_food env col) cs s) = io s"
  by (induction cs arbitrary: s) simp_all

lemma io_destroyPlayers: "destroyPlayers env cids s = Inr s' \<Longrightarrow> io s' = io s"
  unfolding destroyPlayers_def
  by (erule rfold_io) (auto simp: destroyPlayer_def rbind_eq_Inr Let_def)

lemma io_checkCollisions: "checkCollisions env s = Inr s' \<Longrightarrow> io s' = io s"
proof -
  assume "checkCollisions env s = Inr s'"
  then obtain destroy t where t: "rfold check_player (um_keys (clientIdToPlayerMap s)) ([], s) = Inr (destroy, t)"
    and s': "s' = t \<or> destroyPlayers env destroy t = Inr s'"
    by (auto simp: checkCollisions_def rbind_eq_Inr split: if_splits)
  from t have "io t = io s" using rfold_io [OF t, where h = "\<lambda>st. io (snd st)"] io_check_player by fastforce
  with s' io_destroyPlayers show ?thesis by metis
qed

lemma io_placeSpeedBoost [simp]: "io (placeSpeedBoost env s) = io s"
  by (simp add: placeSpeedBoost_def split: prod.splits)

lemma io_placeFood [simp]: "io (placeFood env s) = io s"
  by (simp add: placeFood_def split: prod.splits)

lemma io_replaceFood: "replaceFood env s = Some s' \<Longrightarrow> io s' = io s"
  by (erule replaceFood.raw_induct [rotated]) (auto split: if_splits)

lemma io_move_phase: "move_phase env (b, s) = Inr (b', s') \<Longrightarrow> io s' = io s"
  by (auto simp: move_phase_def rbind_eq_Inr Let_def split: prod.splits if_splits
      dest!: io_updateSnakes io_checkCollisions)

lemma io_createNewPlayer: "createNewPlayer env m s = Inr s' \<Longrightarrow> io s' = io s"
  by (auto simp: createNewPlayer_def rbind_eq_Inr Let_def split: prod.splits)

lemma io_handlers [simp]:
  "io (handleClientDisconnect d s) = io s" "io (handleClientInput i s) = io s"
  by (simp_all add: handleClientDisconnect_def handleClientInput_def Let_def)

section \<open>What is appended to the log\<close>

text \<open>
  \<open>shaped\<close>: the header names the alternative and the char arrays have their lengths, which is
  what \<open>wf_msg\<close> says but for the sizes of the vectors.
\<close>

definition shaped :: "MessageVariant \<Rightarrow> bool" where
  "shaped m \<longleftrightarrow> messageType (header m) = mt_code (variant_type m) \<and>
     (case m of VClientJoin j \<Rightarrow> length (cj_username j) = 16
      | VGameState g \<Rightarrow> length (gs_highScoreUsername g) = 16 \<and>
          (\<forall>p\<in>set (gs_players g). length (gp_username p) = 16)
      | _ \<Rightarrow> True)"

lemma shaped_wf: "wf_msg m \<Longrightarrow> shaped m"
  by (cases m) (auto simp: shaped_def wf_msg_def game_state_ok_def player_ok_def)

lemma shaped_header_update:
  "shaped m \<Longrightarrow> (\<And>h. messageType (f h) = messageType h) \<Longrightarrow> shaped (header_update f m)"
  by (cases m) (simp_all add: shaped_def)

lemma length_le_sum: "length ps \<le> (\<Sum>p\<leftarrow>ps. 33 + 8 * length (gp_segments p))"
  by (induction ps) simp_all

lemma shaped_loggable:
  assumes "shaped m" and "length (encode m) < 2 ^ 32"
  shows "loggable m"
proof (cases m)
  case (VGameState g)
  with assms(1) have u: "length (gs_highScoreUsername g) = 16" "\<forall>p\<in>set (gs_players g). length (gp_username p) = 16"
    by (simp_all add: shaped_def)
  let ?sizes = "map (\<lambda>p. 33 + 8 * length (gp_segments p)) (gs_players g)"
  have "13 * length (gs_food g) + 13 * length (gs_speedBoosts g) + sum_list ?sizes < 2 ^ 32"
    using assms(2) VGameState by (simp add: encode_def length_encode_game_state [OF u])
  moreover have "length (gs_players g) \<le> sum_list ?sizes"
    by (rule length_le_sum)
  moreover have "length (gp_segments p) \<le> sum_list ?sizes" if "p \<in> set (gs_players g)" for p
    using that member_le_sum_list [of "33 + 8 * length (gp_segments p)" ?sizes] by fastforce
  ultimately have "game_state_ok g"
    using u by (force simp: game_state_ok_def player_ok_def list_fits_def)
  with assms VGameState show ?thesis by (simp add: loggable_def wf_msg_def shaped_def)
qed (use assms in \<open>simp_all add: loggable_def wf_msg_def shaped_def\<close>)

text \<open>
  \<open>logged s ms s'\<close>: from \<open>s\<close> to \<open>s'\<close> exactly the messages \<open>ms\<close> were stamped and written, in this
  order, within one tick.
\<close>

definition logged :: "'g SnakeServer \<Rightarrow> MessageVariant list \<Rightarrow> 'g SnakeServer \<Rightarrow> bool" where
  "logged s ms s' \<longleftrightarrow>
     (\<exists>bss. map serialise ms = map Inr bss \<and> msgLog s' = fold (\<lambda>bs out. log_write out bs) bss (msgLog s)) \<and>
     currentSequence s' = currentSequence s + of_nat (length ms) \<and>
     (\<forall>i<length ms. sequence (header (ms ! i)) = currentSequence s + of_nat i) \<and>
     (\<forall>m\<in>set ms. transactTime (header m) = currentTickAsNanos (timer s) \<and> shaped m) \<and>
     timer s' = timer s \<and> replayFile s' = replayFile s"

text \<open>The inputs among logged messages, without what stamping wrote into them.\<close>

definition unstamped :: "MessageVariant \<Rightarrow> MessageVariant" where
  "unstamped = header_update (\<lambda>h. h\<lparr>sequence := 0, transactTime := 0\<rparr>)"

definition inputs_of :: "MessageVariant list \<Rightarrow> MessageVariant list" where
  "inputs_of ms = map unstamped (filter is_input_message ms)"

lemma unstamped_stamp [simp]: "unstamped (header_update (stamp s) m) = unstamped m"
  by (cases m) (simp_all add: unstamped_def stamp_def)

lemma is_input_stamp [simp]: "is_input_message (header_update (stamp s) m) = is_input_message m"
  by (cases m) (simp_all add: is_input_message_def stamp_def)

lemma inputs_of_simps [simp]:
  "inputs_of [] = []" "inputs_of (ms @ ns) = inputs_of ms @ inputs_of ns"
  "inputs_of (header_update (stamp s) m # ms) = inputs_of (m # ms)"
  by (simp_all add: inputs_of_def)

lemma inputs_of_output:
  "messageType (header m) = mt_code SERVER_WELCOME \<or> messageType (header m) = mt_code GAME_STATE \<Longrightarrow> inputs_of [m] = []"
  by (auto simp: inputs_of_def is_input_message_def)

lemma logged_io: "io s' = io s \<Longrightarrow> logged s [] s'"
  by (simp add: logged_def io_def)

lemma logged_network [simp]:
  "logged s ms (s'\<lparr>network := nw\<rparr>) = logged s ms s'" "logged (s\<lparr>network := nw\<rparr>) ms s' = logged s ms s'"
  by (simp_all add: logged_def)

lemma logged_append:
  assumes "logged s ms t" and "logged t ns u"
  shows "logged s (ms @ ns) u"
proof -
  from assms(1) obtain bss where a: "map serialise ms = map Inr bss"
      "msgLog t = fold (\<lambda>bs out. log_write out bs) bss (msgLog s)"
    "currentSequence t = currentSequence s + of_nat (length ms)"
    "\<forall>i<length ms. sequence (header (ms ! i)) = currentSequence s + of_nat i"
    "\<forall>m\<in>set ms. transactTime (header m) = currentTickAsNanos (timer s) \<and> shaped m"
    "timer t = timer s" "replayFile t = replayFile s" unfolding logged_def by blast
  from assms(2) obtain css where b: "map serialise ns = map Inr css"
      "msgLog u = fold (\<lambda>bs out. log_write out bs) css (msgLog t)"
    "currentSequence u = currentSequence t + of_nat (length ns)"
    "\<forall>i<length ns. sequence (header (ns ! i)) = currentSequence t + of_nat i"
    "\<forall>m\<in>set ns. transactTime (header m) = currentTickAsNanos (timer t) \<and> shaped m"
    "timer u = timer t" "replayFile u = replayFile t" unfolding logged_def by blast
  have "sequence (header ((ms @ ns) ! i)) = currentSequence s + of_nat i" if "i < length (ms @ ns)" for i
  proof (cases "i < length ms")
    case True
    with a(4) show ?thesis by (simp add: nth_append)
  next
    case False
    with that b(4) have "sequence (header (ns ! (i - length ms))) = currentSequence t + of_nat (i - length ms)"
      by simp
    with False a(3) show ?thesis by (simp add: nth_append)
  qed
  with a b show ?thesis
    unfolding logged_def by (intro conjI exI [of _ "bss @ css"]) auto
qed

lemma log_message_logged:
  assumes "stampMessage m s = (m', t)" and "log_message m' t = Inr (bs, u)" and "shaped m"
  shows "logged s [m'] u \<and> network u = network s \<and> serialise m' = Inr bs \<and> inputs_of [m'] = inputs_of [m]"
proof -
  from assms(2) have ser: "serialise m' = Inr bs" and u: "u = t\<lparr>msgLog := log_write (msgLog t) bs\<rparr>"
    by (cases "serialise m'"; auto simp: log_message_def)+
  from assms(1) have "m' = header_update (stamp s) m" "t = s\<lparr>currentSequence := currentSequence s + 1\<rparr>"
    by (auto simp: stampMessage_def)
  with ser u assms(3) show ?thesis
    by (auto simp: logged_def stamp_def shaped_header_update intro!: exI [of _ "[bs]"])
qed

lemma handleClientJoin_logged:
  assumes "handleClientJoin env snd_res m s = Inr s'"
  shows "\<exists>ms. logged s ms s' \<and> inputs_of ms = []"
proof -
  let ?w = "VServerWelcome \<lparr>sw_hdr = header_of SERVER_WELCOME (clientId (cj_hdr m))\<rparr>"
  from assms obtain t where t: "createNewPlayer env m s = Inr t"
    by (auto simp: handleClientJoin_def rbind_eq_Inr)
  obtain w u where w: "stampMessage ?w t = (w, u)" by (cases "stampMessage ?w t")
  from assms t w obtain bs v where v: "log_message w u = Inr (bs, v)"
    and s': "s' = v \<or> (\<exists>nw. s' = v\<lparr>network := nw\<rparr>)"
    by (auto simp: handleClientJoin_def rbind_eq_Inr split: if_splits)
  have "logged s ([] @ [w]) v \<and> inputs_of [w] = []"
    using logged_append [OF logged_io [OF io_createNewPlayer [OF t]]] log_message_logged [OF w v]
    by (simp add: shaped_def header_of_def inputs_of_output)
  with s' show ?thesis by auto
qed

lemma dispatch_logged:
  assumes "dispatch env snd_res m (b, s) = Inr (b', s')" and "shaped m"
  shows "\<exists>ms. logged s ms s' \<and> inputs_of ms = inputs_of [m]"
proof -
  obtain m' t where st: "stampMessage m s = (m', t)" by (cases "stampMessage m s")
  with assms(1) obtain bs u where lg: "log_message m' t = Inr (bs, u)" and
    body: "(case mt_of (messageType (header m')) of
          Some CLIENT_JOIN \<Rightarrow>
            (case m' of VClientJoin m \<Rightarrow> rbind (handleClientJoin env snd_res m u) (\<lambda>s. Inr (True, s))
             | _ \<Rightarrow> Inl BadVariantAccess)
        | Some CLIENT_INPUT \<Rightarrow>
            (case m' of VClientInput m \<Rightarrow> Inr (b, handleClientInput m u)
             | _ \<Rightarrow> Inl BadVariantAccess)
        | Some CLIENT_DISCONNECT \<Rightarrow>
            (case m' of VClientDisconnect m \<Rightarrow> Inr (True, handleClientDisconnect m u)
             | _ \<Rightarrow> Inl BadVariantAccess)
        | _ \<Rightarrow> Inr (b, u)) = Inr (b', s')"
    by (auto simp: dispatch_def rbind_eq_Inr)
  then have rest: "(\<exists>j. handleClientJoin env snd_res j u = Inr s') \<or> io s' = io u"
    by (auto simp: rbind_eq_Inr split: option.splits MessageType.splits MessageVariant.splits)
  from rest obtain ms where ms: "logged u ms s'" "inputs_of ms = []"
    using handleClientJoin_logged logged_io inputs_of_simps(1) by metis
  with log_message_logged [OF st lg assms(2)] logged_append [of s "[m']" u ms s'] show ?thesis
    by (intro exI [of _ "[m'] @ ms"]) (simp only: inputs_of_simps(2) append_Nil2)
qed

lemma dispatch_all_logged:
  assumes "rfold (dispatch env snd_res) msgs (b, s) = Inr (b', s')" and "\<forall>m\<in>set msgs. shaped m"
  shows "\<exists>ms. logged s ms s' \<and> inputs_of ms = inputs_of msgs"
  using assms
proof (induction msgs arbitrary: b s)
  case Nil
  then show ?case using logged_io [OF refl] by (intro exI [of _ "[]"]) simp
next
  case (Cons m msgs)
  from Cons.prems(1) obtain b1 s1 where 1: "dispatch env snd_res m (b, s) = Inr (b1, s1)"
    and 2: "rfold (dispatch env snd_res) msgs (b1, s1) = Inr (b', s')"
    by (auto simp: rbind_eq_Inr)
  from dispatch_logged [OF 1] Cons.prems(2) obtain ms where "logged s ms s1" "inputs_of ms = inputs_of [m]" by auto
  moreover from Cons.IH [OF 2] Cons.prems(2) obtain ns where "logged s1 ns s'" "inputs_of ns = inputs_of msgs" by auto
  moreover have "inputs_of (m # msgs) = inputs_of [m] @ inputs_of msgs" by (simp add: inputs_of_def)
  ultimately show ?case using logged_append by (intro exI [of _ "ms @ ns"]) (simp add: inputs_of_simps(2))
qed

lemma broadcastGameState_logged:
  assumes "broadcastGameState env snd_res s = Inr s'"
  shows "\<exists>ms. logged s ms s' \<and> inputs_of ms = [] \<and> ms \<noteq> []"
proof -
  obtain m t where st: "stampMessage (VGameState (buildGameState s)) s = (m, t)"
    by (cases "stampMessage (VGameState (buildGameState s)) s")
  with assms obtain bs u where "log_message m t = Inr (bs, u)" "s' = u \<or> (\<exists>nw. s' = u\<lparr>network := nw\<rparr>)"
    by (auto simp: broadcastGameState_def rbind_eq_Inr split: if_splits)
  moreover have "shaped (VGameState (buildGameState s))"
    by (auto simp: shaped_def buildGameState_def header_of_def strncpy16_def split: prod.splits)
  moreover have "inputs_of [VGameState (buildGameState s)] = []"
    by (rule inputs_of_output) (simp add: buildGameState_def header_of_def)
  ultimately show ?thesis using log_message_logged [OF st] by (intro exI [of _ "[m]"]) auto
qed

lemma after_food_logged:
  assumes "after_food env snd_res msgs s = Inr s'" and "\<forall>m\<in>set msgs. shaped m"
  shows "\<exists>ms. logged s ms s' \<and> inputs_of ms = inputs_of msgs"
proof -
  from assms(1) obtain b t b' u where 1: "rfold (dispatch env snd_res) msgs (False, s) = Inr (b, t)"
    and 2: "move_phase env (b, t) = Inr (b', u)"
    and 3: "broadcastGameState env snd_res u = Inr s' \<or> s' = u"
    by (auto simp: after_food_def rbind_eq_Inr split: prod.splits if_splits)
  from dispatch_all_logged [OF 1 assms(2)] obtain ms where ms: "logged s ms t" "inputs_of ms = inputs_of msgs" by blast
  have "logged t [] u" by (rule logged_io) (rule io_move_phase [OF 2])
  moreover obtain ns where ns: "logged u ns s'" "inputs_of ns = []"
    using 3 broadcastGameState_logged logged_io [OF refl] inputs_of_simps(1) by metis
  ultimately have "logged s (ms @ [] @ ns) s'" using logged_append ms(1) by blast
  with ms(2) ns(2) show ?thesis by (intro exI [of _ "ms @ [] @ ns"]) simp
qed

section \<open>Passes and runs\<close>

lemma lift_wire_Inr: "lift_wire r = Inr x \<longleftrightarrow> r = Inr x"
  by (cases r) simp_all

lemma deserialise_for_shaped: "deserialise_for buf cid = Inr m \<Longrightarrow> shaped m"
  by (auto simp: deserialise_for_def rbind_eq_Inr intro!: shaped_header_update
      dest: deserialise_Inr shaped_wf)

lemma decode_frames_shaped:
  assumes "decode_frames frames = Inr msgs" shows "\<forall>m\<in>set msgs. shaped m"
  using assms unfolding decode_frames_def
proof (rule rfold_preserves)
  fix x s s'
  assume "\<forall>m\<in>set s. shaped m" and "(\<lambda>(cid, frame) messages.
      rbind (lift_wire (deserialise_for frame (word_of_int cid))) (\<lambda>m. Inr (messages @ [m]))) x s = Inr s'"
  then show "\<forall>m\<in>set s'. shaped m"
    by (auto simp: rbind_eq_Inr lift_wire_Inr split: prod.splits dest: deserialise_for_shaped)
qed simp

text \<open>
  A live pass appends messages that bear the tick of that pass; what happened before the first
  message of the pass changes neither log nor sequence.
\<close>

lemma run_pass_logged:
  assumes "run_pass env inp s = Some (Inr (go_on, s'))" and "replayFile s = None"
  shows "go_on \<and> replayFile s' = None \<and>
     (\<exists>ms. logged (s\<lparr>timer := Timer_tick (clock inp) (timer s)\<rparr>) ms s')"
proof -
  from assms(1) obtain msgs t where
    poll: "pollMessages env inp s = Inr (msgs, t)"
    by (auto simp: run_pass_def split: sum.splits)
  from poll assms(2) obtain frames net ms cids net' where
    ms: "decode_frames frames = Inr ms" and
    t: "msgs = Some (ms @ map disconnect_message cids)"
      "t = s\<lparr>timer := Timer_tick (clock inp) (timer s), network := net'\<rparr>"
    by (auto simp: pollMessages_def add_disconnects_def rbind_eq_Inr)
  from assms(1) poll t obtain u where u: "replaceFood env t = Some u" and go: "go_on"
    and s': "after_food env (send_result inp) (ms @ map disconnect_message cids) u = Inr s'"
    by (auto simp: run_pass_def bind_eq_Some_conv rbind_eq_Inr)
  have "\<forall>m\<in>set (ms @ map disconnect_message cids). shaped m"
    using decode_frames_shaped [OF ms] by (auto simp: disconnect_message_def shaped_def header_of_def)
  from after_food_logged [OF s' this] obtain out where "logged u out s'" by blast
  moreover have "logged t [] u" by (rule logged_io) (rule io_replaceFood [OF u])
  ultimately have "logged t out s'" using logged_append by fastforce
  then have "logged (s\<lparr>timer := Timer_tick (clock inp) (timer s)\<rparr>) out s'" by (simp add: t logged_def)
  moreover from this assms(2) have "replayFile s' = None" by (simp add: logged_def)
  ultimately show ?thesis using go by blast
qed

text \<open>The same over many passes: one list of messages per pass.\<close>

definition written :: "bytes \<Rightarrow> MessageVariant list \<Rightarrow> bytes \<Rightarrow> bool" where
  "written out ms out' \<longleftrightarrow>
     (\<exists>bss. map serialise ms = map Inr bss \<and> out' = fold (\<lambda>bs out. log_write out bs) bss out)"

definition consecutive :: "i64 \<Rightarrow> MessageVariant list \<Rightarrow> bool" where
  "consecutive c ms \<longleftrightarrow> (\<forall>i<length ms. sequence (header (ms ! i)) = c + of_nat i)"

definition at_tick :: "int \<Rightarrow> MessageVariant list \<Rightarrow> bool" where
  "at_tick now ms \<longleftrightarrow> (\<forall>m\<in>set ms. transactTime (header m) = word_of_int now \<and> shaped m)"

lemma length_log_writes:
  "length out + 4 * length bss \<le> length (fold (\<lambda>bs out. log_write out bs) bss out)"
proof (induction bss arbitrary: out)
  case (Cons bs bss)
  have "length out + 4 \<le> length (log_write out bs)" by (simp add: log_write_def Let_def)
  with Cons [of "log_write out bs"] show ?case by simp
qed simp

lemma written_append: "written a ms b \<Longrightarrow> written b ns c \<Longrightarrow> written a (ms @ ns) c"
proof -
  assume "written a ms b" "written b ns c"
  then obtain bss css where "map serialise ms = map Inr bss" "b = fold (\<lambda>bs out. log_write out bs) bss a"
    "map serialise ns = map Inr css" "c = fold (\<lambda>bs out. log_write out bs) css b"
    unfolding written_def by blast
  then show ?thesis unfolding written_def by (intro exI [of _ "bss @ css"]) simp
qed

lemma consecutive_append:
  assumes "consecutive c ms" and "consecutive (c + of_nat (length ms)) ns"
  shows "consecutive c (ms @ ns)"
  unfolding consecutive_def
proof (intro allI impI)
  fix i assume i: "i < length (ms @ ns)"
  show "sequence (header ((ms @ ns) ! i)) = c + of_nat i"
  proof (cases "i < length ms")
    case True
    with assms(1) show ?thesis by (simp add: consecutive_def nth_append)
  next
    case False
    with i assms(2) have "sequence (header (ns ! (i - length ms))) = c + of_nat (length ms) + of_nat (i - length ms)"
      by (simp add: consecutive_def)
    with False show ?thesis by (simp add: nth_append)
  qed
qed

lemma loggedD:
  assumes "logged (s\<lparr>timer := Timer_tick now (timer s)\<rparr>) ms s'"
  shows "written (msgLog s) ms (msgLog s')" "consecutive (currentSequence s) ms" "at_tick now ms"
    "currentSequence s' = currentSequence s + of_nat (length ms)"
  using assms
  by (auto simp: logged_def written_def consecutive_def at_tick_def currentTickAsNanos_def
      Timer_tick_def Let_def split: if_splits)

lemma run_loop_logged:
  assumes "run_loop env inps s = Some (Inr s')" and "replayFile s = None"
  shows "\<exists>mss. list_all2 (\<lambda>inp ms. at_tick (clock inp) ms) inps mss \<and>
     written (msgLog s) (concat mss) (msgLog s') \<and> consecutive (currentSequence s) (concat mss)"
  using assms
proof (induction inps arbitrary: s)
  case Nil
  then show ?case by (intro exI [of _ "[]"]) (simp add: written_def consecutive_def)
next
  case (Cons inp inps)
  from Cons.prems(1) obtain res where res: "run_pass env inp s = Some res"
    by (auto simp: bind_eq_Some_conv)
  with Cons.prems(1) obtain go t where "res = Inr (go, t)"
    and rest: "if go then run_loop env inps t = Some (Inr s') else t = s'"
    by (cases res) (auto split: if_splits)
  with res have p: "run_pass env inp s = Some (Inr (go, t))" by simp
  from run_pass_logged [OF p Cons.prems(2)] obtain ms where go: "go" "replayFile t = None"
    and lg: "logged (s\<lparr>timer := Timer_tick (clock inp) (timer s)\<rparr>) ms t" by blast
  from Cons.IH [of t] rest go obtain mss where
    mss: "list_all2 (\<lambda>inp ms. at_tick (clock inp) ms) inps mss" "written (msgLog t) (concat mss) (msgLog s')"
      "consecutive (currentSequence t) (concat mss)" by auto
  with loggedD [OF lg] show ?case
    by (intro exI [of _ "ms # mss"]) (auto intro: written_append consecutive_append)
qed

lemma recordServerConfig_logged:
  assumes "recordServerConfig s = Inr s'"
  shows "\<exists>c. logged s [VServerConfig c] s' \<and> sc_seed c = seed s"
proof -
  let ?m = "VServerConfig \<lparr>sc_hdr = header_of SERVER_CONFIG (-1), sc_width = word_of_int (width s),
             sc_height = word_of_int (height s), sc_seed = seed s,
             sc_minFoodInArena = of_nat MIN_FOOD_IN_ARENA,
             sc_foodSpawnFromBodySegmentProbability = word_of_int FOOD_SPAWN_FROM_BODY_SEGMENT_PROBABILITY,
             sc_speedBoostProbability = word_of_int SPEED_BOOST_PROBABILITY,
             sc_speedBoostRatio = SPEED_BOOST_RATIO,
             sc_movementFrequencyMs = word_of_int (movementFrequencyMs s),
             sc_boostedMovementFrequencyMs = word_of_int (boostedMovementFrequencyMs s),
             sc_boostDurationMs = word_of_int (boostDurationMs s)\<rparr>"
  obtain m t where st: "stampMessage ?m s = (m, t)" by (cases "stampMessage ?m s")
  with assms obtain bs where "log_message m t = Inr (bs, s')"
    by (auto simp: recordServerConfig_def Let_def rbind_eq_Inr)
  from log_message_logged [OF st this] have "logged s [m] s'" by (simp add: shaped_def header_of_def)
  moreover from st obtain c where "m = VServerConfig c" "sc_seed c = seed s" by (auto simp: stampMessage_def)
  ultimately show ?thesis by blast
qed

section \<open>Reading the log of a run\<close>

lemma in_concat_nth: "x \<in> set (concat xss) \<Longrightarrow> \<exists>i<length xss. x \<in> set (xss ! i)"
  by (metis UN_E in_set_conv_nth set_concat)

text \<open>The messages of the first pass are told from the later ones by their time.\<close>

lemma first_run:
  assumes "\<forall>m\<in>set ms. transact m = t" and "list_all2 (\<lambda>t ms. \<forall>m\<in>set ms. transact m = t) ts mss"
    and "\<forall>t'\<in>set ts. t < t'"
  shows "takeWhile (\<lambda>x. transact x = t) (ms @ concat mss) = ms"
    "dropWhile (\<lambda>x. transact x = t) (ms @ concat mss) = concat mss"
proof -
  have later: "transact x \<noteq> t" if "x \<in> set (concat mss)" for x
  proof -
    from that obtain i where i: "i < length mss" "x \<in> set (mss ! i)" using in_concat_nth by metis
    with assms(2) have "transact x = ts ! i" "i < length ts" by (auto simp: list_all2_conv_all_nth)
    with assms(3) show ?thesis by (metis nth_mem less_irrefl)
  qed
  then have "concat mss = [] \<or> transact (hd (concat mss)) \<noteq> t" using hd_in_set by blast
  then have "takeWhile (\<lambda>x. transact x = t) (concat mss) = []" "dropWhile (\<lambda>x. transact x = t) (concat mss) = concat mss"
    by (simp_all only: takeWhile_eq_Nil_iff dropWhile_eq_self_iff)
  with assms(1) show "takeWhile (\<lambda>x. transact x = t) (ms @ concat mss) = ms"
    "dropWhile (\<lambda>x. transact x = t) (ms @ concat mss) = concat mss"
    by (simp_all add: takeWhile_append2 dropWhile_append2)
qed

lemma runs_concat:
  assumes "list_all2 (\<lambda>t ms. \<forall>m\<in>set ms. transact m = t) ts mss" and "sorted_wrt (<) ts"
  shows "runs (concat mss) = filter (\<lambda>ms. ms \<noteq> []) mss"
  using assms
proof (induction ts mss rule: list_all2_induct)
  case Nil
  then show ?case by simp
next
  case (Cons t ts ms mss)
  show ?case
  proof (cases ms)
    case Nil
    with Cons show ?thesis by simp
  next
    case (Cons m ms')
    then have "transact m = t" using Cons.hyps(1) by simp
    moreover have "\<forall>t'\<in>set ts. t < t'" using Cons.prems by simp
    ultimately show ?thesis
      using first_run [OF Cons.hyps(1,2)] Cons Cons.IH Cons.prems by simp
  qed
qed

lemma times_ok_concat:
  assumes "list_all2 (\<lambda>t ms. \<forall>m\<in>set ms. transact m = t) ts mss" and "sorted_wrt (<) ts"
    and "\<forall>t\<in>set ts. 0 < t"
  shows "times_ok (concat mss)"
  using assms
proof (induction ts mss rule: list_all2_induct)
  case Nil
  then show ?case by (simp add: times_ok_def)
next
  case (Cons t ts ms mss)
  have later: "t \<le> transact x" if "x \<in> set (concat mss)" for x
  proof -
    from that obtain i where i: "i < length mss" "x \<in> set (mss ! i)" using in_concat_nth by metis
    with Cons.hyps(2) have "transact x = ts ! i" "i < length ts" by (auto simp: list_all2_conv_all_nth)
    with Cons.prems(1) show ?thesis by (auto dest: nth_mem intro: less_imp_le)
  qed
  have "sorted (map transact ms)" using Cons.hyps(1) by (simp add: sorted_wrt_iff_nth_less sorted_iff_nth_mono)
  with Cons later show ?case by (auto simp: times_ok_def sorted_append)
qed

lemma transact_at_tick:
  assumes "at_tick now ms" and "0 < now" and "now < 2 ^ 63"
  shows "\<forall>m\<in>set ms. transact m = now"
  using assms by (simp add: at_tick_def signed_of_int signed_take_bit_int_eq_self)

lemma written_log_of:
  assumes "written [] ms out" and "\<forall>m\<in>set ms. loggable m"
  shows "out = log_of ms"
proof -
  from assms(1) obtain bss where bss: "map serialise ms = map Inr bss"
    "out = fold (\<lambda>bs out. log_write out bs) bss []" unfolding written_def by blast
  have "map serialise ms = map Inr (map encode ms)"
    using assms(2) by (auto simp: loggable_def wf_msg_def serialise_eq)
  with bss(1) have "map (Inr :: bytes \<Rightarrow> wire_error + bytes) bss = map Inr (map encode ms)" by simp
  then have enc: "bss = map encode ms" by (metis inj_map_eq_map inj_Inr)
  have "fold (\<lambda>bs out. log_write out bs) (map encode ms) a = a @ log_of ms" for a
    using assms(2) by (induction ms arbitrary: a) (simp_all add: log_write_frame loggable_def)
  with bss(2) enc show ?thesis by simp
qed

lemma reader_of_log:
  assumes "\<forall>x\<in>set (m # ms). loggable x"
  shows "\<exists>r. log_first (MessageLogReader_new (log_of (m # ms))) = Inr (Some m, r) \<and> holds r ms"
proof -
  have "read_record (log_of (m # ms)) = Inr (Some (m, log_of ms))"
    using assms by (intro read_record_log) simp
  then show ?thesis by (simp only: log_first_def MessageLogReader_new_def) (simp add: holds_def)
qed

section \<open>Properties\<close>

text \<open>
  C10: The log numbers what happens. Whatever clients, kernel and clock do, a live server that has
  run through any sequence of passes without an exception has written to its log, in this order,
  its configuration and then, pass by pass, serialised messages; their sequence numbers count up
  from 0 without a gap, and every message of a pass bears the clock reading of that pass.
\<close>

theorem server_log_sequence:
  assumes "run_server env inps s = Some (Inr s')" and "replayFile s = None"
    and "msgLog s = []" and "currentSequence s = 0"
  shows "\<exists>c mss. sc_seed c = seed s \<and>
     list_all2 (\<lambda>inp ms. \<forall>m\<in>set ms. transactTime (header m) = word_of_int (clock inp)) inps mss \<and>
     (let ms = VServerConfig c # concat mss in
        (\<forall>i<length ms. sequence (header (ms ! i)) = of_nat i) \<and>
        (\<exists>bss. map serialise ms = map Inr bss \<and> msgLog s' = fold (\<lambda>bs out. log_write out bs) bss []))"
proof -
  from assms(1) obtain t where t: "recordServerConfig s = Inr t" and run: "run_loop env inps t = Some (Inr s')"
    by (auto simp: run_server_def split: sum.splits)
  from recordServerConfig_logged [OF t] obtain c where c: "logged s [VServerConfig c] t" "sc_seed c = seed s"
    by blast
  then have lg: "written [] [VServerConfig c] (msgLog t)" "consecutive 0 [VServerConfig c]"
    "currentSequence t = 1" "replayFile t = None"
    using assms by (auto simp: logged_def written_def consecutive_def)
  from run_loop_logged [OF run lg(4)] obtain mss where
    mss: "list_all2 (\<lambda>inp ms. at_tick (clock inp) ms) inps mss" "written (msgLog t) (concat mss) (msgLog s')"
    "consecutive (currentSequence t) (concat mss)" by blast
  have "written [] (VServerConfig c # concat mss) (msgLog s')"
    using written_append [OF lg(1) mss(2)] by simp
  moreover have "consecutive 0 (VServerConfig c # concat mss)"
    using consecutive_append [OF lg(2), of "concat mss"] mss(3) lg(3) by simp
  moreover have "list_all2 (\<lambda>inp ms. \<forall>m\<in>set ms. transactTime (header m) = word_of_int (clock inp)) inps mss"
    using mss(1) by (rule list_all2_mono) (simp add: at_tick_def)
  ultimately show ?thesis
    using c(2) unfolding written_def consecutive_def Let_def
    by (intro exI [of _ c] exI [of _ mss]) simp
qed

text \<open>
  C8: A replay sees the passes of the run. The log of a live run holds its configuration and the
  messages of its passes; if the clock readings of the passes are positive and strictly increase,
  and every record is shorter than 4 GiB, then a reader opened on that log first returns the configuration with the seed of the run and then, batch by batch,
  exactly the messages of the passes that wrote something, and then the end of the log, without
  any exception.
\<close>

theorem server_log_replayable:
  assumes "run_server env inps s = Some (Inr s')" and "replayFile s = None" and "msgLog s = []"
    and "sorted_wrt (<) (map clock inps)" and "\<forall>inp\<in>set inps. 0 < clock inp \<and> clock inp < 2 ^ 63"
  shows "\<exists>c mss. sc_seed c = seed s \<and> length mss = length inps \<and>
     written [] (VServerConfig c # concat mss) (msgLog s') \<and>
     ((\<forall>m\<in>set (VServerConfig c # concat mss). length (encode m) < 2 ^ 32) \<longrightarrow>
       (\<exists>r. log_first (MessageLogReader_new (msgLog s')) = Inr (Some (VServerConfig c), r) \<and>
            read_batches r = Some (Inr (filter (\<lambda>ms. ms \<noteq> []) mss))))"
proof -
  from assms(1) obtain t where t: "recordServerConfig s = Inr t" and run: "run_loop env inps t = Some (Inr s')"
    by (auto simp: run_server_def split: sum.splits)
  from recordServerConfig_logged [OF t] obtain c where c: "logged s [VServerConfig c] t" "sc_seed c = seed s"
    by blast
  then have lg: "written [] [VServerConfig c] (msgLog t)" "shaped (VServerConfig c)" "replayFile t = None"
    using assms by (auto simp: logged_def written_def)
  from run_loop_logged [OF run lg(3)] obtain mss where
    mss: "list_all2 (\<lambda>inp ms. at_tick (clock inp) ms) inps mss" "written (msgLog t) (concat mss) (msgLog s')"
    by blast
  have shaped: "\<forall>m\<in>set (concat mss). shaped m"
    using mss(1) by (auto simp: list_all2_conv_all_nth at_tick_def in_set_conv_nth) (metis nth_mem)
  have times: "list_all2 (\<lambda>t ms. \<forall>m\<in>set ms. transact m = t) (map clock inps) mss"
    using mss(1) assms(5) transact_at_tick
    by (auto simp: list_all2_conv_all_nth)
  have "\<exists>r. log_first (MessageLogReader_new (msgLog s')) = Inr (Some (VServerConfig c), r) \<and>
            read_batches r = Some (Inr (filter (\<lambda>ms. ms \<noteq> []) mss))"
    if len: "\<forall>m\<in>set (VServerConfig c # concat mss). length (encode m) < 2 ^ 32"
  proof -
    from len shaped lg(2) have lgs: "\<forall>m\<in>set (VServerConfig c # concat mss). loggable m"
      by (auto intro: shaped_loggable)
    have log: "msgLog s' = log_of (VServerConfig c # concat mss)"
      using written_append [OF lg(1) mss(2)] lgs by (intro written_log_of) simp_all
    from reader_of_log [OF lgs] obtain r where
      r: "log_first (MessageLogReader_new (msgLog s')) = Inr (Some (VServerConfig c), r)" "holds r (concat mss)"
      unfolding log by blast
    have "read_batches r = Some (Inr (runs (concat mss)))"
    proof (rule read_batches_log [OF r(2)])
      show "\<forall>m\<in>set (concat mss). loggable m" using lgs by simp
      show "times_ok (concat mss)"
        by (rule times_ok_concat [OF times assms(4)]) (use assms(5) in auto)
    qed
    with r(1) show ?thesis using runs_concat [OF times assms(4)] by auto
  qed
  moreover have "length mss = length inps" using mss(1) by (simp add: list_all2_lengthD)
  moreover have "written [] (VServerConfig c # concat mss) (msgLog s')"
    using written_append [OF lg(1) mss(2)] by simp
  ultimately show ?thesis using c(2) by blast
qed

end
