(* ===== verification/NetworkServer_Laws.thy ===== *)
theory NetworkServer_Laws
  imports NetworkServer
begin

text \<open>
  The invariant of the connection tables: the two maps between descriptors and client ids are
  inverse to each other, every connection has a buffer, and ids are handed out once. Under
  what the kernel guarantees of the events it reports, polling and draining never throw.
\<close>

section \<open>The invariant\<close>

definition net_wf :: "NetworkServer \<Rightarrow> bool" where
  "net_wf s \<longleftrightarrow>
     um_wf (fdToClientIdMap s) \<and> um_wf (clientIdToFdMap s) \<and> um_wf (fdToBufferMap s) \<and>
     distinct (fdsToDisconnect s) \<and>
     (\<forall>fd cid. um_at (fdToClientIdMap s) fd = Some cid \<longleftrightarrow> um_at (clientIdToFdMap s) cid = Some fd) \<and>
     dom (um_at (fdToBufferMap s)) = dom (um_at (fdToClientIdMap s)) \<and>
     um_at (fdToClientIdMap s) (serverFd s) = None \<and>
     1 \<le> nextClientId s \<and> nextClientId s \<le> INT_MAX \<and>
     (\<forall>cid fd. um_at (clientIdToFdMap s) cid = Some fd \<longrightarrow> 1 \<le> cid \<and> cid < nextClientId s)"

lemma net_wf_new: "net_wf (NetworkServer_new fd)"
  by (simp add: net_wf_def NetworkServer_new_def dom_def INT_MAX_def)

lemma net_wf_ids: "net_wf s \<Longrightarrow> cid \<in> dom (um_at (clientIdToFdMap s)) \<Longrightarrow> 1 \<le> cid \<and> cid < 2 ^ 31"
  by (fastforce simp: net_wf_def INT_MAX_def)

lemma net_wf_mark_disconnect [simp]: "net_wf s \<Longrightarrow> net_wf (mark_disconnect ord fd s)"
  by (simp add: net_wf_def mark_disconnect_def)

lemma mark_disconnect_sel [simp]:
  "fdToClientIdMap (mark_disconnect ord fd s) = fdToClientIdMap s"
  "clientIdToFdMap (mark_disconnect ord fd s) = clientIdToFdMap s"
  "serverFd (mark_disconnect ord fd s) = serverFd s"
  "nextClientId (mark_disconnect ord fd s) = nextClientId s"
  "fdToBufferMap (mark_disconnect ord fd s) = fdToBufferMap s"
  "sentFrames (mark_disconnect ord fd s) = sentFrames s"
  "set (fdsToDisconnect (mark_disconnect ord fd s)) = insert fd (set (fdsToDisconnect s))"
  by (simp_all add: mark_disconnect_def)

text \<open>Two descriptors never share a client id.\<close>

lemma net_wf_inj:
  "net_wf s \<Longrightarrow> um_at (fdToClientIdMap s) fd = Some cid \<Longrightarrow>
     um_at (fdToClientIdMap s) fd' = Some cid \<Longrightarrow> fd = fd'"
  by (simp add: net_wf_def)

section \<open>Accepting\<close>

lemma acceptNewClient_wf:
  assumes "net_wf s" and "acceptNewClient ord ev s = Inr s'"
    and "ev_accept ev \<noteq> -1 \<Longrightarrow> ev_accept ev \<noteq> serverFd s \<and> um_at (fdToClientIdMap s) (ev_accept ev) = None"
  shows "net_wf s'"
proof (cases "ev_accept ev = -1")
  case True
  with assms show ?thesis by (simp add: acceptNewClient_def)
next
  case False
  let ?fd = "ev_accept ev" and ?cid = "nextClientId s"
  from False assms(2) have s': "s' = s\<lparr>nextClientId := ?cid + 1,
               fdToClientIdMap := um_set ord ?fd ?cid (fdToClientIdMap s),
               clientIdToFdMap := um_set ord ?cid ?fd (clientIdToFdMap s),
               fdToBufferMap := um_set ord ?fd [] (fdToBufferMap s)\<rparr>"
    by (auto simp: acceptNewClient_def Let_def split: if_splits)
  from False assms(1,2) have small: "?cid + 1 \<le> INT_MAX"
    by (auto simp: acceptNewClient_def Let_def net_wf_def split: if_splits)
  from assms(1) have new: "um_at (clientIdToFdMap s) ?cid = None"
    by (cases "um_at (clientIdToFdMap s) (nextClientId s)") (auto simp: net_wf_def)
  from False assms(3) have fd: "?fd \<noteq> serverFd s" "um_at (fdToClientIdMap s) ?fd = None" by auto
  show ?thesis
    unfolding s' using assms(1) new fd small by (auto simp: net_wf_def um_simps um_wf_set split: if_splits; fastforce)
qed

section \<open>Receiving\<close>

lemma parseReceivedPacket_sel:
  "fdToClientIdMap (snd (parseReceivedPacket ord fd bs s)) = fdToClientIdMap s"
  "clientIdToFdMap (snd (parseReceivedPacket ord fd bs s)) = clientIdToFdMap s"
  "serverFd (snd (parseReceivedPacket ord fd bs s)) = serverFd s"
  "nextClientId (snd (parseReceivedPacket ord fd bs s)) = nextClientId s"
  by (simp_all add: parseReceivedPacket_def Let_def split: prod.splits)

lemma parseReceivedPacket_wf:
  assumes "net_wf s" and "fd \<in> dom (um_at (fdToClientIdMap s))"
  shows "net_wf (snd (parseReceivedPacket ord fd bs s))"
proof -
  have "net_wf (s\<lparr>fdToBufferMap := um_set ord fd rest (fdToBufferMap s)\<rparr>)" for rest
    using assms by (auto simp: net_wf_def um_simps um_wf_set)
  then show ?thesis by (simp add: parseReceivedPacket_def Let_def split: prod.splits)
qed

lemma receiveFromClient_sel [simp]:
  "fdToClientIdMap (snd (receiveFromClient ord fd r s)) = fdToClientIdMap s"
  "clientIdToFdMap (snd (receiveFromClient ord fd r s)) = clientIdToFdMap s"
  "serverFd (snd (receiveFromClient ord fd r s)) = serverFd s"
  "nextClientId (snd (receiveFromClient ord fd r s)) = nextClientId s"
  by (cases r; simp add: parseReceivedPacket_sel)+

lemma receiveFromClient_wf:
  "net_wf s \<Longrightarrow> fd \<in> dom (um_at (fdToClientIdMap s)) \<Longrightarrow> net_wf (snd (receiveFromClient ord fd r s))"
  by (cases r) (simp_all add: parseReceivedPacket_wf)

text \<open>
  What the kernel guarantees of one event: it is for the listening socket or for a connection
  that is registered, a new connection gets a descriptor that is not in use, setting it up
  succeeds, and the counter of client ids, an \<open>int\<close>, has not reached its end.
\<close>

definition event_ok :: "NetworkServer \<Rightarrow> os_event \<Rightarrow> bool" where
  "event_ok s ev \<longleftrightarrow>
     (if ev_fd ev = serverFd s
      then ev_fcntl_ok ev \<and> ev_epoll_ok ev \<and>
           (ev_accept ev \<noteq> -1 \<longrightarrow> ev_accept ev \<noteq> serverFd s \<and>
              um_at (fdToClientIdMap s) (ev_accept ev) = None \<and> nextClientId s < INT_MAX)
      else um_at (fdToClientIdMap s) (ev_fd ev) \<noteq> None)"

text \<open>\<open>epoll_wait\<close> reports a descriptor at most once.\<close>

definition events_ok :: "NetworkServer \<Rightarrow> os_event list \<Rightarrow> bool" where
  "events_ok s evs \<longleftrightarrow> distinct (map ev_fd evs) \<and> (\<forall>ev\<in>set evs. event_ok s ev)"

lemma handle_event_total:
  assumes "net_wf s" and "event_ok s ev"
  shows "\<exists>ms' s'. handle_event ord ev (ms, s) = Inr (ms', s') \<and> net_wf s' \<and> serverFd s' = serverFd s
     \<and> (ev_fd ev \<noteq> serverFd s \<longrightarrow> fdToClientIdMap s' = fdToClientIdMap s \<and> nextClientId s' = nextClientId s)
     \<and> (\<forall>fd cid. um_at (fdToClientIdMap s) fd = Some cid \<longrightarrow> um_at (fdToClientIdMap s') fd = Some cid)
     \<and> (\<forall>m\<in>set ms'. m \<in> set ms \<or> fst m \<in> dom (um_at (clientIdToFdMap s)))
     \<and> (\<forall>cid\<in>dom (um_at (clientIdToFdMap s)). cid \<in> dom (um_at (clientIdToFdMap s')))"
proof (cases "ev_fd ev = serverFd s")
  case True
  with assms(2) have ok: "ev_fcntl_ok ev" "ev_epoll_ok ev"
    and new: "ev_accept ev \<noteq> -1 \<Longrightarrow> ev_accept ev \<noteq> serverFd s \<and> um_at (fdToClientIdMap s) (ev_accept ev) = None"
    and small: "ev_accept ev \<noteq> -1 \<Longrightarrow> nextClientId s \<noteq> INT_MAX"
    by (auto simp: event_ok_def)
  from ok small have "\<exists>s'. acceptNewClient ord ev s = Inr s'"
    by (simp add: acceptNewClient_def Let_def)
  then obtain s' where s': "acceptNewClient ord ev s = Inr s'" by blast
  with acceptNewClient_wf [OF assms(1) s' new] have "net_wf s'" by simp
  moreover have "serverFd s' = serverFd s"
    "\<forall>fd cid. um_at (fdToClientIdMap s) fd = Some cid \<longrightarrow> um_at (fdToClientIdMap s') fd = Some cid"
    "\<forall>cid\<in>dom (um_at (clientIdToFdMap s)). cid \<in> dom (um_at (clientIdToFdMap s'))"
    using s' new by (auto simp: acceptNewClient_def Let_def um_simps split: if_splits)
  ultimately show ?thesis using True s' by (auto simp: handle_event_def)
next
  case False
  with assms obtain cid where cid: "um_at (fdToClientIdMap s) (ev_fd ev) = Some cid"
    by (auto simp: event_ok_def)
  obtain frames s1 where r: "receiveFromClient ord (ev_fd ev) (ev_recv ev) s = (frames, s1)"
    by (cases "receiveFromClient ord (ev_fd ev) (ev_recv ev) s")
  have s1: "net_wf s1" "fdToClientIdMap s1 = fdToClientIdMap s" "serverFd s1 = serverFd s"
    "clientIdToFdMap s1 = clientIdToFdMap s" "nextClientId s1 = nextClientId s"
    using receiveFromClient_wf [OF assms(1), of "ev_fd ev" ord "ev_recv ev"] cid r
      receiveFromClient_sel [of ord "ev_fd ev" "ev_recv ev" s]
    by auto
  have "um_at (clientIdToFdMap s) cid = Some (ev_fd ev)" using assms(1) cid by (simp add: net_wf_def)
  with s1 cid False r show ?thesis by (auto simp: handle_event_def)
qed

lemma event_ok_later:
  assumes "event_ok s ev" and "serverFd s' = serverFd s" and "ev_fd ev \<noteq> serverFd s \<or> fdToClientIdMap s' = fdToClientIdMap s \<and> nextClientId s' = nextClientId s"
    and "\<forall>fd cid. um_at (fdToClientIdMap s) fd = Some cid \<longrightarrow> um_at (fdToClientIdMap s') fd = Some cid"
  shows "event_ok s' ev"
  using assms by (fastforce simp: event_ok_def split: if_splits)

lemma handle_step_ok:
  assumes "handle_event ord ev (ms, s) = Inr (ms1, s1)" and "net_wf s" and "events_ok s (ev # evs)"
  shows "net_wf s1 \<and> events_ok s1 evs"
proof -
  have "event_ok s ev" using assms(3) by (simp add: events_ok_def)
  from handle_event_total [OF assms(2) this, of ord ms] assms(1) have
    1: "net_wf s1" "serverFd s1 = serverFd s"
      "ev_fd ev \<noteq> serverFd s \<longrightarrow> fdToClientIdMap s1 = fdToClientIdMap s \<and> nextClientId s1 = nextClientId s"
      "\<forall>fd cid. um_at (fdToClientIdMap s) fd = Some cid \<longrightarrow> um_at (fdToClientIdMap s1) fd = Some cid" by auto
  have "event_ok s1 ev'" if "ev' \<in> set evs" for ev'
  proof (rule event_ok_later [OF _ 1(2) _ 1(4)])
    show "event_ok s ev'" using that assms(3) by (simp add: events_ok_def)
    have "ev_fd ev' \<noteq> ev_fd ev" using that assms(3)
      unfolding events_ok_def by (metis distinct.simps(2) image_eqI list.set_map list.simps(9))
    then show "ev_fd ev' \<noteq> serverFd s \<or> fdToClientIdMap s1 = fdToClientIdMap s \<and> nextClientId s1 = nextClientId s"
      using 1(3) by metis
  qed
  with 1(1) assms(3) show ?thesis by (simp add: events_ok_def)
qed

lemma handle_events_total:
  assumes "net_wf s" and "events_ok s evs" and "\<forall>m\<in>set ms. fst m \<in> dom (um_at (clientIdToFdMap s))"
  shows "\<exists>ms' s'. rfold (handle_event ord) evs (ms, s) = Inr (ms', s') \<and> net_wf s'
     \<and> (\<forall>m\<in>set ms'. fst m \<in> dom (um_at (clientIdToFdMap s')))"
  using assms
proof (induction evs arbitrary: ms s)
  case (Cons ev evs)
  then have ev: "event_ok s ev" by (simp add: events_ok_def)
  from handle_event_total [OF Cons.prems(1) ev, of ord ms] obtain ms1 s1 where
    1: "handle_event ord ev (ms, s) = Inr (ms1, s1)"
      "\<forall>m\<in>set ms1. m \<in> set ms \<or> fst m \<in> dom (um_at (clientIdToFdMap s))"
      "\<forall>cid\<in>dom (um_at (clientIdToFdMap s)). cid \<in> dom (um_at (clientIdToFdMap s1))" by blast
  have "\<forall>m\<in>set ms1. fst m \<in> dom (um_at (clientIdToFdMap s1))"
    using 1(2,3) Cons.prems(3) by blast
  with Cons.IH [of s1 ms1] handle_step_ok [OF 1(1) Cons.prems(1,2)] show ?case by (simp add: 1(1))
qed simp

section \<open>Disconnecting\<close>

lemma disconnectClient_wf:
  assumes "net_wf s" and "um_at (fdToClientIdMap s) fd = Some cid"
  shows "\<exists>s'. disconnectClient fd s = Inr s' \<and> net_wf s' \<and>
    um_at (fdToClientIdMap s') = (um_at (fdToClientIdMap s))(fd := None) \<and>
    um_at (clientIdToFdMap s') = (um_at (clientIdToFdMap s))(cid := None) \<and>
    fdsToDisconnect s' = fdsToDisconnect s \<and> nextClientId s' = nextClientId s \<and>
    serverFd s' = serverFd s \<and> sentFrames s' = sentFrames s"
proof -
  let ?s = "s\<lparr>clientIdToFdMap := um_erase cid (clientIdToFdMap s),
      fdToClientIdMap := um_erase fd (fdToClientIdMap s),
      fdToBufferMap := um_erase fd (fdToBufferMap s)\<rparr>"
  from assms have cid: "um_at (clientIdToFdMap s) cid = Some fd" by (simp add: net_wf_def)
  from assms have "disconnectClient fd s = Inr ?s" by (simp add: disconnectClient_def)
  moreover have "net_wf ?s"
    using assms cid by (auto simp: net_wf_def um_simps um.wf_erase)
      (metis option.inject)
  ultimately show ?thesis by (simp add: um_simps)
qed

lemma map_filter_forget:
  "fd \<notin> set fds \<Longrightarrow> List.map_filter (f(fd := None)) fds = List.map_filter f fds"
  by (induction fds) (auto simp: List.map_filter_simps split: option.splits)

lemma drain_loop:
  assumes "net_wf s" and "distinct fds"
  shows "\<exists>s'. rfold drain_one fds (ids, s) =
       Inr (ids @ List.map_filter (um_at (fdToClientIdMap s)) fds, s') \<and> net_wf s' \<and>
     (\<forall>fd. um_at (fdToClientIdMap s') fd = (if fd \<in> set fds then None else um_at (fdToClientIdMap s) fd)) \<and>
     fdsToDisconnect s' = fdsToDisconnect s \<and> nextClientId s' = nextClientId s \<and>
     serverFd s' = serverFd s \<and> sentFrames s' = sentFrames s"
  using assms
proof (induction fds arbitrary: ids s)
  case Nil
  then show ?case by (simp add: List.map_filter_simps)
next
  case (Cons fd fds)
  show ?case
  proof (cases "um_at (fdToClientIdMap s) fd")
    case None
    with Cons.IH [OF Cons.prems(1), of ids] Cons.prems(2) show ?thesis
      by (auto simp: drain_one_def List.map_filter_simps)
  next
    case (Some cid)
    from disconnectClient_wf [OF Cons.prems(1) Some] obtain s1 where s1:
      "disconnectClient fd s = Inr s1" "net_wf s1"
      "um_at (fdToClientIdMap s1) = (um_at (fdToClientIdMap s))(fd := None)"
      "fdsToDisconnect s1 = fdsToDisconnect s" "nextClientId s1 = nextClientId s"
      "serverFd s1 = serverFd s" "sentFrames s1 = sentFrames s"
      by blast
    have "List.map_filter (um_at (fdToClientIdMap s1)) fds = List.map_filter (um_at (fdToClientIdMap s)) fds"
      using Cons.prems(2) by (simp add: s1(3) map_filter_forget)
    with Cons.IH [OF s1(2), of "ids @ [cid]"] Cons.prems(2) obtain s' where s':
      "rfold drain_one fds (ids @ [cid], s1) =
         Inr ((ids @ [cid]) @ List.map_filter (um_at (fdToClientIdMap s)) fds, s')" "net_wf s'"
      "\<forall>fd. um_at (fdToClientIdMap s') fd = (if fd \<in> set fds then None else um_at (fdToClientIdMap s1) fd)"
      "fdsToDisconnect s' = fdsToDisconnect s1" "nextClientId s' = nextClientId s1"
      "serverFd s' = serverFd s1" "sentFrames s' = sentFrames s1"
      by auto
    have "drain_one fd (ids, s) = Inr (ids @ [cid], s1)" using Some s1(1) by (simp add: drain_one_def)
    with s' Some s1 show ?thesis by (intro exI [of _ s']) simp
  qed
qed

lemma drainDisconnects_wf:
  assumes "net_wf s"
  shows "\<exists>s'. drainDisconnects s =
       Inr (List.map_filter (um_at (fdToClientIdMap s)) (fdsToDisconnect s), s') \<and> net_wf s' \<and>
     (\<forall>fd. um_at (fdToClientIdMap s') fd =
        (if fd \<in> set (fdsToDisconnect s) then None else um_at (fdToClientIdMap s) fd)) \<and>
     fdsToDisconnect s' = [] \<and> nextClientId s' = nextClientId s \<and>
     serverFd s' = serverFd s \<and> sentFrames s' = sentFrames s"
proof -
  from assms have "distinct (fdsToDisconnect s)" by (simp add: net_wf_def)
  from drain_loop [OF assms this, of "[]"] obtain s' where s':
    "rfold drain_one (fdsToDisconnect s) ([], s) =
       Inr (List.map_filter (um_at (fdToClientIdMap s)) (fdsToDisconnect s), s')" "net_wf s'"
    "\<forall>fd. um_at (fdToClientIdMap s') fd =
       (if fd \<in> set (fdsToDisconnect s) then None else um_at (fdToClientIdMap s) fd)"
    "nextClientId s' = nextClientId s" "serverFd s' = serverFd s" "sentFrames s' = sentFrames s"
    by auto
  then show ?thesis
    by (intro exI [of _ "s'\<lparr>fdsToDisconnect := []\<rparr>"]) (simp add: drainDisconnects_def net_wf_def)
qed

section \<open>Sending\<close>

definition send_failed :: "int \<Rightarrow> bytes \<Rightarrow> bool" where
  "send_failed r frame \<longleftrightarrow> 0 \<le> r \<and> r < int (length frame) \<or> r = -1"

lemma networkSend_eq:
  "networkSend ord snd_res fd bs s =
     (let s1 = s\<lparr>sentFrames := sentFrames s @ [(fd, make_frame bs)]\<rparr>
      in if send_failed (snd_res fd (make_frame bs)) (make_frame bs) then mark_disconnect ord fd s1 else s1)"
  by (simp add: networkSend_def send_failed_def Let_def)

lemma networkSend_sel [simp]:
  "fdToClientIdMap (networkSend ord snd_res fd bs s) = fdToClientIdMap s"
  "clientIdToFdMap (networkSend ord snd_res fd bs s) = clientIdToFdMap s"
  "serverFd (networkSend ord snd_res fd bs s) = serverFd s"
  "nextClientId (networkSend ord snd_res fd bs s) = nextClientId s"
  "fdToBufferMap (networkSend ord snd_res fd bs s) = fdToBufferMap s"
  "sentFrames (networkSend ord snd_res fd bs s) = sentFrames s @ [(fd, make_frame bs)]"
  "set (fdsToDisconnect (networkSend ord snd_res fd bs s)) =
     (if send_failed (snd_res fd (make_frame bs)) (make_frame bs)
      then insert fd (set (fdsToDisconnect s)) else set (fdsToDisconnect s))"
  by (simp_all add: networkSend_eq Let_def)

lemma networkSend_wf [simp]: "net_wf s \<Longrightarrow> net_wf (networkSend ord snd_res fd bs s)"
proof -
  assume "net_wf s"
  then have "net_wf (s\<lparr>sentFrames := fs\<rparr>)" for fs by (simp add: net_wf_def)
  then show ?thesis by (simp add: networkSend_eq Let_def)
qed

lemma broadcast_fold:
  "let s' = fold (\<lambda>(fd, cid). networkSend ord snd_res fd bs) es s in
     fdToClientIdMap s' = fdToClientIdMap s \<and> clientIdToFdMap s' = clientIdToFdMap s \<and>
     sentFrames s' = sentFrames s @ map (\<lambda>e. (fst e, make_frame bs)) es \<and>
     (net_wf s \<longrightarrow> net_wf s') \<and>
     set (fdsToDisconnect s') = set (fdsToDisconnect s) \<union>
       {fd \<in> fst ` set es. send_failed (snd_res fd (make_frame bs)) (make_frame bs)}"
proof (induction es arbitrary: s)
  case Nil
  then show ?case by simp
next
  case (Cons e es)
  show ?case
    using Cons.IH [of "networkSend ord snd_res (fst e) bs s"]
    by (auto simp: Let_def split_beta)
qed

lemmas net_broadcast_facts =
  broadcast_fold [of ord snd_res bs "fdToClientIdMap s" s, folded net_broadcast_def, unfolded Let_def]
  for ord snd_res bs s

section \<open>What draining removes\<close>

lemma net_wf_at_iff:
  "net_wf s \<Longrightarrow> um_at (fdToClientIdMap s) fd = Some cid \<longleftrightarrow> um_at (clientIdToFdMap s) cid = Some fd"
  by (simp add: net_wf_def)

lemma set_map_filter: "set (List.map_filter f xs) = {y. \<exists>x\<in>set xs. f x = Some y}"
  by (force simp: List.map_filter_def)

lemma distinct_option_filter:
  assumes "distinct xs" and "\<And>x x' y. x \<in> set xs \<Longrightarrow> x' \<in> set xs \<Longrightarrow> f x = Some y \<Longrightarrow> f x' = Some y \<Longrightarrow> x = x'"
  shows "distinct (List.map_filter f xs)"
  using assms
proof (induction xs)
  case Nil
  then show ?case by (simp add: List.map_filter_simps)
next
  case (Cons x xs)
  from Cons.prems have "distinct (List.map_filter f xs)" by (intro Cons.IH) auto
  moreover have "y \<notin> set (List.map_filter f xs)" if "f x = Some y" for y
    using Cons.prems that by (fastforce simp: set_map_filter)
  ultimately show ?case by (simp add: List.map_filter_simps split: option.splits)
qed

lemma drainDisconnects_exact:
  assumes "net_wf s"
  shows "\<exists>cids s'. drainDisconnects s = Inr (cids, s') \<and> net_wf s' \<and> fdsToDisconnect s' = [] \<and>
     distinct cids \<and>
     set cids = {cid. \<exists>fd\<in>set (fdsToDisconnect s). um_at (clientIdToFdMap s) cid = Some fd} \<and>
     um_at (clientIdToFdMap s') = (um_at (clientIdToFdMap s)) |` (- set cids)"
proof -
  let ?cids = "List.map_filter (um_at (fdToClientIdMap s)) (fdsToDisconnect s)"
  from drainDisconnects_wf [OF assms] obtain s' where s': "drainDisconnects s = Inr (?cids, s')" "net_wf s'"
    "\<forall>fd. um_at (fdToClientIdMap s') fd =
        (if fd \<in> set (fdsToDisconnect s) then None else um_at (fdToClientIdMap s) fd)"
    "fdsToDisconnect s' = []" by blast
  have set: "set ?cids = {cid. \<exists>fd\<in>set (fdsToDisconnect s). um_at (clientIdToFdMap s) cid = Some fd}"
    by (simp add: set_map_filter net_wf_at_iff [OF assms])
  have "distinct ?cids"
    using assms net_wf_inj [OF assms] by (intro distinct_option_filter) (auto simp: net_wf_def)
  moreover have "um_at (clientIdToFdMap s') cid = ((um_at (clientIdToFdMap s)) |` (- set ?cids)) cid" for cid
  proof -
    have "um_at (clientIdToFdMap s') cid = Some fd \<longleftrightarrow>
        ((um_at (clientIdToFdMap s)) |` (- set ?cids)) cid = Some fd" for fd
    proof -
    have "um_at (clientIdToFdMap s') cid = Some fd \<longleftrightarrow>
        um_at (fdToClientIdMap s') fd = Some cid" using net_wf_at_iff [OF s'(2)] by blast
    also have "\<dots> \<longleftrightarrow> fd \<notin> set (fdsToDisconnect s) \<and> um_at (clientIdToFdMap s) cid = Some fd"
      using s'(3) net_wf_at_iff [OF assms] by auto
    also have "\<dots> \<longleftrightarrow> ((um_at (clientIdToFdMap s)) |` (- set ?cids)) cid = Some fd"
      unfolding set by (auto simp: restrict_map_def)
    finally show ?thesis .
    qed
    then show ?thesis by (metis not_Some_eq)
  qed
  ultimately show ?thesis using s' set by (intro exI [of _ ?cids] exI [of _ s']) auto
qed

section \<open>All runs of the network layer\<close>

text \<open>The public operations, in any order and with any result the kernel may give.\<close>

inductive net_step :: "int iter_order \<Rightarrow> NetworkServer \<Rightarrow> NetworkServer \<Rightarrow> bool" for ord where
  poll: "net_pollMessages ord evs s = Inr (messages, s') \<Longrightarrow> events_ok s evs \<Longrightarrow> net_step ord s s'"
| drain: "drainDisconnects s = Inr (cids, s') \<Longrightarrow> net_step ord s s'"
| send: "sendToClient ord snd_res cid bs s = Inr s' \<Longrightarrow> net_step ord s s'"
| broadcast: "net_step ord s (net_broadcast ord snd_res bs s)"

text \<open>
  \<open>ids_stable\<close>: the id counter never goes back, and a connected client either had the same id on
  the same descriptor before or has an id that was not yet handed out.
\<close>

definition ids_stable :: "NetworkServer \<Rightarrow> NetworkServer \<Rightarrow> bool" where
  "ids_stable s s' \<longleftrightarrow> nextClientId s \<le> nextClientId s' \<and>
     (\<forall>cid fd. um_at (clientIdToFdMap s') cid = Some fd \<longrightarrow>
        um_at (clientIdToFdMap s) cid = Some fd \<or> nextClientId s \<le> cid)"

lemma ids_stable_refl: "ids_stable s s"
  by (simp add: ids_stable_def)

lemma ids_stable_trans: "ids_stable s s' \<Longrightarrow> ids_stable s' s'' \<Longrightarrow> ids_stable s s''"
  unfolding ids_stable_def by (meson order_trans)

lemma ids_stable_same:
  "nextClientId s' = nextClientId s \<Longrightarrow> clientIdToFdMap s' = clientIdToFdMap s \<Longrightarrow> ids_stable s s'"
  by (simp add: ids_stable_def)

lemma handle_event_stable: "handle_event ord ev (ms, s) = Inr (ms', s') \<Longrightarrow> ids_stable s s'"
proof (cases "ev_fd ev = serverFd s")
  case True
  assume "handle_event ord ev (ms, s) = Inr (ms', s')"
  with True have "acceptNewClient ord ev s = Inr s'" by (auto simp: handle_event_def rbind_eq_Inr)
  then show ?thesis
    by (auto simp: acceptNewClient_def Let_def ids_stable_def um_simps split: if_splits)
next
  case False
  assume h: "handle_event ord ev (ms, s) = Inr (ms', s')"
  obtain fs s1 where r: "receiveFromClient ord (ev_fd ev) (ev_recv ev) s = (fs, s1)"
    by (cases "receiveFromClient ord (ev_fd ev) (ev_recv ev) s")
  with h False have "s' = s1" by (auto simp: handle_event_def split: if_splits option.splits)
  with receiveFromClient_sel [of ord "ev_fd ev" "ev_recv ev" s] r show ?thesis
    by (simp add: ids_stable_same)
qed

lemma net_pollMessages_stable:
  "net_pollMessages ord evs s = Inr (ms, s') \<Longrightarrow> ids_stable s s'"
proof -
  assume "net_pollMessages ord evs s = Inr (ms, s')"
  then have "rfold (handle_event ord) evs ([], s) = Inr (ms, s')"
    by (auto simp: net_pollMessages_def rbind_eq_Inr)
  then have "ids_stable s (snd (ms, s'))"
    by (rule rfold_preserves)
      (auto simp: ids_stable_refl dest!: handle_event_stable elim: ids_stable_trans)
  then show ?thesis by simp
qed

lemma drainDisconnects_stable:
  "drainDisconnects s = Inr (cids, s') \<Longrightarrow> ids_stable s s'"
proof -
  assume "drainDisconnects s = Inr (cids, s')"
  then obtain s1 where r: "rfold drain_one (fdsToDisconnect s) ([], s) = Inr (cids, s1)"
    and s': "s' = s1\<lparr>fdsToDisconnect := []\<rparr>"
    by (auto simp: drainDisconnects_def rbind_eq_Inr)
  have one: "ids_stable a b" if "drain_one fd (x, a) = Inr (y, b)" for fd x y a b
    using that by (auto simp: drain_one_def disconnectClient_def rbind_eq_Inr ids_stable_def um_simps
        split: option.splits if_splits)
  from r have "ids_stable s (snd (cids, s1))"
    by (rule rfold_preserves) (auto simp: ids_stable_refl dest!: one elim: ids_stable_trans)
  then show ?thesis by (simp add: s' ids_stable_def)
qed

lemma net_pollMessages_total:
  assumes "net_wf s" and "fdsToDisconnect s = []" and "events_ok s evs"
  shows "\<exists>ms s'. net_pollMessages ord evs s = Inr (ms, s') \<and> net_wf s' \<and>
     (\<forall>m\<in>set ms. fst m \<in> dom (um_at (clientIdToFdMap s')))"
  using handle_events_total [OF assms(1,3), of "[]" ord] assms(2)
  by (auto simp: net_pollMessages_def)

text \<open>Polling never takes a connection away.\<close>

lemma net_pollMessages_keeps:
  assumes "net_pollMessages ord evs s = Inr (ms, s')"
  shows "dom (um_at (clientIdToFdMap s)) \<subseteq> dom (um_at (clientIdToFdMap s'))"
proof -
  have step: "dom (um_at (clientIdToFdMap b)) \<subseteq> dom (um_at (clientIdToFdMap d))"
    if "handle_event ord ev (a, b) = Inr (c, d)" for ev a b c d
  proof -
    have "clientIdToFdMap t = clientIdToFdMap b" if "receiveFromClient ord (ev_fd ev) (ev_recv ev) b = (fs, t)" for fs t
      using that receiveFromClient_sel(2) [of ord "ev_fd ev" "ev_recv ev" b] by simp
    with that show ?thesis
      by (auto simp: handle_event_def acceptNewClient_def Let_def rbind_eq_Inr um_at_set
          split: if_splits prod.splits option.splits)
  qed
  have "rfold (handle_event ord) evs ([], s) = Inr (ms, s')"
    using assms by (auto simp: net_pollMessages_def rbind_eq_Inr)
  then have "dom (um_at (clientIdToFdMap s)) \<subseteq> dom (um_at (clientIdToFdMap (snd (ms, s'))))"
    by (rule rfold_preserves) (use step in \<open>fastforce+\<close>)
  then show ?thesis by simp
qed

text \<open>A frame is attributed to the client that holds the descriptor it was received on.\<close>

lemma handle_event_keeps:
  assumes "handle_event ord ev (ms, s) = Inr (ms', s')" and "event_ok s ev"
    and "um_at (fdToClientIdMap s) fd = Some cid"
  shows "um_at (fdToClientIdMap s') fd = Some cid"
  using assms receiveFromClient_sel(1) [of ord "ev_fd ev" "ev_recv ev" s]
  by (auto simp: handle_event_def acceptNewClient_def event_ok_def Let_def rbind_eq_Inr um_at_set split_beta
      split: if_splits option.splits)

lemma handle_event_from:
  assumes "handle_event ord ev (ms, s) = Inr (ms', s')" and "m \<in> set ms'"
  shows "m \<in> set ms \<or> um_at (fdToClientIdMap s') (ev_fd ev) = Some (fst m)"
  using assms by (auto simp: handle_event_def Let_def rbind_eq_Inr split: if_splits prod.splits option.splits)

lemma handle_events_keep:
  assumes "rfold (handle_event ord) evs (ms, s) = Inr (ms', s')" and "net_wf s" and "events_ok s evs"
    and "um_at (fdToClientIdMap s) fd = Some cid"
  shows "um_at (fdToClientIdMap s') fd = Some cid"
  using assms
proof (induction evs arbitrary: ms s)
  case (Cons ev evs)
  from Cons.prems(1) obtain ms1 s1 where one: "handle_event ord ev (ms, s) = Inr (ms1, s1)"
    and rest: "rfold (handle_event ord) evs (ms1, s1) = Inr (ms', s')"
    by (auto simp: rbind_eq_Inr)
  from handle_step_ok [OF one Cons.prems(2,3)] have s1: "net_wf s1" "events_ok s1 evs" by auto
  have "event_ok s ev" using Cons.prems(3) by (simp add: events_ok_def)
  from handle_event_keeps [OF one this Cons.prems(4)] show ?case by (rule Cons.IH [OF rest s1])
qed simp

lemma polled_from:
  assumes "rfold (handle_event ord) evs (ms, s) = Inr (ms', s')" and "net_wf s" and "events_ok s evs" and "m \<in> set ms'"
  shows "m \<in> set ms \<or> (\<exists>ev\<in>set evs. um_at (fdToClientIdMap s') (ev_fd ev) = Some (fst m))"
  using assms
proof (induction evs arbitrary: ms s)
  case (Cons ev evs)
  from Cons.prems(1) obtain ms1 s1 where one: "handle_event ord ev (ms, s) = Inr (ms1, s1)"
    and rest: "rfold (handle_event ord) evs (ms1, s1) = Inr (ms', s')"
    by (auto simp: rbind_eq_Inr)
  from handle_step_ok [OF one Cons.prems(2,3)] have s1: "net_wf s1" "events_ok s1 evs" by auto
  from Cons.IH [OF rest s1 Cons.prems(4)] handle_event_from [OF one, of m] handle_events_keep [OF rest s1, of "ev_fd ev" "fst m"]
  show ?case by auto
qed simp

text \<open>Frames that were received fit the limit.\<close>

lemma receiveFromClient_frames:
  "receiveFromClient ord fd r s = (fs, s') \<Longrightarrow> f \<in> set fs \<Longrightarrow> length f \<le> SERVER_RECV_MAX_MESSAGE_SIZE"
  by (cases r) (auto simp: parseReceivedPacket_def Let_def split: prod.splits dest!: parse_loop_sound)

lemma net_pollMessages_frames:
  assumes "net_pollMessages ord evs s = Inr (ms, s')"
  shows "\<forall>m\<in>set ms. length (snd m) \<le> SERVER_RECV_MAX_MESSAGE_SIZE"
proof -
  let ?I = "\<lambda>st. \<forall>m\<in>set (fst st). length (snd m) \<le> SERVER_RECV_MAX_MESSAGE_SIZE"
  have "rfold (handle_event ord) evs ([], s) = Inr (ms, s')"
    using assms by (auto simp: net_pollMessages_def rbind_eq_Inr)
  then have "?I (ms, s')"
    by (rule rfold_preserves)
      (fastforce simp: handle_event_def rbind_eq_Inr Let_def split: if_splits prod.splits option.splits
        dest: receiveFromClient_frames)+
  then show ?thesis by simp
qed

interpretation network: invariant_system "net_step ord" net_wf ids_stable
  for ord :: "int iter_order"
proof unfold_locales
  fix s s' assume wf: "net_wf s" and "net_step ord s s'"
  from this(2) show "net_wf s'"
  proof (cases rule: net_step.cases)
    case (poll evs messages)
    then have "fdsToDisconnect s = []" by (auto simp: net_pollMessages_def guard_or_def split: if_splits)
    from net_pollMessages_total [OF wf this poll(2), of ord] poll(1) show ?thesis by auto
  next
    case (drain cids)
    with drainDisconnects_wf [OF wf] show ?thesis by auto
  next
    case (send snd_res cid bs)
    with wf show ?thesis by (auto simp: sendToClient_def split: option.splits)
  next
    case (broadcast snd_res bs)
    with wf net_broadcast_facts [of ord snd_res bs s] show ?thesis by simp
  qed
next
  fix s s' assume "net_wf s" and "net_step ord s s'"
  from this(2) show "ids_stable s s'"
  proof (cases rule: net_step.cases)
    case (send snd_res cid bs)
    then show ?thesis by (auto simp: sendToClient_def intro!: ids_stable_same split: option.splits)
  next
    case (broadcast snd_res bs)
    have "nextClientId (net_broadcast ord snd_res bs s) = nextClientId s"
      unfolding net_broadcast_def by (rule fold_invariant [where P = "\<lambda>t. nextClientId t = nextClientId s"
            and Q = "\<lambda>_. True"]) auto
    with broadcast net_broadcast_facts [of ord snd_res bs s] show ?thesis by (simp add: ids_stable_same)
  qed (auto intro: net_pollMessages_stable drainDisconnects_stable)
qed (auto intro: ids_stable_refl ids_stable_trans)

section \<open>Properties\<close>

text \<open>
  C17: The connection tables are always consistent. In every state that polling, draining, sending
  and broadcasting can reach from a fresh server, in any order and with any failures of \<open>recv\<close>,
  \<open>send\<close> and \<open>accept\<close>, the maps between descriptors and client ids are inverse to each other,
  exactly the connected descriptors have a buffer, and all ids are below the counter.
\<close>

theorem network_consistent:
  assumes "(net_step ord)\<^sup>*\<^sup>* (NetworkServer_new fd) s"
  shows "net_wf s"
  using assms net_wf_new by (rule network.reachable_inv)

definition accept_event :: "int \<Rightarrow> int \<Rightarrow> os_event" where
  "accept_event listener fd =
     \<lparr>ev_fd = listener, ev_accept = fd, ev_fcntl_ok = True, ev_epoll_ok = True, ev_recv = RecvAgain\<rparr>"

definition one_client :: NetworkServer where
  "one_client = \<lparr>serverFd = 3, nextClientId = 2, fdToClientIdMap = [(7, 1)], clientIdToFdMap = [(1, 7)],
     fdToBufferMap = [(7, [])], fdsToDisconnect = [], sentFrames = []\<rparr>"

lemma poll_one_client:
  "net_pollMessages newest_first [accept_event 3 7] (NetworkServer_new 3) = Inr ([], one_client)"
  by (simp add: net_pollMessages_def NetworkServer_new_def handle_event_def accept_event_def
      acceptNewClient_def Let_def um_set_def um_contains_def um_insert_new_def um_keys_def one_client_def INT_MAX_def)

lemma step_one_client: "net_step newest_first (NetworkServer_new 3) one_client"
  by (rule net_step.poll [OF poll_one_client])
    (simp add: events_ok_def event_ok_def accept_event_def NetworkServer_new_def INT_MAX_def)

theorem network_consistent_witness: "net_wf one_client"
  by (rule network_consistent [of newest_first 3]) (blast intro: step_one_client)



text \<open>
  C20: Polling never throws. If no descriptor awaits disconnection and the kernel reports sound
  events, polling returns; every frame it returns is within the limit and belongs to a client
  that is still connected, so the answer can be sent.
\<close>

theorem polling_total:
  assumes "net_wf s" and "fdsToDisconnect s = []" and "events_ok s evs"
  shows "\<exists>messages s'. net_pollMessages ord evs s = Inr (messages, s') \<and> net_wf s' \<and>
     (\<forall>(cid, frame)\<in>set messages. um_contains (clientIdToFdMap s') cid \<and>
        length frame \<le> SERVER_RECV_MAX_MESSAGE_SIZE)"
proof -
  from net_pollMessages_total [OF assms, of ord] obtain ms s' where
    p: "net_pollMessages ord evs s = Inr (ms, s')" "net_wf s'"
      "\<forall>m\<in>set ms. fst m \<in> dom (um_at (clientIdToFdMap s'))" by blast
  with net_pollMessages_frames [OF p(1)] show ?thesis
    by (auto simp: um_contains_def domIff)
qed

theorem polling_total_witness:
  "\<exists>messages s'. net_pollMessages newest_first [accept_event 3 8] one_client = Inr (messages, s') \<and> net_wf s'"
proof -
  have "net_wf one_client" by (rule network.reachable_inv [OF _ net_wf_new]) (blast intro: step_one_client)
  moreover have "fdsToDisconnect one_client = []" "events_ok one_client [accept_event 3 8]"
    by (simp_all add: one_client_def events_ok_def event_ok_def accept_event_def um_at_def INT_MAX_def)
  ultimately show ?thesis using polling_total [of one_client "[accept_event 3 8]" newest_first] by blast
qed

text \<open>
  C21: Draining is exact. \<open>drainDisconnects\<close> never fails its assertion: it returns the client ids
  of exactly the marked descriptors that are still connected, removes these connections from
  all tables and no other, and leaves no mark behind.
\<close>

theorem draining_exact:
  assumes "net_wf s"
  shows "\<exists>cids s'. drainDisconnects s = Inr (cids, s') \<and> net_wf s' \<and> fdsToDisconnect s' = [] \<and>
     distinct cids \<and>
     set cids = {cid. \<exists>fd\<in>set (fdsToDisconnect s). um_at (clientIdToFdMap s) cid = Some fd} \<and>
     um_at (clientIdToFdMap s') = (um_at (clientIdToFdMap s)) |` (- set cids)"
  using drainDisconnects_exact [OF assms] by blast

theorem draining_exact_witness:
  "\<exists>cids s'. drainDisconnects (mark_disconnect newest_first 7 one_client) = Inr (cids, s') \<and> set cids = {1}"
proof -
  have "net_wf one_client" by (rule network.reachable_inv [OF _ net_wf_new]) (blast intro: step_one_client)
  then have "net_wf (mark_disconnect newest_first 7 one_client)" by simp
  from draining_exact [OF this] show ?thesis
    by (auto simp: one_client_def um_at_def split: if_splits)
qed

text \<open>
  C27: A failed send between polls kills the server. A broadcast in which \<open>send\<close> fails or is cut
  short for some connected client leaves that descriptor marked, and the next poll of the network
  fails its assertion, whatever the events are: the connection is never drained first, because
  the server drains only after polling.
\<close>

theorem failed_broadcast_fails_assertion:
  assumes "um_at (fdToClientIdMap s) fd = Some cid" and "snd_res fd (make_frame bs) = -1"
  shows "net_pollMessages ord evs (net_broadcast ord snd_res bs s) = Inl AssertionFailed"
proof -
  have "fd \<in> fst ` set (fdToClientIdMap s)"
    using assms(1) by (metis image_eqI map_of_SomeD fst_conv um_at_def)
  moreover have "send_failed (snd_res fd (make_frame bs)) (make_frame bs)"
    using assms(2) by (simp add: send_failed_def)
  ultimately have "fd \<in> set (fdsToDisconnect (net_broadcast ord snd_res bs s))"
    using net_broadcast_facts [of ord snd_res bs s] by blast
  then have "fdsToDisconnect (net_broadcast ord snd_res bs s) \<noteq> []" by auto
  then show ?thesis by (simp add: net_pollMessages_def)
qed

theorem failed_broadcast_fails_assertion_witness:
  "net_pollMessages newest_first [] (net_broadcast newest_first (\<lambda>_ _. -1) [1, 2] one_client) = Inl AssertionFailed"
  by (rule failed_broadcast_fails_assertion [where fd = 7 and cid = 1])
    (simp_all add: one_client_def um_at_def)

end
