(* ===== verification/Server_Pass.thy ===== *)
theory Server_Pass
  imports Server_Log NetworkServer_Laws
begin

text \<open>
  One pass of the server's loop, and the loop: the phases of \<open>run\<close> in their order keep the
  invariants of engine and network, and return unless the environment breaks one of the
  conditions named here (\<open>tick_ok\<close>: sound kernel events, well-formed frames, terminated user
  names, sends that succeed; \<open>draws_escape\<close>: random numbers that do not keep hitting food).
\<close>

section \<open>Replacing food\<close>

text \<open>
  What termination of \<open>replaceFood\<close> needs of the generator: from any of its states, drawing cells
  finally hits one outside any given set of fewer than \<open>MIN_FOOD_IN_ARENA\<close> cells.
\<close>

definition draw_cell :: "'g env \<Rightarrow> int \<Rightarrow> int \<Rightarrow> 'g \<Rightarrow> cell \<times> 'g" where
  "draw_cell env w h g =
     (if x_first env
      then let (x, g1) = draw (rng env) 1 (w - 1) g; (y, g2) = draw (rng env) 1 (h - 1) g1 in ((x, y), g2)
      else let (y, g1) = draw (rng env) 1 (h - 1) g; (x, g2) = draw (rng env) 1 (w - 1) g1 in ((x, y), g2))"

definition nth_cell :: "'g env \<Rightarrow> int \<Rightarrow> int \<Rightarrow> 'g \<Rightarrow> nat \<Rightarrow> cell" where
  "nth_cell env w h g n = fst (draw_cell env w h (((\<lambda>g. snd (draw_cell env w h g)) ^^ n) g))"

definition draws_escape :: "'g env \<Rightarrow> int \<Rightarrow> int \<Rightarrow> bool" where
  "draws_escape env w h \<longleftrightarrow>
     (\<forall>g X. finite X \<and> card X < MIN_FOOD_IN_ARENA \<longrightarrow> (\<exists>n. nth_cell env w h g n \<notin> X))"

lemma placeFood_draw:
  "placeFood env s = (let (c, g) = draw_cell env (width s) (height s) (gen s) in
     placeFoodAt env (fst c) (snd c) Color_WHITE (s\<lparr>gen := g\<rparr>))"
  by (simp add: placeFood_def draw_cell_def split: prod.splits)

lemma placeFood_sel:
  "width (placeFood env s) = width s" "height (placeFood env s) = height s"
  "clientIdToPlayerMap (placeFood env s) = clientIdToPlayerMap s"
  "network (placeFood env s) = network s" "replayFile (placeFood env s) = replayFile s"
  "currentSequence (placeFood env s) = currentSequence s" "timer (placeFood env s) = timer s"
  "msgLog (placeFood env s) = msgLog s"
  "gen (placeFood env s) = snd (draw_cell env (width s) (height s) (gen s))"
  by (simp_all add: placeFood_draw placeFoodAt_def split: prod.splits)

lemma placeFood_foods:
  assumes "um_wf (foodMap s)"
  shows "um_wf (foodMap (placeFood env s))"
    and "set (um_keys (foodMap (placeFood env s))) =
      insert (fst (draw_cell env (width s) (height s) (gen s))) (set (um_keys (foodMap s)))"
  using assms by (simp_all add: placeFood_draw placeFoodAt_def um_wf_set um.set_keys_put split: prod.splits)

lemma card_um_keys: "um_wf m \<Longrightarrow> card (set (um_keys m)) = length m"
  by (metis distinct_card length_um_keys um_wf_def)

text \<open>Everything but food and generator is untouched; the food only grows.\<close>

definition restocked :: "'g SnakeServer \<Rightarrow> 'g SnakeServer \<Rightarrow> bool" where
  "restocked s s' \<longleftrightarrow> s' = s\<lparr>gen := gen s', foodMap := foodMap s'\<rparr>"

lemma restocked_refl: "restocked s s"
  by (simp add: restocked_def)

lemma restocked_placeFood: "restocked (placeFood env s) s' \<Longrightarrow> restocked s s'"
  by (simp add: restocked_def placeFood_draw placeFoodAt_def split: prod.splits)

lemma restocked_once: "restocked s (placeFood env s)"
  by (rule restocked_placeFood) (rule restocked_refl)

lemma nth_cell_Suc:
  "nth_cell env w h g (Suc n) = nth_cell env w h (snd (draw_cell env w h g)) n"
  by (simp only: nth_cell_def funpow_Suc_right comp_apply)

text \<open>Calling \<open>placeFood\<close> until the food has grown.\<close>

lemma replaceFood_grows:
  assumes "engine_inv s" and "length (foodMap s) < MIN_FOOD_IN_ARENA"
    and "nth_cell env (width s) (height s) (gen s) n \<notin> set (um_keys (foodMap s))"
  shows "\<exists>t. replaceFood env s = replaceFood env t \<and> engine_inv t \<and> restocked s t \<and>
     length (foodMap t) = Suc (length (foodMap s))"
  using assms
proof (induction n arbitrary: s)
  case (0 s)
  have wf: "um_wf (foodMap s)" using engine_wfD(2) [OF engine_invD [OF 0(1)]] .
  have "length (foodMap (placeFood env s)) = Suc (length (foodMap s))"
    using placeFood_foods [OF wf, of env] 0(3) card_um_keys [OF wf]
      card_um_keys [OF placeFood_foods(1) [OF wf, of env]]
    by (simp add: nth_cell_def)
  with 0 placeFood_inv [OF 0(1)] restocked_once
  show ?case by (intro exI [of _ "placeFood env s"]) (simp add: replaceFood.simps [of env s])
next
  case (Suc n s)
  have wf: "um_wf (foodMap s)" using engine_wfD(2) [OF engine_invD [OF Suc.prems(1)]] .
  let ?t = "placeFood env s" and ?c = "fst (draw_cell env (width s) (height s) (gen s))"
  have step: "replaceFood env s = replaceFood env ?t"
    using Suc.prems(2) by (simp add: replaceFood.simps [of env s])
  have keys: "set (um_keys (foodMap ?t)) = insert ?c (set (um_keys (foodMap s)))"
    by (rule placeFood_foods(2) [OF wf])
  have len: "length (foodMap ?t) = card (set (um_keys (foodMap ?t)))"
    by (rule card_um_keys [symmetric]) (rule placeFood_foods(1) [OF wf])
  show ?case
  proof (cases "?c \<in> set (um_keys (foodMap s))")
    case True
    then have same: "length (foodMap ?t) = length (foodMap s)" "set (um_keys (foodMap ?t)) = set (um_keys (foodMap s))"
      unfolding len keys by (simp_all add: insert_absorb card_um_keys [OF wf])
    have "nth_cell env (width ?t) (height ?t) (gen ?t) n \<notin> set (um_keys (foodMap ?t))"
      using Suc.prems(3) same by (simp add: placeFood_sel nth_cell_Suc)
    from Suc.IH [OF placeFood_inv [OF Suc.prems(1)] _ this] Suc.prems(2) same step
    show ?thesis by (auto intro: restocked_placeFood)
  next
    case False
    then have "length (foodMap ?t) = Suc (length (foodMap s))"
      unfolding len keys by (simp add: card_um_keys [OF wf])
    with step Suc.prems show ?thesis
      by (intro exI [of _ ?t]) (simp add: placeFood_inv restocked_once)
  qed
qed

lemma restocked_trans: "restocked s t \<Longrightarrow> restocked t u \<Longrightarrow> restocked s u"
proof -
  assume "restocked s t" "restocked t u"
  then have 1: "t = s\<lparr>gen := gen t, foodMap := foodMap t\<rparr>" and 2: "u = t\<lparr>gen := gen u, foodMap := foodMap u\<rparr>"
    by (simp_all add: restocked_def)
  have "u = s\<lparr>gen := gen u, foodMap := foodMap u\<rparr>" by (subst 2, subst 1) simp
  then show ?thesis by (simp only: restocked_def)
qed

lemma restocked_sel:
  assumes "restocked s t"
  shows "width t = width s" "height t = height s" "clientIdToPlayerMap t = clientIdToPlayerMap s"
    "network t = network s" "replayFile t = replayFile s" "currentSequence t = currentSequence s"
    "timer t = timer s" "msgLog t = msgLog s"
proof -
  from assms obtain g fm where "t = s\<lparr>gen := g, foodMap := fm\<rparr>" unfolding restocked_def by blast
  then show "width t = width s" "height t = height s" "clientIdToPlayerMap t = clientIdToPlayerMap s"
    "network t = network s" "replayFile t = replayFile s" "currentSequence t = currentSequence s"
    "timer t = timer s" "msgLog t = msgLog s" by simp_all
qed

lemma replaceFood_total:
  assumes "draws_escape env (width s) (height s)" and "engine_inv s"
  shows "\<exists>s'. replaceFood env s = Some s' \<and> engine_inv s' \<and> restocked s s' \<and>
     MIN_FOOD_IN_ARENA \<le> length (foodMap s')"
  using assms
proof (induction "MIN_FOOD_IN_ARENA - length (foodMap s)" arbitrary: s rule: less_induct)
  case less
  show ?case
  proof (cases "length (foodMap s) < MIN_FOOD_IN_ARENA")
    case False
    with less.prems show ?thesis by (simp add: replaceFood.simps [of env s] restocked_refl)
  next
    case True
    have wf: "um_wf (foodMap s)" using engine_wfD(2) [OF engine_invD [OF less.prems(2)]] .
    from less.prems(1) True card_um_keys [OF wf]
    obtain n where n: "nth_cell env (width s) (height s) (gen s) n \<notin> set (um_keys (foodMap s))"
      unfolding draws_escape_def by (metis List.finite_set)
    from replaceFood_grows [OF less.prems(2) True n] obtain t where
      t: "replaceFood env s = replaceFood env t" "engine_inv t" "restocked s t"
        "length (foodMap t) = Suc (length (foodMap s))" by blast
    have "MIN_FOOD_IN_ARENA - length (foodMap t) < MIN_FOOD_IN_ARENA - length (foodMap s)"
      using t(4) True by simp
    moreover have "draws_escape env (width t) (height t)"
      using less.prems(1) restocked_sel [OF t(3)] by simp
    ultimately obtain s' where "replaceFood env t = Some s'" "engine_inv s'" "restocked t s'"
      "MIN_FOOD_IN_ARENA \<le> length (foodMap s')"
      using less.hyps t(2) by blast
    with t restocked_trans show ?thesis by metis
  qed
qed

section \<open>The invariant of the server between passes\<close>

lemma engine_inv_players_wf: "engine_inv s \<Longrightarrow> um_wf (clientIdToPlayerMap s)"
  by (rule engine_wfD(1)) (rule engine_invD)

definition connected_clients :: "'g SnakeServer \<Rightarrow> int set" where
  "connected_clients s = dom (um_at (clientIdToFdMap (network s)))"

definition server_inv :: "'g SnakeServer \<Rightarrow> bool" where
  "server_inv s \<longleftrightarrow> engine_inv s \<and> net_wf (network s) \<and> fdsToDisconnect (network s) = [] \<and>
     replayFile s = None \<and> set (um_keys (clientIdToPlayerMap s)) \<subseteq> connected_clients s"

lemma server_invD:
  assumes "server_inv s"
  shows "engine_inv s" "net_wf (network s)" "fdsToDisconnect (network s) = []" "replayFile s = None"
    "set (um_keys (clientIdToPlayerMap s)) \<subseteq> connected_clients s"
  using assms by (simp_all add: server_inv_def)

text \<open>
  \<open>mid_inv ids s\<close>: the same within a pass, when the disconnects of the clients \<open>ids\<close> are still to
  be handled.
\<close>

definition mid_inv :: "int set \<Rightarrow> 'g SnakeServer \<Rightarrow> bool" where
  "mid_inv ids s \<longleftrightarrow> engine_inv s \<and> net_wf (network s) \<and> fdsToDisconnect (network s) = [] \<and>
     replayFile s = None \<and> set (um_keys (clientIdToPlayerMap s)) \<subseteq> connected_clients s \<union> ids"

lemma mid_inv_server: "mid_inv {} s = server_inv s"
  by (simp add: mid_inv_def server_inv_def)

definition sends_ok :: "(int \<Rightarrow> bytes \<Rightarrow> int) \<Rightarrow> bool" where
  "sends_ok snd_res \<longleftrightarrow> (\<forall>fd frame. \<not> send_failed (snd_res fd frame) frame)"

lemma networkSend_ok:
  "sends_ok snd_res \<Longrightarrow> networkSend ord snd_res fd bs nw = nw\<lparr>sentFrames := sentFrames nw @ [(fd, make_frame bs)]\<rparr>"
  by (simp add: networkSend_eq sends_ok_def)

lemma net_broadcast_ok:
  assumes "sends_ok snd_res"
  shows "net_broadcast ord snd_res bs nw =
     nw\<lparr>sentFrames := sentFrames nw @ map (\<lambda>e. (fst e, make_frame bs)) (fdToClientIdMap nw)\<rparr>"
proof -
  have "fold (\<lambda>(fd, cid). networkSend ord snd_res fd bs) es nw =
      nw\<lparr>sentFrames := sentFrames nw @ map (\<lambda>e. (fst e, make_frame bs)) es\<rparr>" for es nw
    by (induction es arbitrary: nw) (auto simp: networkSend_ok [OF assms])
  then show ?thesis by (simp add: net_broadcast_def)
qed

lemma mid_inv_sent [simp]:
  "mid_inv ids (s\<lparr>network := (network s)\<lparr>sentFrames := fs\<rparr>\<rparr>) = mid_inv ids s"
  by (simp add: mid_inv_def connected_clients_def net_wf_def)

lemma mid_inv_frame [simp]:
  "mid_inv ids (s\<lparr>msgLog := lg\<rparr>) = mid_inv ids s" "mid_inv ids (s\<lparr>currentSequence := sq\<rparr>) = mid_inv ids s"
  "mid_inv ids (s\<lparr>timer := tm\<rparr>) = mid_inv ids s"
  by (simp_all add: mid_inv_def connected_clients_def)

lemma connected_clients_io: "io s' = io s \<Longrightarrow> connected_clients s' = connected_clients s"
  by (simp add: connected_clients_def io_def)

lemma connected_clients_handlers [simp]:
  "connected_clients (handleClientInput i s) = connected_clients s"
  "connected_clients (handleClientDisconnect d s) = connected_clients s"
  by (rule connected_clients_io, simp)+

lemma mid_inv_io:
  assumes "mid_inv ids s" and "io s' = io s" and "engine_inv s'"
    and "set (um_keys (clientIdToPlayerMap s')) \<subseteq> connected_clients s \<union> ids'"
  shows "mid_inv ids' s'"
  using assms connected_clients_io [OF assms(2)] by (simp add: mid_inv_def io_def)

section \<open>Handling a message\<close>

text \<open>
  What a message must satisfy to be handled without an exception: it is a shape \<open>deserialise\<close>
  returns, and a client that joins has a terminated user name and is connected.
\<close>

definition message_ok :: "int set \<Rightarrow> MessageVariant \<Rightarrow> bool" where
  "message_ok cids m \<longleftrightarrow> wf_msg m \<and>
     (\<forall>j. m = VClientJoin j \<longrightarrow> 0 \<in> set (cj_username j) \<and> client_of (cj_hdr j) \<in> cids)"

definition disconnects :: "MessageVariant list \<Rightarrow> int set" where
  "disconnects ms = {client_of (cd_hdr d) | d. VClientDisconnect d \<in> set ms}"

lemma log_message_total:
  "arrays_ok m \<or> (\<exists>g. m = VGameState g) \<Longrightarrow>
     log_message m s = Inr (encode m, s\<lparr>msgLog := log_write (msgLog s) (encode m)\<rparr>)"
proof -
  assume "arrays_ok m \<or> (\<exists>g. m = VGameState g)"
  then have "serialise m = Inr (encode m)"
    by (metis serialise_eq serialise_GameState_eq)
  then show ?thesis by (simp add: log_message_def)
qed

lemma wf_msg_header_update:
  "wf_msg m \<Longrightarrow> (\<And>h. messageType (f h) = messageType h) \<Longrightarrow> wf_msg (header_update f m)"
  by (cases m) (simp_all add: wf_msg_def game_state_ok_def)

lemma stamp_sel [simp]: "messageType (stamp s h) = messageType h" "clientId (stamp s h) = clientId h"
  by (simp_all add: stamp_def)

text \<open>The number of body segments, and who adds to it.\<close>

abbreviation segments_of :: "'g SnakeServer \<Rightarrow> nat" where
  "segments_of s \<equiv> length (bodies (clientIdToPlayerMap s))"

lemma length_bodies:
  "um_wf m \<Longrightarrow> length (bodies m) = (\<Sum>k\<in>set (um_keys m). length (body (the (um_at m k))))"
proof (induction m)
  case Nil
  then show ?case by (simp add: um_keys_def)
next
  case (Cons e m)
  obtain k v where e: "e = (k, v)" by (cases e)
  with Cons.prems have m: "um_wf m" "k \<notin> set (um_keys m)" by (simp_all add: um_wf_def um_keys_def)
  have "(\<Sum>k'\<in>set (um_keys m). length (body (the (um_at m k')))) =
      (\<Sum>k'\<in>set (um_keys m). length (body (the (um_at ((k, v) # m) k'))))"
    using m(2) by (intro sum.cong) (auto simp: um_at_def)
  with Cons.IH [OF m(1)] m(2) show ?case by (simp add: e um_keys_def um_at_def)
qed

lemma bodies_erase: "length (bodies (um_erase k m)) \<le> length (bodies m)"
  by (induction m) (auto simp: um_erase_def bodies_def)

lemma bodies_modify:
  "(\<And>p. head (f p) = head p) \<Longrightarrow> bodies (um_modify k f m) = bodies m"
  by (induction m) (auto simp: um_modify_def bodies_def)

lemma bodies_emplace:
  assumes "um_wf m" and "body p = []"
  shows "length (bodies (um_emplace ord k p m)) = length (bodies m)"
proof (cases "um_contains m k")
  case False
  then have k: "k \<notin> set (um_keys m)" by (simp add: um_contains_iff)
  have keys: "set (um_keys (um_emplace ord k p m)) = insert k (set (um_keys m))"
    using False assms(1) by (simp add: um_emplace_alt um.set_keys_put)
  have at: "um_at (um_emplace ord k p m) k' = (if k' = k then Some p else um_at m k')" for k'
    using False by (simp add: um_at_emplace)
  have "(\<Sum>k'\<in>set (um_keys m). length (body (the (um_at (um_emplace ord k p m) k')))) =
      (\<Sum>k'\<in>set (um_keys m). length (body (the (um_at m k'))))"
    using k by (intro sum.cong) (auto simp: at)
  then show ?thesis
    unfolding length_bodies [OF assms(1)] length_bodies [OF um_wf_emplace [OF assms(1)]] keys
    using k arg_cong [OF assms(2), of length] by (simp add: at)
qed (simp add: um_emplace_def)

lemma createNewPlayer_total:
  assumes "engine_inv s" and "length (cj_username m) = 16" "0 \<in> set (cj_username m)"
  shows "\<exists>t. createNewPlayer env m s = Inr t \<and> engine_inv t \<and> io t = io s \<and> width t = width s \<and> height t = height s \<and>
     set (um_keys (clientIdToPlayerMap t)) = insert (client_of (cj_hdr m)) (set (um_keys (clientIdToPlayerMap s))) \<and>
     segments_of t = segments_of s"
proof -
  from assms(3) obtain nm where nm: "c_string (cj_username m) = Inr nm" by (simp add: c_string_def)
  have wf: "um_wf (clientIdToPlayerMap s)" using engine_wfD(1) [OF engine_invD [OF assms(1)]] .
  obtain x g1 where d1: "draw (rng env) (1 + 5) (width s - 1 - 5) (gen s) = (x, g1)"
    by (cases "draw (rng env) (1 + 5) (width s - 1 - 5) (gen s)")
  obtain y g where d2: "draw (rng env) (1 + 5) (height s - 1 - 5) g1 = (y, g)"
    by (cases "draw (rng env) (1 + 5) (height s - 1 - 5) g1")
  have t: "createNewPlayer env m s = Inr (s\<lparr>gen := g, clientIdToPlayerMap :=
      um_emplace (player_ord env) (client_of (cj_hdr m)) (new_player s (client_of (cj_hdr m)) x y nm)
        (clientIdToPlayerMap s)\<rparr>)" (is "_ = Inr ?t")
    by (simp only: createNewPlayer_def Let_def d1 d2 nm prod.case rbind_Inr)
  have "set (um_keys (um_emplace ord k v ma)) = insert k (set (um_keys ma))" if "um_wf ma"
    for ord k v and ma :: "(int, Player) umap"
    using that by (auto simp: um_emplace_alt um.set_keys_put um_contains_iff)
  with wf createNewPlayer_inv [OF assms(1,2) t] t show ?thesis
    by (intro exI [of _ ?t]) (simp add: bodies_emplace new_player_def)
qed

lemma handleClientJoin_total:
  assumes inv: "mid_inv ids s" and ok: "sends_ok snd_res"
    and m: "length (cj_username m) = 16" "0 \<in> set (cj_username m)" "client_of (cj_hdr m) \<in> connected_clients s"
  shows "\<exists>s'. handleClientJoin env snd_res m s = Inr s' \<and> mid_inv ids s' \<and>
     connected_clients s' = connected_clients s \<and> segments_of s' = segments_of s \<and>
     width s' = width s \<and> height s' = height s"
proof -
  from inv have "engine_inv s" by (simp add: mid_inv_def)
  from createNewPlayer_total [OF this m(1,2), of env] obtain t where
    t: "createNewPlayer env m s = Inr t" "engine_inv t" "io t = io s" "width t = width s" "height t = height s"
      "set (um_keys (clientIdToPlayerMap t)) = insert (client_of (cj_hdr m)) (set (um_keys (clientIdToPlayerMap s)))"
      "segments_of t = segments_of s" by blast
  have mid: "mid_inv ids t"
    using inv m(3) t by (intro mid_inv_io [OF inv t(3,2)]) (auto simp: mid_inv_def)
  let ?w = "header_update (stamp t) (VServerWelcome \<lparr>sw_hdr = header_of SERVER_WELCOME (clientId (cj_hdr m))\<rparr>)"
  let ?u = "t\<lparr>currentSequence := currentSequence t + 1, msgLog := log_write (msgLog t) (encode ?w)\<rparr>"
  from m(3) t(3) obtain fd where fd: "um_at (clientIdToFdMap (network t)) (client_of (cj_hdr m)) = Some fd"
    by (auto simp: connected_clients_def io_def)
  have rep: "replayFile t = None" using mid by (simp add: mid_inv_def)
  have lm: "log_message ?w (t\<lparr>currentSequence := currentSequence t + 1\<rparr>) = Inr (encode ?w, ?u)"
    by (subst log_message_total) simp_all
  have "handleClientJoin env snd_res m s = Inr (?u\<lparr>network := (network t)\<lparr>sentFrames := sentFrames (network t) @
      [(fd, make_frame (encode ?w))]\<rparr>\<rparr>)"
    using fd rep ok
    by (simp add: handleClientJoin_def t(1) stampMessage_def lm isInReplay_def
        sendToClient_def networkSend_ok del: header_update.simps)
  moreover have "mid_inv ids (?u\<lparr>network := (network ?u)\<lparr>sentFrames := sentFrames (network t) @
      [(fd, make_frame (encode ?w))]\<rparr>\<rparr>)"
    using mid by (simp only: mid_inv_sent) (simp only: mid_inv_frame)
  moreover have "connected_clients t = connected_clients s" by (rule connected_clients_io [OF t(3)])
  ultimately show ?thesis using t by (auto simp: connected_clients_def)
qed

lemma handleClientInput_frame:
  "um_keys (clientIdToPlayerMap (handleClientInput m s)) = um_keys (clientIdToPlayerMap s)"
  "segments_of (handleClientInput m s) = segments_of s"
  "width (handleClientInput m s) = width s" "height (handleClientInput m s) = height s"
  by (simp_all add: handleClientInput_def Let_def bodies_modify)

lemma handleClientDisconnect_frame:
  assumes "um_wf (clientIdToPlayerMap s)"
  shows "set (um_keys (clientIdToPlayerMap (handleClientDisconnect m s))) =
      set (um_keys (clientIdToPlayerMap s)) - {client_of (cd_hdr m)}"
    "segments_of (handleClientDisconnect m s) \<le> segments_of s"
    "width (handleClientDisconnect m s) = width s" "height (handleClientDisconnect m s) = height s"
  using assms bodies_erase
  by (auto simp: handleClientDisconnect_def Let_def um.set_keys_erase um_contains_iff)

text \<open>\<open>fits s0 s\<close>: the frame conditions of the dispatch loop.\<close>

definition fits :: "'g SnakeServer \<Rightarrow> 'g SnakeServer \<Rightarrow> bool" where
  "fits s0 s \<longleftrightarrow> connected_clients s = connected_clients s0 \<and> segments_of s \<le> segments_of s0 \<and>
     width s = width s0 \<and> height s = height s0"

lemma fits_trans: "fits s t \<Longrightarrow> fits t u \<Longrightarrow> fits s u"
  by (simp add: fits_def)

lemma dispatch_total:
  assumes inv: "mid_inv (disconnects (m # ms)) s" and ok: "sends_ok snd_res"
    and m: "message_ok (connected_clients s) m"
  shows "\<exists>b' s'. dispatch env snd_res m (b, s) = Inr (b', s') \<and> mid_inv (disconnects ms) s' \<and> fits s s'"
proof -
  let ?m = "header_update (stamp s) m"
  let ?u = "s\<lparr>currentSequence := currentSequence s + 1, msgLog := log_write (msgLog s) (encode ?m)\<rparr>"
  from m have wf: "wf_msg ?m" by (intro wf_msg_header_update) (simp_all add: message_ok_def)
  have mt: "mt_of (messageType (header m)) = Some (variant_type m)"
    using m by (simp add: message_ok_def wf_msg_def)
  have lg: "log_message ?m (s\<lparr>currentSequence := currentSequence s + 1\<rparr>) = Inr (encode ?m, ?u)"
    using wf by (subst log_message_total) (simp_all add: wf_msg_def)
  have u: "mid_inv (disconnects (m # ms)) ?u" "fits s ?u" using inv by (simp_all add: fits_def connected_clients_def)
  have combine: ?thesis if "dispatch env snd_res m (b, s) = Inr (b', t)" "mid_inv (disconnects ms) t" "fits ?u t" for b' t
    using that fits_trans [OF u(2)] by metis
  have ignored: ?thesis
    if v: "variant_type m = SERVER_CONFIG \<or> variant_type m = SERVER_WELCOME \<or> variant_type m = GAME_STATE"
  proof -
    have "dispatch env snd_res m (b, s) = Inr (b, ?u)"
      using v mt lg by (elim disjE) (simp_all add: dispatch_def stampMessage_def)
    moreover have "disconnects (m # ms) = disconnects ms" using v by (auto simp: disconnects_def)
    ultimately show ?thesis using u by metis
  qed
  show ?thesis
  proof (cases m)
    case (VClientJoin j)
    let ?j = "j\<lparr>cj_hdr := stamp s (cj_hdr j)\<rparr>"
    have d: "disconnects (m # ms) = disconnects ms" by (auto simp: disconnects_def VClientJoin)
    have "\<exists>s'. handleClientJoin env snd_res ?j ?u = Inr s' \<and> mid_inv (disconnects (m # ms)) s' \<and>
     connected_clients s' = connected_clients ?u \<and> segments_of s' = segments_of ?u \<and>
     width s' = width ?u \<and> height s' = height ?u"
      using m VClientJoin u(2)
      by (intro handleClientJoin_total [OF u(1) ok]) (auto simp: message_ok_def wf_msg_def fits_def)
    then obtain s' where "handleClientJoin env snd_res ?j ?u = Inr s'" "mid_inv (disconnects (m # ms)) s'" "fits ?u s'"
      unfolding fits_def by auto
    with d mt lg VClientJoin show ?thesis
      by (intro combine [where b' = True and t = s']) (simp_all add: dispatch_def stampMessage_def)
  next
    case (VClientInput i)
    let ?i = "i\<lparr>ci_hdr := stamp s (ci_hdr i)\<rparr>"
    have d: "disconnects (m # ms) = disconnects ms" by (auto simp: disconnects_def VClientInput)
    have "mid_inv (disconnects (m # ms)) (handleClientInput ?i ?u)"
      using u(1) by (intro mid_inv_io [OF u(1)])
        (auto simp: mid_inv_def handleClientInput_inv handleClientInput_frame)
    moreover have "fits ?u (handleClientInput ?i ?u)"
      by (simp add: fits_def handleClientInput_frame)
    ultimately show ?thesis using d mt lg VClientInput
      by (intro combine [where b' = b and t = "handleClientInput ?i ?u"]) (simp_all add: dispatch_def stampMessage_def)
  next
    case (VClientDisconnect dm)
    let ?d = "dm\<lparr>cd_hdr := stamp s (cd_hdr dm)\<rparr>"
    have d: "disconnects (m # ms) = insert (client_of (cd_hdr dm)) (disconnects ms)"
      by (auto simp: disconnects_def VClientDisconnect)
    have pw: "um_wf (clientIdToPlayerMap ?u)"
      using u(1) by (simp add: mid_inv_def engine_inv_players_wf)
    have "mid_inv (disconnects ms) (handleClientDisconnect ?d ?u)"
      using u(1) d handleClientDisconnect_frame(1) [OF pw, of ?d]
      by (intro mid_inv_io [OF u(1)]) (auto simp: mid_inv_def handleClientDisconnect_inv)
    moreover have "fits ?u (handleClientDisconnect ?d ?u)"
      using handleClientDisconnect_frame [OF pw, of ?d] by (simp add: fits_def)
    ultimately show ?thesis using mt lg VClientDisconnect
      by (intro combine [where b' = True and t = "handleClientDisconnect ?d ?u"]) (simp_all add: dispatch_def stampMessage_def)
  qed (use ignored in simp_all)
qed

lemma dispatch_all_total:
  assumes "mid_inv (disconnects ms) s" and "sends_ok snd_res"
    and "\<forall>m\<in>set ms. message_ok (connected_clients s) m"
  shows "\<exists>b' s'. rfold (dispatch env snd_res) ms (b, s) = Inr (b', s') \<and> server_inv s' \<and> fits s s'"
  using assms
proof (induction ms arbitrary: b s)
  case Nil
  then show ?case by (simp add: mid_inv_server [symmetric] disconnects_def fits_def)
next
  case (Cons m ms)
  from dispatch_total [OF Cons.prems(1,2), of env b] Cons.prems(3) obtain b1 s1 where
    1: "dispatch env snd_res m (b, s) = Inr (b1, s1)" "mid_inv (disconnects ms) s1" "fits s s1" by auto
  from 1(3) Cons.prems(3) have "\<forall>m\<in>set ms. message_ok (connected_clients s1) m" by (simp add: fits_def)
  from Cons.IH [OF 1(2) Cons.prems(2) this, of b1] 1 show ?case by (auto intro: fits_trans [OF 1(3)])
qed

section \<open>Moving, and the rest of the pass\<close>

lemma length_segs_step [simp]: "length (segs (head (step_player s p))) = length (segs (head p))"
  by (simp add: step_player_def move_def Let_def split: prod.splits)

lemma segments_updated: "segments_of (updated s) = segments_of s"
proof -
  have "length (bodies (map (step_entry s) m)) = length (bodies m)" for m
    by (induction m) (simp_all add: bodies_def step_entry_def)
  then show ?thesis by (simp add: updated_entries)
qed

lemma updated_counted:
  assumes "engine_inv s" and "segments_of s < 2 ^ 16"
  shows "counted (updated s)"
  using updated_occupied [OF assms(1)] assms(2) segments_updated [of s]
  by (simp add: counted_def)

lemma keys_survivors: "set (um_keys (survivors s)) \<subseteq> set (um_keys (clientIdToPlayerMap s))"
  by (auto simp: survivors_def um_keys_def)

lemma move_phase_total:
  assumes "server_inv s" and "segments_of s < 2 ^ 16"
  shows "\<exists>b' s'. move_phase env (b, s) = Inr (b', s') \<and> server_inv s'"
proof -
  note inv = server_invD [OF assms(1)]
  have up: "updateSnakes s = Inr (\<exists>(cid, p)\<in>set (clientIdToPlayerMap s). due s p, updated s)"
    by (rule updateSnakes_eq) (rule inv(1))
  from checkCollisions_inv [OF updated_moving [OF inv(1)] updated_counted [OF inv(1) assms(2)], of env]
  obtain t where t: "checkCollisions env (updated s) = Inr t" "engine_inv t"
    "dropped (dead_bodies (updated s)) (collided (updated s)) t" by blast
  have still: "server_inv (updated s)" if "\<not> (\<exists>(cid, p)\<in>set (clientIdToPlayerMap s). due s p)"
  proof -
    have "\<forall>(cid, p)\<in>set (clientIdToPlayerMap (updated s)). settled (arena s) p"
      using that engine_inv_entries [OF inv(1)]
      by (fastforce simp: updated_entries step_entry_def step_player_def settled_def Let_def split: prod.splits)
    moreover have wf: "engine_wf (updated s)" by (rule engine_movingD) (rule updated_moving [OF inv(1)])
    ultimately have "engine_inv (updated s)"
      by (auto simp: engine_inv_def um_at_in_set [OF engine_wfD(1) [OF wf]])
    with inv show ?thesis
      by (simp add: server_inv_def updated_def Let_def connected_clients_def)
  qed
  have moved: "server_inv (placeSpeedBoost env t)"
  proof -
    have "io (placeSpeedBoost env t) = io s"
      using io_checkCollisions [OF t(1)] by (simp add: updated_def Let_def)
    moreover have "um_keys (clientIdToPlayerMap (placeSpeedBoost env t)) = um_keys (survivors (updated s))"
      using dropped_sel(1) [OF t(3)] by (simp add: placeSpeedBoost_def collided_def split: prod.splits)
    then have "set (um_keys (clientIdToPlayerMap (placeSpeedBoost env t))) \<subseteq> connected_clients s \<union> {}"
      using keys_survivors [of "updated s"] inv(5) by (simp add: updated_entries)
    moreover have "mid_inv {} s" using assms(1) by (simp add: mid_inv_server)
    ultimately show ?thesis
      using placeSpeedBoost_inv [OF t(2)] mid_inv_io mid_inv_server by metis
  qed
  show ?thesis
    using still moved t(1) up by (cases "\<exists>(cid, p)\<in>set (clientIdToPlayerMap s). due s p")
      (auto simp: move_phase_def)
qed

lemma broadcastGameState_total:
  assumes "server_inv s" and "sends_ok snd_res"
  shows "\<exists>s'. broadcastGameState env snd_res s = Inr s' \<and> server_inv s' \<and> width s' = width s \<and> height s' = height s"
proof -
  let ?m = "header_update (stamp s) (VGameState (buildGameState s))"
  let ?u = "s\<lparr>currentSequence := currentSequence s + 1, msgLog := log_write (msgLog s) (encode ?m)\<rparr>"
  let ?net = "(network ?u)\<lparr>sentFrames := sentFrames (network s) @
      map (\<lambda>e. (fst e, make_frame (encode ?m))) (fdToClientIdMap (network s))\<rparr>"
  have "log_message ?m (s\<lparr>currentSequence := currentSequence s + 1\<rparr>) = Inr (encode ?m,
      (s\<lparr>currentSequence := currentSequence s + 1\<rparr>)\<lparr>msgLog := log_write (msgLog (s\<lparr>currentSequence := currentSequence s + 1\<rparr>)) (encode ?m)\<rparr>)"
    by (rule log_message_total) simp
  then have lg: "log_message ?m (s\<lparr>currentSequence := currentSequence s + 1\<rparr>) = Inr (encode ?m, ?u)" by simp
  have "broadcastGameState env snd_res s = Inr (?u\<lparr>network := ?net\<rparr>)"
    using assms(2) server_invD(4) [OF assms(1)] lg
    by (simp add: broadcastGameState_def stampMessage_def isInReplay_def net_broadcast_ok del: header_update.simps)
  moreover have "mid_inv {} (?u\<lparr>network := ?net\<rparr>)"
    unfolding mid_inv_sent using assms(1) by (simp add: mid_inv_server)
  ultimately show ?thesis by (intro exI [of _ "?u\<lparr>network := ?net\<rparr>"]) (simp add: mid_inv_server)
qed

text \<open>Conditions on one pass: what the kernel reports, what the clients send, what \<open>send\<close> returns.\<close>

definition frame_ok :: "NetworkServer \<Rightarrow> int \<times> bytes \<Rightarrow> bool" where
  "frame_ok net cf \<longleftrightarrow> (\<exists>m. deserialise (snd cf) = Inr m \<and>
     (\<forall>j. m = VClientJoin j \<longrightarrow> 0 \<in> set (cj_username j) \<and>
        (\<forall>fd\<in>set (fdsToDisconnect net). um_at (clientIdToFdMap net) (fst cf) \<noteq> Some fd)))"

definition tick_ok :: "'g env \<Rightarrow> 'g SnakeServer \<Rightarrow> tick_input \<Rightarrow> bool" where
  "tick_ok env s inp \<longleftrightarrow> events_ok (network s) (events inp) \<and> sends_ok (send_result inp) \<and>
     (\<forall>frames net. net_pollMessages (net_ord env) (events inp) (network s) = Inr (frames, net) \<longrightarrow>
        (\<forall>cf\<in>set frames. frame_ok net cf)) \<and>
     segments_of s < 2 ^ 16"

definition receive_message :: "int \<times> bytes \<Rightarrow> MessageVariant" where
  "receive_message cf = projr (deserialise_for (snd cf) (word_of_int (fst cf)))"

lemma decode_frames_total:
  assumes "\<forall>cf\<in>set frames. frame_ok net cf"
  shows "decode_frames frames = Inr (map receive_message frames)"
proof -
  let ?f = "\<lambda>(cid, frame) messages.
         rbind (lift_wire (deserialise_for frame (word_of_int cid))) (\<lambda>m. Inr (messages @ [m]))"
  have step: "?f cf ms = Inr (ms @ [receive_message cf])" if "cf \<in> set frames" for cf and ms
    using assms that
    by (auto simp: frame_ok_def deserialise_for_def receive_message_def split: prod.splits)
  have "rfold ?f frames [] = Inr (fold (\<lambda>cf ms. ms @ [receive_message cf]) frames [])"
    by (rule rfold_fold) (rule step)
  moreover have "fold (\<lambda>cf ms. ms @ [receive_message cf]) frames acc = acc @ map receive_message frames" for acc
    by (induction frames arbitrary: acc) simp_all
  ultimately show ?thesis by (simp add: decode_frames_def)
qed

lemma sint_client_id: "1 \<le> cid \<Longrightarrow> cid < 2 ^ 31 \<Longrightarrow> sint (word_of_int cid :: i32) = cid"
  by (simp add: signed_of_int signed_take_bit_int_eq_self)

lemma pollMessages_total:
  assumes inv: "server_inv s" and ok: "tick_ok env s inp"
  shows "\<exists>ms s'. pollMessages env inp s = Inr (Some ms, s') \<and> mid_inv (disconnects ms) s' \<and>
     (\<forall>m\<in>set ms. message_ok (connected_clients s') m) \<and>
     clientIdToPlayerMap s' = clientIdToPlayerMap s \<and> width s' = width s \<and> height s' = height s"
proof -
  note i = server_invD [OF inv]
  from ok have ev: "events_ok (network s) (events inp)" by (simp add: tick_ok_def)
  from net_pollMessages_total [OF i(2,3) ev, of "net_ord env"] obtain frames net where
    poll: "net_pollMessages (net_ord env) (events inp) (network s) = Inr (frames, net)" "net_wf net"
    and conn: "\<forall>m\<in>set frames. fst m \<in> dom (um_at (clientIdToFdMap net))" by blast
  have old: "dom (um_at (clientIdToFdMap (network s))) \<subseteq> dom (um_at (clientIdToFdMap net))"
    by (rule net_pollMessages_keeps [OF poll(1)])
  from ok poll(1) have frames: "\<forall>cf\<in>set frames. frame_ok net cf" by (auto simp: tick_ok_def)
  from drainDisconnects_exact [OF poll(2)] obtain cids net' where
    drain: "drainDisconnects net = Inr (cids, net')" "net_wf net'" "fdsToDisconnect net' = []"
      "set cids = {cid. \<exists>fd\<in>set (fdsToDisconnect net). um_at (clientIdToFdMap net) cid = Some fd}"
      "um_at (clientIdToFdMap net') = (um_at (clientIdToFdMap net)) |` (- set cids)" by blast
  have range: "sint (word_of_int cid :: i32) = cid" if "cid \<in> dom (um_at (clientIdToFdMap net))" for cid
    using that net_wf_ids [OF poll(2)] by (intro sint_client_id) auto
  let ?ms = "map receive_message frames @ map disconnect_message cids"
  let ?s = "s\<lparr>network := net', timer := Timer_tick (clock inp) (timer s)\<rparr>"
  have eq: "pollMessages env inp s = Inr (Some ?ms, ?s)"
    using i(4) poll(1) drain(1) decode_frames_total [OF frames]
    by (simp add: pollMessages_def add_disconnects_def)
  have disc: "set cids \<subseteq> disconnects ?ms"
  proof
    fix cid assume "cid \<in> set cids"
    with range [of cid] drain(4) show "cid \<in> disconnects ?ms"
      by (force simp: disconnects_def disconnect_message_def header_of_def)
  qed
  have "connected_clients s \<subseteq> connected_clients ?s \<union> set cids"
    using old drain(5) by (auto simp: connected_clients_def restrict_map_def dom_def)
  with i(5) disc have "set (um_keys (clientIdToPlayerMap s)) \<subseteq> connected_clients ?s \<union> disconnects ?ms" by blast
  with i drain have mid: "mid_inv (disconnects ?ms) ?s" by (simp add: mid_inv_def)
  have "message_ok (connected_clients ?s) m" if "m \<in> set ?ms" for m
  proof (cases "m \<in> set (map disconnect_message cids)")
    case True
    then show ?thesis by (auto simp: message_ok_def disconnect_message_def wf_msg_def header_of_def)
  next
    case False
    with that obtain cf where cf: "cf \<in> set frames" "m = receive_message cf" by auto
    with frames have "frame_ok net cf" by blast
    then obtain d where d: "deserialise (snd cf) = Inr d" "m = header_update (\<lambda>h. h\<lparr>clientId := word_of_int (fst cf)\<rparr>) d"
      and join: "\<forall>j. d = VClientJoin j \<longrightarrow> 0 \<in> set (cj_username j) \<and>
        (\<forall>fd\<in>set (fdsToDisconnect net). um_at (clientIdToFdMap net) (fst cf) \<noteq> Some fd)"
      using cf(2) by (auto simp: frame_ok_def receive_message_def deserialise_for_def)
    from d have wf: "wf_msg m" using deserialise_Inr [OF d(1)] by (auto intro: wf_msg_header_update)
    have "fst cf \<in> connected_clients ?s" if "d = VClientJoin j" for j
      using join that drain(4,5) conn cf(1) by (auto simp: connected_clients_def restrict_map_def)
    with d(2) wf join range conn cf(1) show ?thesis
      by (cases d) (auto simp: message_ok_def)
  qed
  with eq mid show ?thesis by (intro exI [of _ ?ms] exI [of _ ?s]) simp
qed

lemma after_food_total:
  assumes "mid_inv (disconnects ms) s" and "sends_ok snd_res"
    and "\<forall>m\<in>set ms. message_ok (connected_clients s) m" and "segments_of s < 2 ^ 16"
  shows "\<exists>s'. after_food env snd_res ms s = Inr s' \<and> server_inv s' \<and> width s' = width s \<and> height s' = height s"
proof -
  from dispatch_all_total [OF assms(1-3), of env False] obtain b t where
    t: "rfold (dispatch env snd_res) ms (False, s) = Inr (b, t)" "server_inv t" "fits s t" by blast
  then have "segments_of t < 2 ^ 16" using assms(4) by (simp add: fits_def)
  from move_phase_total [OF t(2) this, of env b] obtain b' u where
    u: "move_phase env (b, t) = Inr (b', u)" "server_inv u" by blast
  have "width u = width s" "height u = height s"
    using io_move_phase [OF u(1)] t(3) by (simp_all add: io_def fits_def)
  with t(1) u broadcastGameState_total [OF u(2) assms(2), of env] show ?thesis
    by (auto simp: after_food_def)
qed

lemma mid_inv_restocked:
  assumes "restocked s t" and "mid_inv ids s" and "engine_inv t"
  shows "mid_inv ids t"
  using assms(2,3) restocked_sel [OF assms(1)] by (simp add: mid_inv_def connected_clients_def)

text \<open>A pass taken apart: what it polled, the state with food restocked, and what came of both.\<close>

lemma pass_phases:
  assumes inv: "server_inv s" and ok: "tick_ok env s inp" and fair: "draws_escape env (width s) (height s)"
  shows "\<exists>ms net u s'. let t = s\<lparr>timer := Timer_tick (clock inp) (timer s), network := net\<rparr> in
     pollMessages env inp s = Inr (Some ms, t) \<and> (\<forall>m\<in>set ms. shaped m) \<and>
     replaceFood env t = Some u \<and> restocked t u \<and> engine_inv u \<and>
     after_food env (send_result inp) ms u = Inr s' \<and>
     (\<forall>b v. rfold (dispatch env (send_result inp)) ms (False, u) = Inr (b, v) \<longrightarrow> engine_inv v) \<and>
     run_pass env inp s = Some (Inr (True, s')) \<and> server_inv s' \<and> width s' = width s \<and> height s' = height s"
proof -
  from pollMessages_total [OF inv ok] obtain ms t where
    t: "pollMessages env inp s = Inr (Some ms, t)" "mid_inv (disconnects ms) t"
      "\<forall>m\<in>set ms. message_ok (connected_clients t) m" "clientIdToPlayerMap t = clientIdToPlayerMap s"
      "width t = width s" "height t = height s" by blast
  from t(1) server_invD(4) [OF inv] obtain net where
    net: "t = s\<lparr>timer := Timer_tick (clock inp) (timer s), network := net\<rparr>"
    by (auto simp: pollMessages_def add_disconnects_def rbind_eq_Inr)
  have "engine_inv t" using t(2) by (simp add: mid_inv_def)
  with fair t(5,6) replaceFood_total [of env t] obtain u where
    u: "replaceFood env t = Some u" "engine_inv u" "restocked t u" by auto
  note same = restocked_sel [OF u(3)]
  have mid: "mid_inv (disconnects ms) u" by (rule mid_inv_restocked [OF u(3) t(2) u(2)])
  have sends: "sends_ok (send_result inp)" and segments: "segments_of u < 2 ^ 16"
    using ok same t(4) by (simp_all add: tick_ok_def)
  have messages: "\<forall>m\<in>set ms. message_ok (connected_clients u) m"
    using t(3) same by (simp add: connected_clients_def)
  from after_food_total [OF mid sends messages segments, of env] obtain s' where
    s': "after_food env (send_result inp) ms u = Inr s'" "server_inv s'" "width s' = width u" "height s' = height u"
    by blast
  have engine: "\<forall>b v. rfold (dispatch env (send_result inp)) ms (False, u) = Inr (b, v) \<longrightarrow> engine_inv v"
    using dispatch_all_total [OF mid sends messages, of env False] server_invD(1) by fastforce
  have "run_pass env inp s = Some (Inr (True, s'))" using t(1) u(1) s'(1) by (simp add: run_pass_def)
  moreover have "\<forall>m\<in>set ms. shaped m" using t(3) by (auto simp: message_ok_def shaped_wf)
  ultimately show ?thesis
    using engine t(1,5,6) u s' same(1,2) unfolding net Let_def
    by (rule_tac exI [of _ ms], rule_tac exI [of _ net], rule_tac exI [of _ u], rule_tac exI [of _ s']) simp
qed

lemma run_pass_total:
  assumes "server_inv s" and "tick_ok env s inp" and "draws_escape env (width s) (height s)"
  shows "\<exists>s'. run_pass env inp s = Some (Inr (True, s')) \<and> server_inv s' \<and>
     width s' = width s \<and> height s' = height s"
  using pass_phases [OF assms] unfolding Let_def by blast

text \<open>The conditions on the passes of a run, each on the state the pass starts in.\<close>

primrec ticks_ok :: "'g env \<Rightarrow> 'g SnakeServer \<Rightarrow> tick_input list \<Rightarrow> bool" where
  "ticks_ok env s [] \<longleftrightarrow> True"
| "ticks_ok env s (inp # inps) \<longleftrightarrow> tick_ok env s inp \<and>
     (\<forall>s'. run_pass env inp s = Some (Inr (True, s')) \<longrightarrow> ticks_ok env s' inps)"

lemma run_loop_total:
  assumes "server_inv s" and "ticks_ok env s inps" and "draws_escape env (width s) (height s)"
  shows "\<exists>s'. run_loop env inps s = Some (Inr s') \<and> server_inv s'"
  using assms
proof (induction inps arbitrary: s)
  case Nil
  then show ?case by simp
next
  case (Cons inp inps)
  from run_pass_total [OF Cons.prems(1) _ Cons.prems(3)] Cons.prems(2) obtain t where
    "run_pass env inp s = Some (Inr (True, t))" "server_inv t" "width t = width s" "height t = height s" by auto
  with Cons show ?case by simp
qed

end
