(* ===== verification/Dropped_Food.thy ===== *)
theory Dropped_Food
  imports Engine_Collisions
begin

text \<open>
  The food that dead snakes leave, exactly: one draw of the generator for each segment of a dead
  body, in order, and food in the colour of the snake wherever the draw is 1.
\<close>

text \<open>The next \<open>n\<close> draws from 1 to \<open>FOOD_SPAWN_FROM_BODY_SEGMENT_PROBABILITY\<close>, and the generator after them.\<close>

primrec rolls :: "'g env \<Rightarrow> nat \<Rightarrow> 'g \<Rightarrow> int list \<times> 'g" where
  "rolls env 0 g = ([], g)"
| "rolls env (Suc n) g =
     (let (k, g) = draw (rng env) 1 FOOD_SPAWN_FROM_BODY_SEGMENT_PROBABILITY g; (ks, g) = rolls env n g
      in (k # ks, g))"

text \<open>The remains whose draw is 1.\<close>

definition lucky :: "remains \<Rightarrow> int list \<Rightarrow> remains" where
  "lucky rs ns = map fst (filter (\<lambda>(_, n). n = 1) (zip rs ns))"

definition food_of :: "cell \<Rightarrow> int \<Rightarrow> Food" where
  "food_of c col = \<lparr>f_x = fst c, f_y = snd c, f_icon = ICON_FOOD, f_color = col\<rparr>"

lemma lucky_simps [simp]: "lucky [] ns = []" "lucky (r # rs) (n # ns) = (if n = 1 then r # lucky rs ns else lucky rs ns)"
  by (simp_all add: lucky_def)

lemma drop_all_exact:
  "drop_all env rs s = s\<lparr>gen := snd (rolls env (length rs) (gen s)),
     foodMap := fold (\<lambda>(c, col). um_set (cell_ord env) c (food_of c col)) (lucky rs (fst (rolls env (length rs) (gen s)))) (foodMap s)\<rparr>"
proof (induction rs arbitrary: s)
  case (Cons r rs)
  obtain c col where r: "r = (c, col)" by (cases r)
  obtain n g where d: "draw (rng env) 1 FOOD_SPAWN_FROM_BODY_SEGMENT_PROBABILITY (gen s) = (n, g)"
    by (cases "draw (rng env) 1 FOOD_SPAWN_FROM_BODY_SEGMENT_PROBABILITY (gen s)")
  have "drop_food env col c s = s\<lparr>gen := g,
      foodMap := if n = 1 then um_set (cell_ord env) c (food_of c col) (foodMap s) else foodMap s\<rparr>"
    by (simp add: drop_food_def d placeFoodAt_def food_of_def Let_def)
  moreover have "drop_all env (r # rs) s = drop_all env rs (drop_food env col c s)"
    by (simp add: drop_all_def r)
  ultimately show ?case by (simp add: Cons d r split_beta)
qed (simp add: drop_all_def)

lemma um_at_fold_set:
  "um_at (fold (\<lambda>(c, v). um_set ord c (f c v)) xs m) c =
     (case map_of (rev xs) c of Some v \<Rightarrow> Some (f c v) | None \<Rightarrow> um_at m c)"
proof (induction xs arbitrary: m)
  case (Cons x xs)
  then show ?case by (cases x) (auto simp: um_at_set map_add_def split: option.split)
qed simp

end
