(* ===== verification/Server_Properties.thy ===== *)
theory Server_Properties
  imports Server_Pass Dropped_Food
begin

text \<open>
  What the game engine and the server's loop guarantee, and a concrete environment and concrete
  states on which the theorems are applied.
\<close>

section \<open>A concrete environment\<close>

text \<open>A generator that counts: the n-th draw from \<open>[a, b]\<close> is \<open>a + n mod (b - a + 1)\<close>.\<close>

definition counter :: "nat uniform_int" where
  "counter = Abs_uniform_int (\<lambda>a b g. (if a \<le> b then a + int g mod (b - a + 1) else a, Suc g))"

lemma draw_counter: "draw counter a b g = (if a \<le> b then a + int g mod (b - a + 1) else a, Suc g)"
proof -
  have "a + int g mod (b - a + 1) \<le> b" if "a \<le> b" for a b g
    using that pos_mod_bound [of "b - a + 1" "int g"] by simp
  then have "(\<lambda>a b g. (if a \<le> b then a + int g mod (b - a + 1) else a, Suc g)) \<in>
      {f :: int \<Rightarrow> int \<Rightarrow> nat \<Rightarrow> int \<times> nat. \<forall>a b g. a \<le> b \<longrightarrow> a \<le> fst (f a b g) \<and> fst (f a b g) \<le> b}"
    by auto
  then show ?thesis by (simp add: counter_def Abs_uniform_int_inverse)
qed

definition demo_env :: "nat env" where
  "demo_env = \<lparr>rng = counter, mt19937 = unat, player_ord = newest_first, cell_ord = newest_first,
     net_ord = newest_first, x_first = True\<rparr>"

lemma demo_env_sel [simp]:
  "rng demo_env = counter" "mt19937 demo_env = unat" "player_ord demo_env = newest_first"
  "cell_ord demo_env = newest_first" "net_ord demo_env = newest_first" "x_first demo_env"
  by (simp_all add: demo_env_def)

lemma demo_nth_cell:
  "nth_cell demo_env 40 40 g n = (1 + int (g + 2 * n) mod 39, 1 + int (g + 2 * n + 1) mod 39)"
proof -
  have 1: "draw_cell demo_env 40 40 g = ((1 + int g mod 39, 1 + int (g + 1) mod 39), g + 2)" for g
    by (simp add: draw_cell_def draw_counter)
  have "((\<lambda>g. snd (draw_cell demo_env 40 40 g)) ^^ n) g = g + 2 * n"
    by (induction n) (simp_all add: 1)
  then show ?thesis by (simp add: nth_cell_def 1)
qed

lemma demo_draws_escape: "draws_escape demo_env 40 40"
  unfolding draws_escape_def
proof (intro allI impI, elim conjE)
  fix g and X :: "cell set"
  assume X: "finite X" "card X < MIN_FOOD_IN_ARENA"
  let ?f = "nth_cell demo_env 40 40 g"
  have "inj_on ?f {..<6}"
  proof (rule inj_onI)
    fix n m :: nat assume nm: "n \<in> {..<6}" "m \<in> {..<6}" and "?f n = ?f m"
    then have "int (g + 2 * n) mod 39 = int (g + 2 * m) mod 39" by (simp add: demo_nth_cell)
    then have "39 dvd int (g + 2 * n) - int (g + 2 * m)" by (simp only: mod_eq_dvd_iff)
    then have "39 dvd 2 * (int n - int m)" by (simp add: algebra_simps)
    then obtain k where "2 * (int n - int m) = 39 * k" by (auto elim: dvdE)
    with nm show "n = m" by (cases "k = 0") auto
  qed
  then have "card (?f ` {..<6}) = 6" by (simp add: card_image)
  with X have "\<not> ?f ` {..<6} \<subseteq> X"
    using card_mono [OF X(1), of "?f ` {..<6}"] by (auto simp: MIN_FOOD_IN_ARENA_def)
  then show "\<exists>n. ?f n \<notin> X" by blast
qed

text \<open>A server that has just started, and one with two snakes in the arena, one of them due.\<close>

definition demo_start :: "nat SnakeServer" where
  "demo_start = SnakeServer_new demo_env (projr (initServerConfig 7 None)) None (Timer_new 5 5) (NetworkServer_new 3)"

definition snake :: "PlayerNode \<Rightarrow> int \<Rightarrow> Player" where
  "snake n t = \<lparr>head = n, direction = PLAYER_KEY_UP, nextDirection = PLAYER_KEY_UP, name = [0x61],
     score = int (length (segs n)), color = 3, p_movementFrequencyMs = 200, nextMoveTime = t,
     boosted = False, boostExpireTime = 0\<rparr>"

definition two_clients :: NetworkServer where
  "two_clients = \<lparr>serverFd = 3, nextClientId = 3, fdToClientIdMap = [(8, 2), (7, 1)],
     clientIdToFdMap = [(2, 8), (1, 7)], fdToBufferMap = [(8, []), (7, [])], fdsToDisconnect = [],
     sentFrames = []\<rparr>"

definition node2 :: PlayerNode where
  "node2 = PlayerNode 10 10 10 11 (Some (new_node 10 11))"

definition demo_state :: "nat SnakeServer" where
  "demo_state = demo_start\<lparr>gen := 9, network := two_clients,
     clientIdToPlayerMap := [(2, snake (new_node 10 9) 900), (1, snake node2 0)]\<rparr>"

lemma demo_start_simps:
  "width demo_start = 40" "height demo_start = 40" "occupiedCellsBodies demo_start = replicate 1600 0"
  "clientIdToPlayerMap demo_start = []" "foodMap demo_start = []" "speedBoostMap demo_start = []"
  "serverHighScore demo_start = ([], 0)" "replayFile demo_start = None" "msgLog demo_start = []"
  "currentSequence demo_start = 0" "network demo_start = NetworkServer_new 3"
  "currentTick (timer demo_start) = 5" "movementFrequencyMs demo_start = 200"
  by (simp_all add: demo_start_def SnakeServer_new_def initServerConfig_def ARENA_WIDTH_def
      ARENA_HEIGHT_def Timer_new_def currentTick_def MOVEMENT_FREQUENCY_MS_def)

lemma demo_start_inv: "server_inv demo_start"
  by (simp add: server_inv_def engine_inv_def engine_wf_def demo_start_simps net_wf_new short_name_def)
    (simp add: NetworkServer_new_def um_keys_def)

lemma demo_state_simps:
  "width demo_state = 40" "height demo_state = 40" "occupiedCellsBodies demo_state = replicate 1600 0"
  "clientIdToPlayerMap demo_state = [(2, snake (new_node 10 9) 900), (1, snake node2 0)]"
  "foodMap demo_state = []" "speedBoostMap demo_state = []" "network demo_state = two_clients"
  "serverHighScore demo_state = ([], 0)" "replayFile demo_state = None"
  "currentTick (timer demo_state) = 5" "movementFrequencyMs demo_state = 200"
  by (simp_all add: demo_state_def demo_start_simps)

lemma demo_state_engine: "engine_inv demo_state"
proof -
  have "player_wf p \<and> settled (arena demo_state) p"
    if "um_at (clientIdToPlayerMap demo_state) cid = Some p" for cid p
    using that
    by (auto simp: demo_state_simps um_at_def player_wf_def snake_def settled_def is_direction_def
        short_name_def node2_def new_node_def touching_def split: if_splits)
  then show ?thesis
    by (simp add: engine_inv_def engine_wf_def demo_state_simps um_wf_def um_keys_def short_name_def)
qed

lemma demo_state_inv: "server_inv demo_state"
proof -
  have "net_wf two_clients"
    by (auto simp: net_wf_def two_clients_def um_wf_def um_keys_def um_at_def INT_MAX_def split: if_splits)
  then show ?thesis
    by (auto simp: server_inv_def demo_state_engine demo_state_simps two_clients_def um_keys_def
        connected_clients_def um_at_def)
qed

section \<open>Moving\<close>

lemma recordServerConfig_total:
  assumes "server_inv s"
  shows "\<exists>t. recordServerConfig s = Inr t \<and> server_inv t \<and> width t = width s \<and> height t = height s"
proof -
  obtain c where "recordServerConfig s = rbind (log_message (VServerConfig c)
      (s\<lparr>currentSequence := currentSequence s + 1\<rparr>)) (\<lambda>(_, s). Inr s)"
    by (simp add: recordServerConfig_def stampMessage_def Let_def)
  then have "recordServerConfig s = Inr (s\<lparr>currentSequence := currentSequence s + 1,
      msgLog := log_write (msgLog s) (encode (VServerConfig c))\<rparr>)"
    by (simp add: log_message_total)
  with assms show ?thesis by (simp add: server_inv_def connected_clients_def)
qed

text \<open>
  C4: \<open>updateSnakes\<close> is exact. In a state that satisfies the invariant it never throws: every
  player whose move time has come makes one step in its next direction, expired boosts end, the
  result says whether anybody moved, and afterwards the counter of each cell of the arena is the
  number of body segments (heads excluded) on it. Nothing else changes.
\<close>

theorem updateSnakes_exact:
  assumes "engine_inv s"
  shows "\<exists>oc. let m = map (\<lambda>(cid, p). (cid, step_player s p)) (clientIdToPlayerMap s);
                  s' = s\<lparr>clientIdToPlayerMap := m, occupiedCellsBodies := oc\<rparr>
     in updateSnakes s = Inr (\<exists>(cid, p)\<in>set (clientIdToPlayerMap s). nextMoveTime p \<le> currentTick (timer s), s') \<and>
        (\<forall>c\<in>arena s. occupied_at s' c = Inr (of_nat (count_list (concat (map (\<lambda>(cid, p). tl (segs (head p))) m)) c)))"
proof -
  have m: "map (\<lambda>(cid, p). (cid, step_player s p)) (clientIdToPlayerMap s) = clientIdToPlayerMap (updated s)"
    by (simp add: updated_entries step_entry_def [abs_def] case_prod_unfold)
  let ?oc = "occupiedCellsBodies (updated s)"
  have u: "updated s = s\<lparr>clientIdToPlayerMap := clientIdToPlayerMap (updated s), occupiedCellsBodies := ?oc\<rparr>"
    by (simp add: updated_def Let_def)
  have "(\<lambda>(cid, p). tl (segs (head p))) = (\<lambda>e :: int \<times> Player. body (snd e))" by (simp add: fun_eq_iff)
  then show ?thesis
    using updateSnakes_eq [OF assms] updated_occupied [OF assms] unfolding m Let_def bodies_def
    by (intro exI [of _ ?oc]) (simp add: u [symmetric] due_def)
qed

theorem updateSnakes_exact_witness: "\<exists>s'. updateSnakes demo_state = Inr (True, s') \<and> occupied_at s' (10, 10) = Inr 1"
proof -
  have p1: "step_player demo_state (snake node2 0) = snake (PlayerNode 10 9 10 10 (Some (PlayerNode 10 10 10 11 None))) 200000005"
    by (simp add: step_player_def expire_def due_def demo_state_simps snake_def vector_def node2_def new_node_def
        move_def ms_to_ns_def key_defs)
  have p2: "step_player demo_state (snake (new_node 10 9) 900) = snake (new_node 10 9) 900"
    by (simp add: step_player_def expire_def due_def demo_state_simps snake_def vector_def key_defs)
  have "(10, 10) \<in> arena demo_state" by (simp add: demo_state_simps)
  with updateSnakes_exact [OF demo_state_engine] show ?thesis
    by (auto simp: Let_def demo_state_simps p1 p2) (simp_all add: snake_def new_node_def)
qed

section \<open>Collisions\<close>

lemma collided_foods:
  "foodMap (collided s) =
     filter (\<lambda>f. fst f \<notin> head_cell ` snd ` {e \<in> set (clientIdToPlayerMap s). eats s e}) (foodMap s)"
  "speedBoostMap (collided s) =
     filter (\<lambda>f. fst f \<notin> head_cell ` snd ` {e \<in> set (clientIdToPlayerMap s). speeds_up s e}) (speedBoostMap s)"
  by (simp_all add: collided_def checked_def)

lemma in_cells:
  "c \<in> head_cell ` snd ` {e \<in> X. P e} \<longleftrightarrow> (\<exists>e\<in>X. P e \<and> head_cell (snd e) = c)"
  by (simp only: image_image image_iff Bex_def mem_Collect_eq eq_commute [of c] conj_assoc)

text \<open>
  C3: \<open>checkCollisions\<close> is exact. After a move phase (heads at most one step outside, counters
  right, fewer than 65536 body segments) it never throws, no index is out of range, and it
  removes exactly the players that \<open>dies\<close> describes on the state before: outside the arena, on a
  body segment, or not the first of the heads in a cell. Of the others exactly those eat or are
  boosted that are alone in a cell with food, or without food but with a boost; the high score
  sees every score, and the boosts that were taken are gone. The food is given cell by cell: the
  generator is asked once for every segment of a dead body, in order, and a cell whose last lucky
  segment (a draw of 1) was of some snake has food in that snake's colour; of the other cells
  those where somebody ate have none, and the rest what they had. Nothing else changes, and the
  invariant holds again.
\<close>

theorem checkCollisions_exact:
  assumes "engine_moving s" and "counted s"
  shows "\<exists>s'. let m = clientIdToPlayerMap s; rs = remains_of (filter (dies s) m);
       (ns, g) = rolls env (length rs) (gen s) in
     checkCollisions env s = Inr s' \<and> engine_inv s' \<and>
     s' = s\<lparr>clientIdToPlayerMap := map (outcome s) (filter (\<lambda>e. \<not> dies s e) m),
            serverHighScore := fold take_score (map (outcome s) m) (serverHighScore s),
            speedBoostMap := filter (\<lambda>b. \<not> (\<exists>e\<in>set m. speeds_up s e \<and> head_cell (snd e) = fst b)) (speedBoostMap s),
            foodMap := foodMap s', gen := g\<rparr> \<and>
     (\<forall>c. um_at (foodMap s') c =
        (case map_of (rev (lucky rs ns)) c of Some col \<Rightarrow> Some (food_of c col)
         | None \<Rightarrow> if \<exists>e\<in>set m. eats s e \<and> head_cell (snd e) = c then None else um_at (foodMap s) c))"
proof -
  let ?m = "clientIdToPlayerMap s" and ?rs = "remains_of (filter (dies s) (clientIdToPlayerMap s))"
  obtain ns g where ng: "rolls env (length ?rs) (gen s) = (ns, g)" by (cases "rolls env (length ?rs) (gen s)")
  from checkCollisions_inv [OF assms, of env] obtain s' where
    s': "checkCollisions env s = Inr s'" "engine_inv s'" by blast
  have wf: "um_wf ?m" by (rule engine_wfD(1) [OF engine_movingD [OF assms(1)]])
  have gen: "gen (collided s) = gen s" by (simp add: collided_def checked_def)
  have eq: "s' = (collided s)\<lparr>gen := g,
      foodMap := fold (\<lambda>(c, col). um_set (cell_ord env) c (food_of c col)) (lucky ?rs ns) (foodMap (collided s))\<rparr>"
    using checkCollisions_eq [OF wf assms(2), of env] s'(1) by (simp add: drop_all_exact gen ng)
  have eaten: "um_at (foodMap (collided s)) c =
      (if \<exists>e\<in>set ?m. eats s e \<and> head_cell (snd e) = c then None else um_at (foodMap s) c)" for c
    unfolding collided_foods um_at_filter_keys by (rule if_cong) auto
  have "um_at (foodMap s') c = (case map_of (rev (lucky ?rs ns)) c of Some col \<Rightarrow> Some (food_of c col)
         | None \<Rightarrow> um_at (foodMap (collided s)) c)" for c
    by (simp add: eq um_at_fold_set)
  then have "\<forall>c. um_at (foodMap s') c = (case map_of (rev (lucky ?rs ns)) c of Some col \<Rightarrow> Some (food_of c col)
         | None \<Rightarrow> if \<exists>e\<in>set ?m. eats s e \<and> head_cell (snd e) = c then None else um_at (foodMap s) c)"
    unfolding eaten by blast
  moreover have "speedBoostMap (collided s) =
      filter (\<lambda>b. \<not> (\<exists>e\<in>set ?m. speeds_up s e \<and> head_cell (snd e) = fst b)) (speedBoostMap s)"
    unfolding collided_foods in_cells ..
  then have "s' = s\<lparr>clientIdToPlayerMap := map (outcome s) (filter (\<lambda>e. \<not> dies s e) ?m),
      serverHighScore := fold take_score (map (outcome s) ?m) (serverHighScore s),
      speedBoostMap := filter (\<lambda>b. \<not> (\<exists>e\<in>set ?m. speeds_up s e \<and> head_cell (snd e) = fst b)) (speedBoostMap s),
      foodMap := foodMap s', gen := g\<rparr>"
    by (subst eq, subst eq) (simp add: collided_def checked_def survivors_def)
  ultimately show ?thesis using s' unfolding Let_def ng prod.case by blast
qed

lemma demo_updated_entries:
  "clientIdToPlayerMap (updated demo_state) = [(2, snake (new_node 10 9) 900),
     (1, snake (PlayerNode 10 9 10 10 (Some (PlayerNode 10 10 10 11 None))) 200000005)]"
  by (simp add: updated_entries step_entry_def demo_state_simps)
    (simp add: step_player_def expire_def due_def demo_state_simps snake_def vector_def node2_def
        new_node_def move_def ms_to_ns_def key_defs)

lemma demo_updated:
  "engine_moving (updated demo_state)" "counted (updated demo_state)" "um_wf (clientIdToPlayerMap (updated demo_state))"
proof -
  show "engine_moving (updated demo_state)" by (rule updated_moving [OF demo_state_engine])
  then show "um_wf (clientIdToPlayerMap (updated demo_state))" by (rule engine_wfD(1) [OF engine_movingD])
  show "counted (updated demo_state)"
    by (rule updated_counted [OF demo_state_engine])
      (simp add: demo_state_simps bodies_def snake_def node2_def new_node_def)
qed

lemma demo_dies:
  "dies (updated demo_state) (1, snake (PlayerNode 10 9 10 10 (Some (PlayerNode 10 10 10 11 None))) 200000005)"
  "\<not> dies (updated demo_state) (2, snake (new_node 10 9) 900)"
  by (simp_all add: dies_def Let_def demo_updated_entries head_cell_def demo_state_simps bodies_def less_arrival_def arrived_before_def)
    (simp_all add: snake_def new_node_def)

theorem checkCollisions_exact_witness:
  "\<exists>s'. checkCollisions demo_env (updated demo_state) = Inr s' \<and> um_keys (clientIdToPlayerMap s') = [2] \<and>
     um_at (foodMap s') (10, 10) = Some (food_of (10, 10) 3) \<and> gen s' = 10"
proof -
  let ?p = "snake (PlayerNode 10 9 10 10 (Some (PlayerNode 10 10 10 11 None))) 200000005"
  have alive: "filter (\<lambda>e. \<not> dies (updated demo_state) e) (clientIdToPlayerMap (updated demo_state)) =
      [(2, snake (new_node 10 9) 900)]"
    "filter (dies (updated demo_state)) (clientIdToPlayerMap (updated demo_state)) = [(1, ?p)]"
    by (simp_all add: demo_updated_entries demo_dies)
  have remains: "remains_of [(1, ?p)] = [((10, 10), 3)]" by (simp add: snake_def)
  have "gen (updated demo_state) = 9" by (simp add: updated_def demo_state_def Let_def)
  then have draws: "rolls demo_env (length [((10, 10) :: cell, 3 :: int)]) (gen (updated demo_state)) = ([1], 10)"
    by (simp add: draw_counter FOOD_SPAWN_FROM_BODY_SEGMENT_PROBABILITY_def)
  show ?thesis
    using checkCollisions_exact [OF demo_updated(1,2), of demo_env]
    unfolding Let_def alive remains draws prod.case lucky_simps
    apply (elim exE conjE)
    subgoal premises prems for s'
    proof -
      have "clientIdToPlayerMap s' = map (outcome (updated demo_state)) [(2, snake (new_node 10 9) 900)]" "gen s' = 10"
        by (subst prems(3), simp)+
      moreover have "um_at (foodMap s') (10, 10) = Some (food_of (10, 10) 3)"
        using prems(4) by simp
      ultimately show ?thesis using prems(1) by (auto simp: um_keys_def)
    qed
    done
qed

text \<open>What a check adds to the body of a survivor is the segment it grows by eating.\<close>

lemma body_outcome:
  "set (body (snd (outcome s e))) \<subseteq>
     set (body (snd e)) \<union> (if eats s e then {last (segs (head (snd (outcome s e))))} else {})"
proof (cases "eats s e")
  case True
  have "segs (head (snd e)) \<noteq> []" by (cases "head (snd e)") simp
  with True show ?thesis by (auto simp: outcome_def feed_def segs_grow)
qed (auto simp: outcome_def boost_def)

text \<open>
  C5: What collision checking guarantees. After it, every player's head is inside the arena and
  not on any body segment that was there before, and no two players share the cell of their
  heads. A head is on a body segment afterwards only if that is the last segment of a snake that
  ate in this very check and so has just grown there.
\<close>

theorem survivors_are_safe:
  assumes "engine_moving s" and "counted s" and "checkCollisions env s = Inr s'"
  shows "distinct (map (\<lambda>(cid, p). head_cell p) (clientIdToPlayerMap s')) \<and>
     (\<forall>(cid, p)\<in>set (clientIdToPlayerMap s').
        head_cell p \<in> arena s \<and> head_cell p \<notin> set (bodies (clientIdToPlayerMap s)) \<and>
        (head_cell p \<in> set (bodies (clientIdToPlayerMap s')) \<longrightarrow>
           (\<exists>e\<in>set (clientIdToPlayerMap s). eats s e \<and> outcome s e \<in> set (clientIdToPlayerMap s') \<and>
              head_cell p = last (segs (head (snd (outcome s e)))))))"
proof -
  from checkCollisions_inv [OF assms(1,2), of env] assms(3)
  have m: "clientIdToPlayerMap s' = survivors s"
    using dropped_sel(1) [of "dead_bodies s" "collided s" s'] by (auto simp: collided_def)
  have "head_cell p \<in> arena s \<and> head_cell p \<notin> set (bodies (clientIdToPlayerMap s))" if "(cid, p) \<in> set (survivors s)" for cid p
  proof -
    from that obtain e where e: "e \<in> set (clientIdToPlayerMap s)" "\<not> dies s e" "(cid, p) = outcome s e"
      by (auto simp: survivors_def)
    then have "head_cell p = head_cell (snd e)" by (metis outcome_sel(1) snd_conv)
    with e(2) show ?thesis by (simp add: dies_def Let_def)
  qed
  moreover have "\<exists>e\<in>set (clientIdToPlayerMap s). eats s e \<and> outcome s e \<in> set (survivors s) \<and>
      c = last (segs (head (snd (outcome s e))))"
    if new: "c \<in> set (bodies (survivors s))" "c \<notin> set (bodies (clientIdToPlayerMap s))" for c
  proof -
    from new(1) obtain e where e: "e \<in> set (clientIdToPlayerMap s)" "\<not> dies s e" "c \<in> set (body (snd (outcome s e)))"
      by (auto simp: set_bodies survivors_def)
    then have "outcome s e \<in> set (survivors s)" by (auto simp: survivors_def)
    moreover from e(1) new(2) have "c \<notin> set (body (snd e))" by (force simp: set_bodies)
    ultimately show ?thesis using body_outcome [of s e] e by (auto split: if_splits)
  qed
  ultimately show ?thesis
    using m survivors_heads_distinct [OF engine_wfD(1) [OF engine_movingD [OF assms(1)]]]
    by (simp only: case_prod_unfold) (metis prod.collapse)
qed

theorem survivors_are_safe_witness:
  "\<exists>s'. checkCollisions demo_env (updated demo_state) = Inr s' \<and>
     (10, 10) \<notin> (\<lambda>(cid, p). head_cell p) ` set (clientIdToPlayerMap s')"
proof -
  obtain s' where s': "checkCollisions demo_env (updated demo_state) = Inr s'"
    using checkCollisions_inv [OF demo_updated(1,2), of demo_env] by blast
  from survivors_are_safe [OF demo_updated(1,2) s']
  have "\<forall>(cid, p)\<in>set (clientIdToPlayerMap s'). head_cell p \<notin> set (bodies (clientIdToPlayerMap (updated demo_state)))"
    by auto
  moreover have "(10, 10) \<in> set (bodies (clientIdToPlayerMap (updated demo_state)))"
    by (simp add: demo_updated_entries bodies_def snake_def new_node_def)
  ultimately show ?thesis using s' by auto
qed

text \<open>The high score after the loop is the largest of all scores.\<close>

lemma snd_take_scores:
  "snd (fold take_score es hs) = Max (insert (snd hs) ((\<lambda>e. score (snd e)) ` set es))"
proof (induction es arbitrary: hs)
  case Nil
  then show ?case by simp
next
  case (Cons e es)
  have "snd (take_score e hs) = max (snd hs) (score (snd e))" by (simp add: take_score_def max_def)
  with Cons show ?case
    by (cases "es = []") (simp_all add: max.assoc max.commute max.left_commute)
qed

text \<open>Reordering the players.\<close>

lemma mset_bodies: "mset m = mset m' \<Longrightarrow> mset (bodies m) = mset (bodies m')"
proof -
  have "mset (bodies m) = (\<Sum>e\<in>#mset m. mset (body (snd e)))" for m by (induction m) (auto simp: bodies_def)
  then show "mset m = mset m' \<Longrightarrow> ?thesis" by simp
qed

lemma count_list_mset: "count_list xs x = count (mset xs) x"
  by (induction xs) simp_all

lemma reordered:
  assumes "engine_moving s" and "counted s" and "mset m = mset (clientIdToPlayerMap s)"
  defines "t \<equiv> s\<lparr>clientIdToPlayerMap := m\<rparr>"
  shows "engine_moving t" "counted t" "dies t = dies s" "outcome t = outcome s"
    "eats t = eats s" "speeds_up t = speeds_up s"
proof -
  have set: "set m = set (clientIdToPlayerMap s)" using assms(3) by (rule mset_eq_setD)
  have wf: "um_wf (clientIdToPlayerMap s)" by (rule engine_wfD(1) [OF engine_movingD [OF assms(1)]])
  have "mset (um_keys m) = mset (um_keys (clientIdToPlayerMap s))" using assms(3) by (simp add: um_keys_def)
  then have wf': "um_wf m" using wf by (metis mset_eq_imp_distinct_iff um_wf_def)
  have at: "um_at m k = um_at (clientIdToPlayerMap s) k" for k
    using um_at_in_set [OF wf] um_at_in_set [OF wf'] set by (metis not_Some_eq)
  show "engine_moving t"
    using assms(1) wf' at by (simp add: engine_moving_def engine_wf_def t_def)
  have bs: "mset (bodies m) = mset (bodies (clientIdToPlayerMap s))" by (rule mset_bodies) (rule assms(3))
  have "occupied_at t = occupied_at s" by (simp add: fun_eq_iff occupied_at_def cell_index_def t_def Let_def)
  then show "counted t"
    using assms(2) bs mset_eq_length [OF bs] by (simp add: counted_def count_list_mset t_def)
  have "length (getPlayerHeadsInCell c t) = size (filter_mset (\<lambda>e. head_cell (snd e) = c) (mset m))" for c
    by (simp add: getPlayerHeadsInCell_def t_def mset_filter [symmetric] del: mset_filter)
  then have alone: "alone t = alone s"
    by (simp add: fun_eq_iff alone_def getPlayerHeadsInCell_def assms(3) mset_filter [symmetric] del: mset_filter)
  show dies: "dies t = dies s"
    using set mset_eq_setD [OF bs] by (simp add: fun_eq_iff dies_def Let_def t_def)
  show "eats t = eats s" "speeds_up t = speeds_up s"
    by (simp_all add: fun_eq_iff eats_def speeds_up_def dies alone Let_def) (simp_all add: t_def)
  then show "outcome t = outcome s"
    by (simp add: fun_eq_iff outcome_def) (simp add: t_def boost_def)
qed

text \<open>The high score is the old one or the first of the largest scores.\<close>

lemma take_scores_in:
  "fold take_score es hs = hs \<or> snd hs < snd (fold take_score es hs) \<and>
     (\<exists>e\<in>set es. fold take_score es hs = (name (snd e), score (snd e)))"
proof (induction es arbitrary: hs)
  case (Cons e es)
  have "take_score e hs = hs \<or> snd hs < snd (take_score e hs) \<and> take_score e hs = (name (snd e), score (snd e))"
    by (simp add: take_score_def)
  with Cons [of "take_score e hs"] show ?case by (auto intro: less_trans)
qed simp

lemma take_scores_same:
  assumes "set es = set es'"
    and "\<forall>e\<in>set es. \<forall>e'\<in>set es. score (snd e) = score (snd e') \<and> score (snd e) = snd (fold take_score es hs) \<longrightarrow>
      name (snd e) = name (snd e')"
  shows "fold take_score es hs = fold take_score es' hs"
proof -
  have eq: "snd (fold take_score es hs) = snd (fold take_score es' hs)" by (simp add: snd_take_scores assms(1))
  consider "fold take_score es hs = hs" "fold take_score es' hs = hs"
    | "\<exists>e\<in>set es. fold take_score es hs = (name (snd e), score (snd e))"
      "\<exists>e\<in>set es. fold take_score es' hs = (name (snd e), score (snd e))"
    using take_scores_in [of es hs] take_scores_in [of es' hs] eq unfolding assms(1) by force
  then show ?thesis
  proof cases
    case 2
    then show ?thesis using assms(2) eq by (metis fst_conv snd_conv)
  qed simp
qed

lemma outside_dead_bodies:
  assumes "dropped cs s s'" and "c \<notin> cs"
  shows "um_at (foodMap s') c = um_at (foodMap s) c"
proof -
  from assms(1) have "um_at (foodMap s') c = Some f \<Longrightarrow> um_at (foodMap s) c = Some f" for f
    using assms(2) unfolding dropped_def food_grows_def by fastforce
  moreover from assms(1) have "um_at (foodMap s) c \<noteq> None \<Longrightarrow> um_at (foodMap s') c \<noteq> None"
    unfolding dropped_def food_grows_def um_contains_def by fastforce
  ultimately show ?thesis by (metis not_None_eq)
qed

text \<open>
  C6: Who survives a collision check does not depend on the iteration order of the player map, nor
  on the random numbers. From two states that differ only in the order of the players, the same
  players survive, in the same condition, the same boosts are left and, outside the bodies of the
  dead, the same food, and the high score has the same value; its holder is the same too unless
  two players of different names share that score. (On such a tie the first in the iteration
  order gets the entry, and the food on dead bodies is drawn in that order: these two do depend
  on it.)
\<close>

theorem collisions_order_independent:
  assumes "engine_moving s" and "counted s" and "mset m = mset (clientIdToPlayerMap s)"
    and "checkCollisions env s = Inr s'" and "checkCollisions env' (s\<lparr>clientIdToPlayerMap := m\<rparr>) = Inr t'"
  shows "mset (clientIdToPlayerMap t') = mset (clientIdToPlayerMap s') \<and>
     snd (serverHighScore t') = snd (serverHighScore s') \<and>
     ((\<forall>e\<in>set m. \<forall>e'\<in>set m.
         score (snd (outcome s e)) = score (snd (outcome s e')) \<and>
         score (snd (outcome s e)) = snd (serverHighScore s') \<longrightarrow> name (snd e) = name (snd e')) \<longrightarrow>
       serverHighScore t' = serverHighScore s') \<and>
     speedBoostMap t' = speedBoostMap s' \<and>
     (\<forall>c. c \<notin> dead_bodies s \<longrightarrow> um_at (foodMap t') c = um_at (foodMap s') c)"
proof -
  let ?t = "s\<lparr>clientIdToPlayerMap := m\<rparr>"
  note re = reordered [OF assms(1-3)]
  have set: "set m = set (clientIdToPlayerMap s)" using assms(3) by (rule mset_eq_setD)
  have result: "clientIdToPlayerMap u' = survivors u \<and>
      serverHighScore u' = fold take_score (map (outcome u) (clientIdToPlayerMap u)) (serverHighScore u) \<and>
      speedBoostMap u' = speedBoostMap (collided u) \<and>
      (\<forall>c. c \<notin> dead_bodies u \<longrightarrow> um_at (foodMap u') c = um_at (foodMap (collided u)) c)"
    if mv: "engine_moving u" and ct: "counted u" and res: "checkCollisions e u = Inr u'"
    for u u' :: "'a SnakeServer" and e :: "'a env"
  proof -
    from checkCollisions_inv [OF mv ct, of e] res have d: "dropped (dead_bodies u) (collided u) u'" by simp
    then show ?thesis using outside_dead_bodies [OF d] by (auto simp: dropped_def collided_def checked_def)
  qed
  note rs = result [OF assms(1,2,4)] and rt = result [OF re(1,2) assms(5)]
  have "mset (survivors ?t) = mset (survivors s)"
    using assms(3) by (simp add: survivors_def re(3,4))
  then have players: "mset (clientIdToPlayerMap t') = mset (clientIdToPlayerMap s')" using rs rt by simp
  have hs: "serverHighScore s' = fold take_score (map (outcome s) (clientIdToPlayerMap s)) (serverHighScore s)"
    "serverHighScore t' = fold take_score (map (outcome s) m) (serverHighScore s)"
    using rs rt by (simp_all add: re(4))
  then have same_value: "snd (serverHighScore t') = snd (serverHighScore s')" by (simp add: snd_take_scores set)
  have dead: "dead_bodies ?t = dead_bodies s" by (simp add: dead_bodies_def re(3) set)
  have maps: "foodMap (collided ?t) = foodMap (collided s)" "speedBoostMap (collided ?t) = speedBoostMap (collided s)"
    by (simp_all add: collided_foods re(5,6) set)
  then have boosts: "speedBoostMap t' = speedBoostMap s'" using rs rt by simp
  have food: "\<forall>c. c \<notin> dead_bodies s \<longrightarrow> um_at (foodMap t') c = um_at (foodMap s') c"
    using rs rt dead maps(1) by simp
  have holder: "serverHighScore t' = serverHighScore s'"
    if same: "\<forall>e\<in>set m. \<forall>e'\<in>set m. score (snd (outcome s e)) = score (snd (outcome s e')) \<and>
         score (snd (outcome s e)) = snd (serverHighScore s') \<longrightarrow> name (snd e) = name (snd e')"
  proof -
    have "name (snd e) = name (snd e')"
      if es: "e \<in> outcome s ` set m" "e' \<in> outcome s ` set m" "score (snd e) = score (snd e')"
        "score (snd e) = snd (serverHighScore s')" for e e'
    proof -
      from es(1,2) obtain d d' where d: "d \<in> set m" "e = outcome s d" "d' \<in> set m" "e' = outcome s d'" by blast
      with bspec [OF bspec [OF same d(1)] d(3)] es(3,4) show ?thesis by simp
    qed
    then have "\<forall>e\<in>set (map (outcome s) (clientIdToPlayerMap s)). \<forall>e'\<in>set (map (outcome s) (clientIdToPlayerMap s)).
        score (snd e) = score (snd e') \<and>
        score (snd e) = snd (fold take_score (map (outcome s) (clientIdToPlayerMap s)) (serverHighScore s)) \<longrightarrow>
        name (snd e) = name (snd e')"
      unfolding hs(1) [symmetric] set_map set [symmetric] by blast
    from take_scores_same [OF _ this, of "map (outcome s) m"] show ?thesis
      unfolding hs by (metis set set_map)
  qed
  show ?thesis
    by (intro conjI impI players same_value boosts food holder)
qed

theorem collisions_order_independent_witness:
  "\<exists>s' t'. checkCollisions demo_env (updated demo_state) = Inr s' \<and>
     checkCollisions demo_env ((updated demo_state)\<lparr>clientIdToPlayerMap := rev (clientIdToPlayerMap (updated demo_state))\<rparr>) = Inr t' \<and>
     mset (clientIdToPlayerMap t') = mset (clientIdToPlayerMap s')"
proof -
  let ?m = "rev (clientIdToPlayerMap (updated demo_state))"
  have m: "mset ?m = mset (clientIdToPlayerMap (updated demo_state))" by simp
  obtain s' where s': "checkCollisions demo_env (updated demo_state) = Inr s'"
    using checkCollisions_inv [OF demo_updated(1,2), of demo_env] by blast
  obtain t' where t': "checkCollisions demo_env ((updated demo_state)\<lparr>clientIdToPlayerMap := ?m\<rparr>) = Inr t'"
    using checkCollisions_inv [OF reordered(1,2) [OF demo_updated(1,2) m], of demo_env] by blast
  from collisions_order_independent [OF demo_updated(1,2) m s' t']
  have "mset (clientIdToPlayerMap t') = mset (clientIdToPlayerMap s')" by (rule conjunct1)
  with s' t' show ?thesis by blast
qed

text \<open>
  C24: A snake that is fed before its first move kills itself. A player whose head is a freshly
  spawned node that has eaten carries a body segment on its own head cell. The next move phase
  that moves somebody else, but not yet this player, succeeds and removes the player, wherever it
  is and whatever the others do.
\<close>

theorem fed_before_first_move_dies:
  assumes "engine_inv s" and "segments_of s < 2 ^ 16" and "(cid, p) \<in> set (clientIdToPlayerMap s)"
    and "head p = grow (new_node x y)" and "currentTick (timer s) < nextMoveTime p"
    and "(cid', q) \<in> set (clientIdToPlayerMap s)" and "nextMoveTime q \<le> currentTick (timer s)"
  shows "\<exists>s'. move_phase env (changed, s) = Inr (True, s') \<and> \<not> um_contains (clientIdToPlayerMap s') cid"
proof -
  let ?u = "updated s"
  have mv: "engine_moving ?u" by (rule updated_moving [OF assms(1)])
  have ct: "counted ?u" by (rule updated_counted [OF assms(1,2)])
  have up: "updateSnakes s = Inr (True, ?u)"
    using updateSnakes_eq [OF assms(1)] assms(6,7) by (force simp: due_def)
  from checkCollisions_inv [OF mv ct, of env] obtain t where
    t: "checkCollisions env ?u = Inr t" "dropped (dead_bodies ?u) (collided ?u) t" by blast
  have p: "(cid, step_player s p) \<in> set (clientIdToPlayerMap ?u)" "head (step_player s p) = grow (new_node x y)"
    using assms(3,4,5) by (force simp: updated_entries step_entry_def)
      (use assms(5) in \<open>simp add: step_player_def due_def assms(4) Let_def split: prod.split\<close>)
  then have "(x, y) \<in> set (bodies (clientIdToPlayerMap ?u))" "head_cell (step_player s p) = (x, y)"
    by (force simp: set_bodies new_node_def) (simp add: head_cell_def p(2), simp add: new_node_def)
  then have dead: "dies ?u (cid, step_player s p)" by (simp add: dies_def Let_def)
  have wf: "um_wf (clientIdToPlayerMap ?u)" by (rule engine_wfD(1) [OF engine_movingD [OF mv]])
  have "cid \<notin> set (um_keys (survivors ?u))"
  proof
    assume "cid \<in> set (um_keys (survivors ?u))"
    then obtain e where e: "e \<in> set (clientIdToPlayerMap ?u)" "\<not> dies ?u e" "fst e = cid"
      by (auto simp: survivors_def um_keys_def)
    with wf p(1) have "e = (cid, step_player s p)" by (auto simp: um_wf_def um_keys_def distinct_map inj_on_def)
    with e dead show False by simp
  qed
  moreover have "clientIdToPlayerMap (placeSpeedBoost env t) = survivors ?u"
    using t(2) by (auto simp: dropped_def collided_def placeSpeedBoost_def Let_def split: prod.split)
  ultimately have "\<not> um_contains (clientIdToPlayerMap (placeSpeedBoost env t)) cid" by (simp add: um_contains_iff)
  with up t(1) show ?thesis by (simp add: move_phase_def)
qed

definition fed_state :: "nat SnakeServer" where
  "fed_state = demo_start\<lparr>clientIdToPlayerMap := [(4, snake (grow (new_node 20 20)) 900), (1, snake node2 0)]\<rparr>"

lemma fed_state_simps:
  "clientIdToPlayerMap fed_state = [(4, snake (grow (new_node 20 20)) 900), (1, snake node2 0)]"
  "currentTick (timer fed_state) = 5" "width fed_state = 40" "height fed_state = 40"
  by (simp_all add: fed_state_def demo_start_simps)

lemma fed_state_inv: "engine_inv fed_state"
proof -
  have "player_wf p \<and> settled (arena fed_state) p"
    if "um_at (clientIdToPlayerMap fed_state) cid = Some p" for cid p
    using that
    by (auto simp: fed_state_def demo_start_simps um_at_def player_wf_def snake_def settled_def is_direction_def
        short_name_def node2_def new_node_def touching_def split: if_splits)
  then show ?thesis
    by (simp add: engine_inv_def engine_wf_def)
      (simp add: fed_state_def demo_start_simps um_wf_def um_keys_def short_name_def)
qed

theorem fed_before_first_move_dies_witness:
  "\<exists>s'. move_phase demo_env (False, fed_state) = Inr (True, s') \<and> \<not> um_contains (clientIdToPlayerMap s') 4"
  by (rule fed_before_first_move_dies [OF fed_state_inv, where p = "snake (grow (new_node 20 20)) 900"
        and q = "snake node2 0" and cid' = 1 and x = 20 and y = 20])
    (simp_all add: fed_state_simps bodies_def snake_def node2_def new_node_def)

section \<open>Steering, joining\<close>

text \<open>
  C16: Input steers, but never back. An input message sets the next direction of its sender to the
  requested one exactly if that is a direction and not the opposite of the one the snake last
  moved in; any other input and any unknown sender changes nothing, and so no sequence of inputs
  between two moves can turn a snake around. No other player and no other part of the state is
  touched.
\<close>

theorem input_steers_never_back:
  "handleClientInput msg s = s\<lparr>clientIdToPlayerMap :=
     um_modify (sint (clientId (ci_hdr msg)))
       (\<lambda>p. if is_direction (ci_input msg) \<and> direction p \<noteq> opposite (ci_input msg)
            then p\<lparr>nextDirection := ci_input msg\<rparr> else p) (clientIdToPlayerMap s)\<rparr>"
proof -
  have "steer k = (\<lambda>p. if is_direction k \<and> direction p \<noteq> opposite k then p\<lparr>nextDirection := k\<rparr> else p)" for k
    by (rule ext) (auto simp: steer_def is_direction_def opposite_def key_defs)
  moreover have "um_modify cid f m = m" if "\<not> um_contains m cid" for cid f and m :: "(int, Player) umap"
    using that by (induction m) (auto simp: um_modify_def um_contains_def um_at_def split: if_splits)
  then have "\<not> um_contains (clientIdToPlayerMap s) cid \<Longrightarrow>
      s\<lparr>clientIdToPlayerMap := um_modify cid f (clientIdToPlayerMap s)\<rparr> = s" for cid f
    by simp
  ultimately show ?thesis by (simp add: handleClientInput_def Let_def)
qed

text \<open>
  C26: Joining an ended connection crashes the server. If a live server handles a well-formed join
  of a client whose connection has been torn down in the same pass, because the packet that held
  the join also held an oversized length, the lookup of its descriptor throws, and nothing
  catches that.
\<close>

theorem join_after_disconnect_throws:
  assumes "0 \<in> set (cj_username msg)" and "replayFile s = None"
    and "\<not> um_contains (clientIdToFdMap (network s)) (sint (clientId (cj_hdr msg)))"
  shows "handleClientJoin env snd_res msg s = Inl OutOfRange"
proof -
  from assms(1) obtain t where t: "createNewPlayer env msg s = Inr t"
    by (cases "createNewPlayer env msg s") (auto simp: createNewPlayer_def c_string_def Let_def split: prod.splits)
  then have io: "io t = io s" by (rule io_createNewPlayer)
  let ?w = "header_update (stamp t) (VServerWelcome \<lparr>sw_hdr = header_of SERVER_WELCOME (clientId (cj_hdr msg))\<rparr>)"
  have "log_message ?w (t\<lparr>currentSequence := currentSequence t + 1\<rparr>) =
      Inr (encode ?w, t\<lparr>currentSequence := currentSequence t + 1, msgLog := log_write (msgLog t) (encode ?w)\<rparr>)"
    by (subst log_message_total) simp_all
  with t io assms(2,3) show ?thesis
    by (simp add: handleClientJoin_def stampMessage_def isInReplay_def sendToClient_def io_def
        um_contains_def del: header_update.simps)
qed

theorem join_after_disconnect_throws_witness:
  "handleClientJoin demo_env (\<lambda>_ frame. int (length frame))
     \<lparr>cj_hdr = header_of CLIENT_JOIN 9, cj_username = replicate 16 0\<rparr> demo_state = Inl OutOfRange"
  by (rule join_after_disconnect_throws)
    (simp_all add: demo_state_simps two_clients_def um_contains_def um_at_def header_of_def)

text \<open>
  C25: One malformed frame stops the server. If a frame within the size limit that a live server
  receives is not accepted by \<open>deserialise\<close>, the pass ends with its exception before any message,
  also of the other clients, is handled.
\<close>

theorem malformed_frame_throws:
  assumes "replayFile s = None"
    and "net_pollMessages (net_ord env) (events inp) (network s) = Inr (frames, net)"
    and "(cid, frame) \<in> set frames" and "deserialise frame = Inl e"
  shows "\<exists>e'. run_pass env inp s = Some (Inl (WireError e'))"
proof -
  let ?f = "\<lambda>(cid, frame) messages.
         rbind (lift_wire (deserialise_for frame (word_of_int cid))) (\<lambda>m. Inr (messages @ [m]))"
  have "\<exists>e'. rfold ?f frames acc = Inl (WireError e')" for acc
    using assms(3)
  proof (induction frames arbitrary: acc)
    case (Cons cf frames)
    obtain c f where cf: "cf = (c, f)" by (cases cf)
    show ?case
    proof (cases "deserialise f")
      case (Inl e'')
      then show ?thesis by (simp add: cf deserialise_for_def)
    next
      case (Inr m)
      with Cons.prems assms(4) have "(cid, frame) \<in> set frames" by (auto simp: cf)
      with Cons.IH Inr show ?thesis by (simp add: cf deserialise_for_def)
    qed
  qed simp
  then obtain e' where "decode_frames frames = Inl (WireError e')" unfolding decode_frames_def by blast
  then show ?thesis using assms(1,2) by (simp add: run_pass_def pollMessages_def)
qed

definition packet_event :: "int \<Rightarrow> bytes \<Rightarrow> os_event" where
  "packet_event fd bs =
     \<lparr>ev_fd = fd, ev_accept = -1, ev_fcntl_ok = True, ev_epoll_ok = True, ev_recv = RecvBytes bs\<rparr>"

definition quiet :: "os_event list \<Rightarrow> tick_input" where
  "quiet evs = \<lparr>events = evs, clock = 6, send_result = \<lambda>_ frame. int (length frame)\<rparr>"

theorem malformed_frame_throws_witness:
  "\<exists>e'. run_pass demo_env (quiet [packet_event 7 [1, 0, 0, 0, 9]]) demo_state = Some (Inl (WireError e'))"
proof -
  have loop: "parse_loop 64 [1, 0, 0, 0, 9] = ([[9]], [], False)" by (simp add: parse_loop.simps)
  have "\<exists>net. net_pollMessages newest_first [packet_event 7 [1, 0, 0, 0, 9]] two_clients = Inr ([(1, [9])], net)"
    by (simp add: net_pollMessages_def two_clients_def handle_event_def packet_event_def um_at_def Let_def
        parseReceivedPacket_def SERVER_RECV_MAX_MESSAGE_SIZE_def loop)
  then obtain net where poll: "net_pollMessages (net_ord demo_env) (events (quiet [packet_event 7 [1, 0, 0, 0, 9]]))
      (network demo_state) = Inr ([(1, [9])], net)"
    by (auto simp: demo_state_simps quiet_def)
  have des: "deserialise [9] = Inl TruncatedFrame"
    by (simp add: deserialise_def deserialiseHeader_def readRawBytes_short)
  show ?thesis
    by (rule malformed_frame_throws [OF _ poll _ des]) (simp_all add: demo_state_simps)
qed

section \<open>Passes and runs\<close>

text \<open>
  C11: \<open>replaceFood\<close> terminates. If, from any state of the generator, drawing cells finally hits
  one outside any given set of fewer than six cells, the loop returns; then there are at least
  six pieces of food, the invariant still holds, and nothing but food and generator has changed.
\<close>

theorem replaceFood_terminates:
  assumes "draws_escape env (width s) (height s)" and "engine_inv s"
  shows "\<exists>s'. replaceFood env s = Some s' \<and> engine_inv s' \<and> MIN_FOOD_IN_ARENA \<le> length (foodMap s') \<and>
     s' = s\<lparr>gen := gen s', foodMap := foodMap s'\<rparr>"
  using replaceFood_total [OF assms] unfolding restocked_def by blast

theorem replaceFood_terminates_witness:
  "\<exists>s'. replaceFood demo_env demo_state = Some s' \<and> 6 \<le> length (foodMap s')"
  using replaceFood_terminates [of demo_env demo_state] demo_draws_escape demo_state_engine
  by (auto simp: demo_state_simps MIN_FOOD_IN_ARENA_def)

text \<open>
  C2: A pass of the live server succeeds. From a state with the server's invariant (engine and
  connection tables consistent, nothing marked for disconnection, every player connected), a
  pass in which the kernel reports sound events, every frame is well formed, every joiner has a
  terminated name and stays connected, and every send succeeds, returns without an exception
  and re-establishes the invariant.
\<close>

theorem pass_succeeds:
  assumes "server_inv s" and "tick_ok env s inp" and "draws_escape env (width s) (height s)"
  shows "\<exists>s'. run_pass env inp s = Some (Inr (True, s')) \<and> server_inv s'"
  using run_pass_total [OF assms] by blast

text \<open>A pass with a client that steers and one that comes.\<close>

definition steer_left :: bytes where
  "steer_left = encode (VClientInput \<lparr>ci_hdr = header_of CLIENT_INPUT 1, ci_input = PLAYER_KEY_LEFT\<rparr>)"

definition demo_tick :: tick_input where
  "demo_tick = quiet [packet_event 7 (make_frame steer_left), accept_event 3 9]"

lemma demo_tick_ok: "tick_ok demo_env demo_state demo_tick"
proof -
  have len: "length steer_left = 25" by (simp add: steer_left_def encode_def)
  have loop: "parse_loop 64 (make_frame steer_left) = ([steer_left], [], False)"
    using parse_loop_frame [of steer_left 64 "[]"] len by (simp add: parse_loop_nil)
  have dec: "deserialise steer_left = Inr (VClientInput \<lparr>ci_hdr = header_of CLIENT_INPUT 1, ci_input = PLAYER_KEY_LEFT\<rparr>)"
    unfolding steer_left_def by (rule deserialise_encode) (simp add: wf_msg_def header_of_def)
  have "\<exists>net. net_pollMessages newest_first (events demo_tick) two_clients = Inr ([(1, steer_left)], net) \<and>
      nextClientId net = 4"
    by (simp add: net_pollMessages_def two_clients_def handle_event_def packet_event_def um_at_def Let_def
        parseReceivedPacket_def SERVER_RECV_MAX_MESSAGE_SIZE_def loop demo_tick_def quiet_def accept_event_def
        acceptNewClient_def INT_MAX_def)
  moreover have "events_ok two_clients (events demo_tick)"
    by (simp add: events_ok_def event_ok_def demo_tick_def quiet_def packet_event_def accept_event_def
        two_clients_def um_at_def INT_MAX_def)
  ultimately show ?thesis
    using dec
    by (auto simp: tick_ok_def demo_state_simps frame_ok_def sends_ok_def send_failed_def bodies_def
        snake_def node2_def new_node_def demo_tick_def quiet_def)
qed

theorem pass_succeeds_witness:
  "\<exists>s'. run_pass demo_env demo_tick demo_state = Some (Inr (True, s')) \<and> server_inv s'"
  by (rule pass_succeeds [OF demo_state_inv demo_tick_ok]) (simp add: demo_state_simps demo_draws_escape)

text \<open>
  C1: A live run succeeds. If every pass of the environment is sound in the state it starts in, the
  server runs through all of them without an exception and without getting stuck, and the
  invariant holds in the end.
\<close>

theorem run_succeeds:
  assumes "server_inv s" and "\<And>t. recordServerConfig s = Inr t \<Longrightarrow> ticks_ok env t inps"
    and "draws_escape env (width s) (height s)"
  shows "\<exists>s'. run_server env inps s = Some (Inr s') \<and> server_inv s'"
proof -
  from recordServerConfig_total [OF assms(1)] obtain t where
    t: "recordServerConfig s = Inr t" "server_inv t" "width t = width s" "height t = height s" by blast
  with run_loop_total [of t env inps] assms(2,3) show ?thesis by (auto simp: run_server_def)
qed

theorem run_succeeds_witness: "\<exists>s'. run_server demo_env [demo_tick] demo_state = Some (Inr s') \<and> server_inv s'"
proof (rule run_succeeds [OF demo_state_inv])
  fix t assume "recordServerConfig demo_state = Inr t"
  then have "network t = network demo_state" "clientIdToPlayerMap t = clientIdToPlayerMap demo_state"
    by (auto simp: recordServerConfig_def stampMessage_def log_message_def Let_def rbind_eq_Inr)
  with demo_tick_ok show "ticks_ok demo_env t [demo_tick]" by (simp add: tick_ok_def)
qed (simp add: demo_state_simps demo_draws_escape)

section \<open>The theorems on the log, applied\<close>

lemma demo_ticks_ok:
  assumes "recordServerConfig demo_start = Inr t" shows "ticks_ok demo_env t [quiet []]"
proof -
  have same: "network t = network demo_start" "clientIdToPlayerMap t = clientIdToPlayerMap demo_start"
    using assms by (auto simp: recordServerConfig_def stampMessage_def log_message_def Let_def rbind_eq_Inr)
  have "tick_ok demo_env t (quiet [])"
    by (auto simp: tick_ok_def same demo_start_simps quiet_def events_ok_def sends_ok_def send_failed_def
        net_pollMessages_def NetworkServer_new_def bodies_def)
  then show ?thesis by simp
qed

lemma demo_run: "\<exists>s'. run_server demo_env [quiet []] demo_start = Some (Inr s')"
proof -
  from recordServerConfig_total [OF demo_start_inv] obtain t where
    t: "recordServerConfig demo_start = Inr t" "server_inv t" "width t = 40" "height t = 40"
    by (auto simp: demo_start_simps)
  with run_loop_total [OF t(2) demo_ticks_ok [OF t(1)]] demo_draws_escape show ?thesis
    by (auto simp: run_server_def)
qed

theorem server_log_sequence_witness:
  "\<exists>s' c mss. run_server demo_env [quiet []] demo_start = Some (Inr s') \<and>
     (\<forall>i<length (VServerConfig c # concat mss). sequence (header ((VServerConfig c # concat mss) ! i)) = of_nat i)"
proof -
  obtain s' where s': "run_server demo_env [quiet []] demo_start = Some (Inr s')" using demo_run by blast
  from server_log_sequence [OF s'] show ?thesis
    using s' unfolding Let_def demo_start_simps by blast
qed

lemma serialise_config: "serialise (VServerConfig c) = Inr (encode (VServerConfig c))"
  by (rule serialise_eq) simp

lemma quiet_pass_silent:
  assumes "run_pass demo_env (quiet []) s = Some (Inr (go, s'))" and "clientIdToPlayerMap s = []"
    and "fdsToDisconnect (network s) = []" and "replayFile s = None"
  shows "go \<and> msgLog s' = msgLog s"
proof -
  let ?t = "s\<lparr>network := (network s)\<lparr>fdsToDisconnect := []\<rparr>, timer := Timer_tick (clock (quiet [])) (timer s)\<rparr>"
  have "pollMessages demo_env (quiet []) s = Inr (Some [], ?t)"
    using assms(3,4) by (simp add: pollMessages_def net_pollMessages_def decode_frames_def quiet_def
        add_disconnects_def drainDisconnects_def guard_or_def)
  with assms(1) obtain u where u: "replaceFood demo_env ?t = Some u" and go: go
    and s': "after_food demo_env (send_result (quiet [])) [] u = Inr s'"
    by (auto simp: run_pass_def bind_eq_Some_conv rbind_eq_Inr)
  from io_replaceFood [OF u] have log: "msgLog u = msgLog s" by (simp add: io_def)
  have "clientIdToPlayerMap u = clientIdToPlayerMap ?t"
    by (rule replaceFood.raw_induct [rotated, OF u]) (auto split: if_splits simp: placeFood_def placeFoodAt_def Let_def case_prod_unfold)
  then have "msgLog s' = msgLog u"
    using s' assms(2) by (auto simp: after_food_def move_phase_def updateSnakes_def rbind_eq_Inr um_keys_def)
  with log go show ?thesis by simp
qed

lemma demo_start_idle:
  assumes "recordServerConfig demo_start = Inr t"
  shows "\<exists>c. msgLog t = log_write [] (encode (VServerConfig c)) \<and> replayFile t = None \<and>
     clientIdToPlayerMap t = [] \<and> fdsToDisconnect (network t) = []"
  using assms by (auto simp: recordServerConfig_def stampMessage_def log_message_def Let_def rbind_eq_Inr
      demo_start_simps NetworkServer_new_def
      serialise_config lift_wire_Inr simp del: serialise.simps)

lemma run_loop_once:
  assumes "run_loop env [inp] s = Some (Inr s')" shows "\<exists>go. run_pass env inp s = Some (Inr (go, s'))"
proof -
  from assms obtain res where res: "run_pass env inp s = Some res"
    and rest: "(case res of Inl e \<Rightarrow> Some (Inl e) | Inr (go, s) \<Rightarrow> if go then Some (Inr s) else Some (Inr s)) = Some (Inr s')"
    unfolding run_loop.simps bind_eq_Some_conv by blast
  from rest have "snd (projr res) = s' \<and> res = Inr (fst (projr res), s')"
    by (simp split: sum.splits prod.splits)
  with res show ?thesis by metis
qed

lemma length_config: "length (encode (VServerConfig c)) = length (encode (VServerConfig c'))"
  by (simp add: encode_def)

text \<open>The log of the idle run holds the configuration only.\<close>

lemma demo_log:
  assumes s': "run_server demo_env [quiet []] demo_start = Some (Inr s')"
    and wr: "written [] (VServerConfig c # ms) (msgLog s')"
  shows "ms = []"
proof -
  from s' obtain t where t: "recordServerConfig demo_start = Inr t"
    and "run_loop demo_env [quiet []] t = Some (Inr s')"
    by (auto simp: run_server_def split: sum.splits)
  then obtain go where pass: "run_pass demo_env (quiet []) t = Some (Inr (go, s'))"
    using run_loop_once by blast
  from demo_start_idle [OF t] obtain c' where
    log_t: "msgLog t = log_write [] (encode (VServerConfig c'))" "replayFile t = None"
    "clientIdToPlayerMap t = []" "fdsToDisconnect (network t) = []" by blast
  from wr obtain bss where bss: "map serialise ms = map Inr bss"
    "msgLog s' = fold (\<lambda>bs out. log_write out bs) bss (log_write [] (encode (VServerConfig c)))"
    by (auto simp: written_def serialise_config map_eq_Cons_conv simp del: serialise.simps)
  have "length (log_write [] (encode (VServerConfig c))) = length (log_write [] (encode (VServerConfig c')))"
    using length_config [of c c'] by (simp add: log_write_def Let_def)
  with bss(2) quiet_pass_silent [OF pass log_t(3,4,2)] log_t(1) have "length bss = 0"
    using length_log_writes [of "log_write [] (encode (VServerConfig c))" bss] by (elim conjE) simp
  with bss(1) show "ms = []" by (metis list.map_disc_iff length_0_conv)
qed

theorem server_log_replayable_witness:
  "\<exists>s' c r. run_server demo_env [quiet []] demo_start = Some (Inr s') \<and> sc_seed c = 7 \<and>
     log_first (MessageLogReader_new (msgLog s')) = Inr (Some (VServerConfig c), r) \<and> read_batches r = Some (Inr [])"
proof -
  obtain s' where s': "run_server demo_env [quiet []] demo_start = Some (Inr s')" using demo_run by blast
  have init: "replayFile demo_start = None" "msgLog demo_start = []" "seed demo_start = 7"
    by (simp_all add: demo_start_def SnakeServer_new_def initServerConfig_def)
  have "sorted_wrt (<) (map clock [quiet []])" "\<forall>inp\<in>set [quiet []]. 0 < clock inp \<and> clock inp < 2 ^ 63"
    by (simp_all add: quiet_def)
  from server_log_replayable [OF s' init(1,2) this] obtain c mss where
    c: "sc_seed c = seed demo_start" and mss: "length mss = length [quiet []]" and
    wr: "written [] (VServerConfig c # concat mss) (msgLog s')" and
    rd: "(\<forall>m\<in>set (VServerConfig c # concat mss). length (encode m) < 2 ^ 32) \<longrightarrow>
       (\<exists>r. log_first (MessageLogReader_new (msgLog s')) = Inr (Some (VServerConfig c), r) \<and>
            read_batches r = Some (Inr (filter (\<lambda>ms. ms \<noteq> []) mss)))" by blast
  have none: "concat mss = []" by (rule demo_log [OF s' wr])
  have "length (encode (VServerConfig c)) < 2 ^ 32" by (simp add: encode_def)
  with rd none mss s' c init(3) show ?thesis by (auto simp: filter_empty_conv)
qed

end
