(* ===== verification/Client_State.thy ===== *)
theory Client_State
  imports Framing Unordered_Map
begin

text \<open>
  \<open>include/snake_client/GameState.h\<close>: the copy of the game state that the terminal client and
  the bot keep, and \<open>fromProtocol\<close>, which builds it from a message; and the exceptions of the
  client side. Integers are \<open>int\<close> here, read from the words of the message with their sign.
\<close>

section \<open>Exceptions of the clients\<close>

datatype client_error =
    PartialSend
  | SendFailed
  | RecvFailed int
  | ServerDisconnected
  | FrameTooBig
  | BadFrame wire_error
  | UnexpectedMessage \<comment> \<open>the \<open>runtime_error\<close> on a message type a client does not expect\<close>
  | BadAlternative \<comment> \<open>\<open>std::get\<close> of another alternative\<close>
  | UnterminatedName \<comment> \<open>a C string read past the end of its array (undefined behaviour)\<close>
  | NoSegments \<comment> \<open>\<open>segments[0]\<close> of an empty vector (undefined behaviour)\<close>
  | NoSuchPlayer \<comment> \<open>\<open>players.at\<close>\<close>
  | CellOutOfRange \<comment> \<open>\<open>at\<close> of a vector\<close>

primrec lift_frame :: "wire_error + 'a \<Rightarrow> client_error + 'a" where
  "lift_frame (Inl e) = Inl (BadFrame e)"
| "lift_frame (Inr x) = Inr x"

lemma lift_frame_Inr: "lift_frame r = Inr x \<longleftrightarrow> r = Inr x"
  by (cases r) simp_all

section \<open>The state\<close>

record PlayerData =
  pd_clientId :: int
  pd_direction :: byte
  pd_name :: bytes
  pd_score :: int
  pd_color :: int
  pd_segments :: "cell list"

record FoodData =
  fd_x :: int
  fd_y :: int
  fd_icon :: byte
  fd_color :: int

record SpeedBoostsData =
  bd_x :: int
  bd_y :: int
  bd_icon :: byte
  bd_color :: int

record GameState =
  g_players :: "(int, PlayerData) umap"
  g_food :: "FoodData list"
  g_speedBoosts :: "SpeedBoostsData list"
  g_serverHighScore :: "bytes \<times> int"

definition GameState_new :: GameState where
  "GameState_new = \<lparr>g_players = [], g_food = [], g_speedBoosts = [], g_serverHighScore = ([], 0)\<rparr>"

section \<open>From the message\<close>

text \<open>A char array of the message converted to \<open>std::string\<close>.\<close>

definition string_of_array :: "bytes \<Rightarrow> client_error + bytes" where
  "string_of_array arr = (if 0 \<in> set arr then Inr (takeWhile (\<lambda>c. c \<noteq> 0) arr) else Inl UnterminatedName)"

definition player_from_protocol :: "GSPlayer \<Rightarrow> client_error + PlayerData" where
  "player_from_protocol p =
     rbind (string_of_array (gp_username p)) (\<lambda>username.
       Inr \<lparr>pd_clientId = sint (gp_clientId p), pd_direction = gp_direction p, pd_name = username,
            pd_score = sint (gp_score p), pd_color = sint (gp_color p),
            pd_segments = map (\<lambda>(a, b). (sint a, sint b)) (gp_segments p)\<rparr>)"

definition add_player :: "int iter_order \<Rightarrow> GSPlayer \<Rightarrow> (int, PlayerData) umap \<Rightarrow> client_error + (int, PlayerData) umap" where
  "add_player ord p players =
     rbind (player_from_protocol p) (\<lambda>d. Inr (um_set ord (sint (gp_clientId p)) d players))"

definition fromProtocol :: "int iter_order \<Rightarrow> GameStateMsg \<Rightarrow> client_error + GameState" where
  "fromProtocol ord msg =
     rbind (rfold (add_player ord) (gs_players msg) []) (\<lambda>players.
       let food = map (\<lambda>f. \<lparr>fd_x = sint (gf_x f), fd_y = sint (gf_y f), fd_icon = gf_icon f,
                            fd_color = sint (gf_color f)\<rparr>) (gs_food msg);
           speedBoosts = map (\<lambda>s. \<lparr>bd_x = sint (gf_x s), bd_y = sint (gf_y s), bd_icon = gf_icon s,
                            bd_color = sint (gf_color s)\<rparr>) (gs_speedBoosts msg)
       in rbind (string_of_array (gs_highScoreUsername msg)) (\<lambda>username.
            Inr \<lparr>g_players = players, g_food = food, g_speedBoosts = speedBoosts,
                 g_serverHighScore = (username, sint (gs_highScore msg))\<rparr>))"

section \<open>When the conversion succeeds\<close>

text \<open>The entry a terminated player message turns into, and messages all of whose names end.\<close>

definition data_of :: "GSPlayer \<Rightarrow> PlayerData" where
  "data_of p = \<lparr>pd_clientId = sint (gp_clientId p), pd_direction = gp_direction p,
     pd_name = takeWhile (\<lambda>c. c \<noteq> 0) (gp_username p), pd_score = sint (gp_score p),
     pd_color = sint (gp_color p), pd_segments = map (\<lambda>(a, b). (sint a, sint b)) (gp_segments p)\<rparr>"

definition names_end :: "GameStateMsg \<Rightarrow> bool" where
  "names_end g \<longleftrightarrow> 0 \<in> set (gs_highScoreUsername g) \<and> (\<forall>p\<in>set (gs_players g). 0 \<in> set (gp_username p))"

lemma add_player_eq:
  "0 \<in> set (gp_username p) \<Longrightarrow> add_player ord p m = Inr (um_set ord (sint (gp_clientId p)) (data_of p) m)"
  by (simp add: add_player_def player_from_protocol_def string_of_array_def data_of_def)

text \<open>Inserting the elements of a list one after the other: the last one with a key wins.\<close>

lemma um_at_set_all:
  "um_at (fold (\<lambda>x. um_set ord (k x) (v x)) xs m) = um_at m ++ map_of (rev (map (\<lambda>x. (k x, v x)) xs))"
proof (induction xs arbitrary: m)
  case (Cons x xs)
  show ?case
    by (simp add: Cons.IH um_at_set) (auto simp: map_add_def fun_eq_iff split: option.splits)
qed simp

lemma um_wf_set_all: "um_wf m \<Longrightarrow> um_wf (fold (\<lambda>x. um_set ord (k x) (v x)) xs m)"
  by (induction xs arbitrary: m) (simp_all add: um_wf_set)

lemma fromProtocol_total:
  assumes "names_end g"
  shows "\<exists>gs. fromProtocol ord g = Inr gs \<and> um_wf (g_players gs) \<and>
     um_at (g_players gs) = map_of (rev (map (\<lambda>p. (sint (gp_clientId p), data_of p)) (gs_players g))) \<and>
     g_food gs = map (\<lambda>f. \<lparr>fd_x = sint (gf_x f), fd_y = sint (gf_y f), fd_icon = gf_icon f, fd_color = sint (gf_color f)\<rparr>) (gs_food g) \<and>
     g_speedBoosts gs = map (\<lambda>f. \<lparr>bd_x = sint (gf_x f), bd_y = sint (gf_y f), bd_icon = gf_icon f, bd_color = sint (gf_color f)\<rparr>) (gs_speedBoosts g) \<and>
     g_serverHighScore gs = (takeWhile (\<lambda>c. c \<noteq> 0) (gs_highScoreUsername g), sint (gs_highScore g))"
proof -
  let ?m = "fold (\<lambda>p. um_set ord (sint (gp_clientId p)) (data_of p)) (gs_players g) []"
  have "rfold (add_player ord) (gs_players g) [] = Inr ?m"
    by (rule rfold_fold) (use assms in \<open>simp add: names_end_def add_player_eq\<close>)
  moreover have "um_wf ?m" by (rule um_wf_set_all) simp
  moreover have "um_at ?m = map_of (rev (map (\<lambda>p. (sint (gp_clientId p), data_of p)) (gs_players g)))"
    using um_at_set_all [of ord "\<lambda>p. sint (gp_clientId p)" data_of "gs_players g" "[]"]
    by (simp add: map_add_def fun_eq_iff split: option.splits)
  ultimately show ?thesis
    using assms by (simp add: fromProtocol_def Let_def names_end_def string_of_array_def)
qed

lemma fromProtocol_keys:
  assumes "names_end g" and "fromProtocol ord g = Inr gs"
  shows "set (um_keys (g_players gs)) = (\<lambda>p. sint (gp_clientId p)) ` set (gs_players g)"
  using fromProtocol_total [OF assms(1), of ord] assms(2)
  by (auto simp: um.keys_dom dom_map_of_conv_image_fst image_image)

lemma fromProtocol_entry:
  assumes "names_end g" and "fromProtocol ord g = Inr gs" and "(i, d) \<in> set (g_players gs)"
  shows "\<exists>p\<in>set (gs_players g). i = sint (gp_clientId p) \<and> d = data_of p"
proof -
  from assms have wf: "um_wf (g_players gs)" and
    at: "um_at (g_players gs) = map_of (rev (map (\<lambda>p. (sint (gp_clientId p), data_of p)) (gs_players g)))"
    using fromProtocol_total [OF assms(1), of ord] by auto
  from wf assms(3) have "um_at (g_players gs) i = Some d"
    by (simp add: um_at_def um_wf_def um_keys_def)
  with at show ?thesis by (auto dest!: map_of_SomeD)
qed

end
