(* ===== verification/NetworkClient.thy ===== *)
theory NetworkClient
  imports Client_State
begin

text \<open>
  \<open>src/snake_client/NetworkClient.cpp\<close>: the connection of the terminal client and the bot to
  the server. The results of \<open>send\<close> and \<open>recv\<close> are arguments; what was handed to \<open>send\<close> is
  recorded in \<open>nc_sent\<close>, which no code reads. Setting the connection up and closing it is in
  \<open>Sockets\<close>; \<open>waitForReadable\<close>, which only waits, is left out.
\<close>

record NetworkClient =
  nc_serverFd :: int
  messageBuffer :: bytes
  nc_sent :: "bytes list"

definition NetworkClient_new :: "int \<Rightarrow> NetworkClient" where
  "NetworkClient_new fd = \<lparr>nc_serverFd = fd, messageBuffer = [], nc_sent = []\<rparr>"

text \<open>\<open>snd_res frame\<close> is what \<open>send\<close> returns: the number of bytes taken, or -1.\<close>

definition sendToServer :: "(bytes \<Rightarrow> int) \<Rightarrow> bytes \<Rightarrow> NetworkClient \<Rightarrow> client_error + NetworkClient" where
  "sendToServer snd_res bs c =
     (let frame = make_frame bs;
          sent = snd_res frame;
          c = c\<lparr>nc_sent := nc_sent c @ [frame]\<rparr>
      in if 0 \<le> sent \<and> sent < int (length frame) then Inl PartialSend
         else if sent = -1 then Inl SendFailed
         else Inr c)"

definition client_parseReceivedPacket :: "bytes \<Rightarrow> NetworkClient \<Rightarrow> client_error + (bytes list \<times> NetworkClient)" where
  "client_parseReceivedPacket inputBuffer c =
     (let (frames, rest, over) = parse_loop CLIENT_RECV_MAX_MESSAGE_SIZE (messageBuffer c @ inputBuffer)
      in if over then Inl FrameTooBig else Inr (frames, c\<lparr>messageBuffer := rest\<rparr>))"

text \<open>
  The argument is what \<open>recv\<close> returned; it takes at most the \<open>CLIENT_RECV_BUFFER_SIZE\<close> bytes of
  \<open>recvBuffer\<close>, so that a frame may need several calls.
\<close>

fun receiveFromServer :: "recv_result \<Rightarrow> NetworkClient \<Rightarrow> client_error + (bytes list \<times> NetworkClient)" where
  "receiveFromServer RecvAgain c = Inr ([], c)"
| "receiveFromServer (RecvError e) c = Inl (RecvFailed e)"
| "receiveFromServer RecvEof c = Inl ServerDisconnected"
| "receiveFromServer (RecvBytes bs) c = client_parseReceivedPacket bs c"

section \<open>A whole conversation\<close>

text \<open>Receiving packet after packet gives what one receive of all the bytes would give.\<close>

primrec receive_all :: "recv_result list \<Rightarrow> NetworkClient \<Rightarrow> client_error + (bytes list \<times> NetworkClient)" where
  "receive_all [] c = Inr ([], c)"
| "receive_all (r # rs) c =
     rbind (receiveFromServer r c) (\<lambda>(fs, c).
     rbind (receive_all rs c) (\<lambda>(gs, c). Inr (fs @ gs, c)))"

fun payload :: "recv_result \<Rightarrow> bytes" where
  "payload (RecvBytes bs) = bs"
| "payload _ = []"

definition quiet_or_data :: "recv_result \<Rightarrow> bool" where
  "quiet_or_data r \<longleftrightarrow> r = RecvAgain \<or> (\<exists>bs. r = RecvBytes bs)"

lemma receive_all_packets:
  assumes "receive_packets (parse_loop CLIENT_RECV_MAX_MESSAGE_SIZE) (messageBuffer c) (map payload rs) = (fs, rest, False)"
    and "parse_loop CLIENT_RECV_MAX_MESSAGE_SIZE (messageBuffer c) = ([], messageBuffer c, False)"
    and "\<forall>r\<in>set rs. quiet_or_data r"
  shows "receive_all rs c = Inr (fs, c\<lparr>messageBuffer := rest\<rparr>)"
  using assms
proof (induction rs arbitrary: c fs)
  case (Cons r rs)
  from Cons.prems(1) obtain gs r1 gs' where
    run: "parse_loop CLIENT_RECV_MAX_MESSAGE_SIZE (messageBuffer c @ payload r) = (gs, r1, False)" and
    rec: "receive_packets (parse_loop CLIENT_RECV_MAX_MESSAGE_SIZE) r1 (map payload rs) = (gs', rest, False)" and
    fs: "fs = gs @ gs'"
    by (auto simp: Let_def split: prod.splits if_splits)
  have "receiveFromServer r c = Inr (gs, c\<lparr>messageBuffer := r1\<rparr>)"
    using Cons.prems(2,3) run by (auto simp: quiet_or_data_def client_parseReceivedPacket_def)
  moreover have "receive_all rs (c\<lparr>messageBuffer := r1\<rparr>) = Inr (gs', c\<lparr>messageBuffer := rest\<rparr>)"
    using Cons.IH [of "c\<lparr>messageBuffer := r1\<rparr>" gs'] rec Cons.prems(3) client_stream.run_rest [OF run] by simp
  ultimately show ?case using fs by simp
qed simp

section \<open>Properties\<close>

text \<open>
  C36: The stream to the client. Whatever frames of at most 32768 bytes the server sends, and
  however the network cuts them into packets and the client's polling finds nothing in between,
  a client whose buffer is empty receives exactly these frames in their order, throws nothing,
  and ends with an empty buffer.
\<close>

theorem client_receives_frames:
  assumes "messageBuffer c = []" and "\<forall>f\<in>set fs. length f \<le> CLIENT_RECV_MAX_MESSAGE_SIZE"
    and "\<forall>r\<in>set rs. quiet_or_data r"
    and "concat (map payload rs) = concat (map make_frame fs)"
  shows "receive_all rs c = Inr (fs, c)"
proof -
  let ?run = "parse_loop CLIENT_RECV_MAX_MESSAGE_SIZE"
  have "?run (concat (map payload rs)) = (fs, [], False)"
    using parse_loop_frames [OF assms(2), of "[]"]
    by (simp add: assms(4) parse_loop_nil CLIENT_RECV_MAX_MESSAGE_SIZE_def)
  moreover obtain rest where "?run (concat (map payload rs)) =
      (fst (receive_packets ?run [] (map payload rs)), rest, snd (snd (receive_packets ?run [] (map payload rs))))
     \<and> (\<not> snd (snd (receive_packets ?run [] (map payload rs))) \<longrightarrow> rest = fst (snd (receive_packets ?run [] (map payload rs))))"
    using client_stream.receive_packets_run [OF parse_loop_nil, of "map payload rs"] by auto
  ultimately have "receive_packets ?run [] (map payload rs) = (fs, [], False)" by (auto simp: prod_eq_iff)
  then show ?thesis using receive_all_packets [of c rs fs "[]"] assms(1,3) by (simp add: parse_loop_nil)
qed

theorem client_receives_frames_witness:
  "receive_all [RecvBytes [2, 0, 0], RecvAgain, RecvBytes [0, 7, 8]] (NetworkClient_new 5) =
   Inr ([[7, 8]], NetworkClient_new 5)"
  by (rule client_receives_frames)
    (simp_all add: NetworkClient_new_def quiet_or_data_def make_frame_def raw_def CLIENT_RECV_MAX_MESSAGE_SIZE_def
      le_bytes_def sizeof_word_def upt_rec)

end
