(* ===== verification/Client_Messages.thy ===== *)
theory Client_Messages
  imports NetworkClient
begin

text \<open>
  The message loop that \<open>SnakeClient::receiveUpdates\<close> and \<open>SnakeBot::receiveUpdates\<close> share, as
  the locale \<open>game_client\<close>: a welcome is handled at once, of the game states only the last one is
  kept, anything else is an exception. What follows from the contract is proved once, here.
\<close>

section \<open>What the server may send\<close>

definition for_clients :: "MessageVariant \<Rightarrow> bool" where
  "for_clients m \<longleftrightarrow> wf_msg m \<and> (variant_type m = SERVER_WELCOME \<or> variant_type m = GAME_STATE)"

text \<open>The last game state of a batch, and the welcomes of a batch in their order.\<close>

primrec latest_state :: "GameStateMsg option \<Rightarrow> MessageVariant list \<Rightarrow> GameStateMsg option" where
  "latest_state l [] = l"
| "latest_state l (m # ms) = latest_state (case m of VGameState g \<Rightarrow> Some g | _ \<Rightarrow> l) ms"

lemma latest_state_append: "latest_state l (ms @ ns) = latest_state (latest_state l ms) ns"
  by (induction ms arbitrary: l) simp_all

lemma latest_state_None: "latest_state None ms = None \<longleftrightarrow> (\<forall>m\<in>set ms. variant_type m \<noteq> GAME_STATE)"
proof (induction ms rule: rev_induct)
  case (snoc m ms)
  then show ?case by (cases m) (auto simp: latest_state_append)
qed simp

section \<open>The contract\<close>

locale game_client =
  fixes step :: "bytes \<Rightarrow> GameStateMsg option \<times> 'c \<Rightarrow> client_error + (GameStateMsg option \<times> 'c)"
    and greet :: "ServerWelcomeMsg \<Rightarrow> 'c \<Rightarrow> 'c"
    and arrived :: "'c \<Rightarrow> 'c"
  assumes step_welcome: "deserialise bs = Inr (VServerWelcome w) \<Longrightarrow> step bs (l, c) = Inr (l, greet w c)"
    and step_state: "deserialise bs = Inr (VGameState g) \<Longrightarrow> step bs (l, c) = Inr (Some g, arrived c)"
    and step_other: "deserialise bs = Inr m \<Longrightarrow> variant_type m \<noteq> SERVER_WELCOME \<Longrightarrow>
           variant_type m \<noteq> GAME_STATE \<Longrightarrow> step bs (l, c) = Inl UnexpectedMessage"
    and step_bad: "deserialise bs = Inl e \<Longrightarrow> step bs (l, c) = Inl (BadFrame e)"
begin

primrec react :: "MessageVariant list \<Rightarrow> 'c \<Rightarrow> 'c" where
  "react [] c = c"
| "react (m # ms) c =
     react ms (case m of VServerWelcome w \<Rightarrow> greet w c | VGameState g \<Rightarrow> arrived c | _ \<Rightarrow> c)"

lemma batch:
  assumes "\<forall>m\<in>set ms. for_clients m"
  shows "rfold step (map encode ms) (l, c) = Inr (latest_state l ms, react ms c)"
  using assms
proof (induction ms arbitrary: l c)
  case (Cons m ms)
  then have des: "deserialise (encode m) = Inr m" by (simp add: for_clients_def deserialise_encode)
  with Cons show ?case
    by (cases m) (simp_all add: for_clients_def step_welcome step_state)
qed simp

text \<open>The loop throws exactly when some frame is no welcome and no game state.\<close>

lemma batch_throws:
  "(\<exists>e. rfold step bss (l, c) = Inl e) \<longleftrightarrow>
     (\<exists>bs\<in>set bss. \<forall>m. deserialise bs = Inr m \<longrightarrow> \<not> for_clients m)"
proof (induction bss arbitrary: l c)
  case (Cons bs bss)
  show ?case
  proof (cases "deserialise bs")
    case (Inl e)
    then show ?thesis by (simp add: step_bad)
  next
    case (Inr m)
    with deserialise_Inr [OF Inr] Cons show ?thesis
      by (cases m) (auto simp: for_clients_def step_welcome step_state step_other)
  qed
qed simp

end

section \<open>The session a client believes to have\<close>

text \<open>
  The id and the flag after a batch of messages: the last welcome sets both; then the last game
  state, if there is one, ends the session of a client it does not contain.
\<close>

definition greeted :: "MessageVariant list \<Rightarrow> int \<times> bool \<Rightarrow> int \<times> bool" where
  "greeted ms s = fold (\<lambda>m s. case m of VServerWelcome w \<Rightarrow> (sint (clientId (sw_hdr w)), True) | _ \<Rightarrow> s) ms s"

lemma greeted_simps [simp]:
  "greeted [] s = s"
  "greeted (m # ms) s = greeted ms (case m of VServerWelcome w \<Rightarrow> (sint (clientId (sw_hdr w)), True) | _ \<Rightarrow> s)"
  by (simp_all add: greeted_def)

lemma fst_greeted: "fst (greeted ms (i, True)) = fst (greeted ms (i, False))"
proof (induction ms arbitrary: i)
  case (Cons m ms)
  then show ?case by (cases m) simp_all
qed simp

definition session :: "MessageVariant list \<Rightarrow> int \<times> bool \<Rightarrow> int \<times> bool" where
  "session ms s =
     (case latest_state None ms of
        None \<Rightarrow> greeted ms s
      | Some g \<Rightarrow> if fst (greeted ms s) \<in> (\<lambda>p. sint (gp_clientId p)) ` set (gs_players g)
                  then greeted ms s else (-1, False))"

text \<open>What the server's messages satisfy.\<close>

definition good_message :: "MessageVariant \<Rightarrow> bool" where
  "good_message m \<longleftrightarrow> for_clients m \<and>
     (case m of VGameState g \<Rightarrow> names_end g \<and> (\<forall>p\<in>set (gs_players g). gp_segments p \<noteq> []) | _ \<Rightarrow> True)"

lemma latest_state_good:
  "latest_state l ms = Some g \<Longrightarrow> l = None \<or> (\<exists>h. l = Some h \<and> P h) \<Longrightarrow>
     \<forall>m\<in>set ms. \<forall>h. m = VGameState h \<longrightarrow> P h \<Longrightarrow> P g"
proof (induction ms arbitrary: l)
  case (Cons m ms)
  then show ?case by (cases m) auto
qed auto

section \<open>What a client may send\<close>

definition honest :: "MessageVariant \<Rightarrow> bool" where
  "honest m \<longleftrightarrow> wf_msg m \<and>
     (case m of VClientJoin j \<Rightarrow> 0 \<in> set (cj_username j) | VClientInput i \<Rightarrow> True | _ \<Rightarrow> False)"

definition honest_frame :: "bytes \<Rightarrow> bool" where
  "honest_frame f \<longleftrightarrow> (\<exists>m. honest m \<and> f = make_frame (encode m))"

section \<open>Receiving\<close>

lemma receiveFromServer_sent:
  "receiveFromServer r c = Inr (fs, c') \<Longrightarrow> receiveFromServer r (c\<lparr>nc_sent := x\<rparr>) = Inr (fs, c'\<lparr>nc_sent := x\<rparr>)"
  "receiveFromServer r c = Inr (fs, c') \<Longrightarrow> nc_sent c' = nc_sent c"
  by (cases r; auto simp: client_parseReceivedPacket_def split: prod.splits if_splits)+

lemma receive_frames:
  assumes "messageBuffer c = []" and "\<forall>m\<in>set ms. length (encode m) \<le> CLIENT_RECV_MAX_MESSAGE_SIZE"
  shows "receiveFromServer (RecvBytes (concat (map (make_frame \<circ> encode) ms))) c = Inr (map encode ms, c)"
  using parse_loop_frames [of "map encode ms" CLIENT_RECV_MAX_MESSAGE_SIZE "[]"] assms
  by (simp add: client_parseReceivedPacket_def parse_loop_nil CLIENT_RECV_MAX_MESSAGE_SIZE_def)

end
