(* ===== verification/SnakeClient.thy ===== *)
theory SnakeClient
  imports Client_Messages Timer
begin

text \<open>
  \<open>src/snake_client/SnakeClient.cpp\<close>: the terminal client. One pass of \<open>run\<close> is a function of
  the state and of what the environment delivers: the clock, the key \<open>getch\<close> returned, the
  results of \<open>recv\<close> and \<open>send\<close>. Drawing is a list of \<open>ncurses\<close> calls. Setting the terminal up
  and tearing it down is in \<open>Client_Start\<close>. Parameters are \<open>getenv("USER")\<close>, the iteration order of
  the player map and \<open>std::sort\<close>, of which only what the standard promises is known: its
  result is a sorted permutation.
\<close>

section \<open>Environment\<close>

lemma sorted_descending: "sorted_wrt (\<lambda>l r. pd_score r \<le> pd_score l) (rev (sort_key pd_score ps))"
  using sorted_sort_key [of pd_score ps] unfolding sorted_wrt_rev sorted_map .

typedef score_sort =
  "{f :: PlayerData list \<Rightarrow> PlayerData list.
      \<forall>ps. mset (f ps) = mset ps \<and> sorted_wrt (\<lambda>l r. pd_score r \<le> pd_score l) (f ps)}"
  morphisms apply_sort Abs_score_sort
  by (rule exI [where x = "\<lambda>ps. rev (sort_key pd_score ps)"]) (simp add: sorted_descending)

lemma mset_apply_sort [simp]: "mset (apply_sort srt ps) = mset ps"
  using apply_sort [of srt] by simp

lemma sorted_apply_sort: "sorted_wrt (\<lambda>l r. pd_score r \<le> pd_score l) (apply_sort srt ps)"
  using apply_sort [of srt] by simp

record client_env =
  user_name :: "bytes option"
  map_ord :: "int iter_order"
  score_ord :: score_sort

text \<open>What \<open>getch\<close> returned: \<open>ERR\<close>, one of the arrow keys, or a character.\<close>

datatype key = KeyErr | KeyUp | KeyDown | KeyLeft | KeyRight | KeyChar byte

record client_input =
  in_clock :: int
  in_key :: key
  in_recv :: recv_result
  in_send :: "bytes \<Rightarrow> int"

section \<open>State\<close>

record SnakeClient =
  c_width :: int
  c_height :: int
  running :: bool
  playing :: bool
  c_timer :: Timer
  c_network :: NetworkClient
  c_clientId :: int
  playerInput :: byte
  gameState :: GameState

definition SnakeClient_new :: "int \<Rightarrow> int \<Rightarrow> Timer \<Rightarrow> NetworkClient \<Rightarrow> SnakeClient" where
  "SnakeClient_new w h t net =
     \<lparr>c_width = w, c_height = h, running = True, playing = False, c_timer = t, c_network = net,
      c_clientId = -1, playerInput = 0, gameState = GameState_new\<rparr>"

section \<open>Sending\<close>

text \<open>\<open>strncpy\<close> of at most 15 characters into an array of 16 zeroes.\<close>

definition join_username :: "bytes \<Rightarrow> bytes" where
  "join_username src = take 15 (takeWhile (\<lambda>c. c \<noteq> 0) src @ replicate 15 0) @ [0]"

definition send_message :: "(bytes \<Rightarrow> int) \<Rightarrow> MessageVariant \<Rightarrow> NetworkClient \<Rightarrow> client_error + NetworkClient" where
  "send_message snd_res m net = rbind (lift_frame (serialise m)) (\<lambda>bs. sendToServer snd_res bs net)"

definition joinGame :: "client_env \<Rightarrow> (bytes \<Rightarrow> int) \<Rightarrow> SnakeClient \<Rightarrow> client_error + SnakeClient" where
  "joinGame env snd_res c =
     (let username = (case user_name env of None \<Rightarrow> ascii ''unknown'' | Some u \<Rightarrow> u);
          join = VClientJoin \<lparr>cj_hdr = header_of CLIENT_JOIN (word_of_int (c_clientId c)),
                              cj_username = join_username username\<rparr>
      in rbind (send_message snd_res join (c_network c)) (\<lambda>net. Inr (c\<lparr>c_network := net\<rparr>)))"

definition handleInput :: "client_env \<Rightarrow> (bytes \<Rightarrow> int) \<Rightarrow> key \<Rightarrow> SnakeClient \<Rightarrow> client_error + SnakeClient" where
  "handleInput env snd_res ch c =
     (case ch of
        KeyErr \<Rightarrow> Inr c
      | KeyUp \<Rightarrow> Inr (c\<lparr>playerInput := PLAYER_KEY_UP\<rparr>)
      | KeyDown \<Rightarrow> Inr (c\<lparr>playerInput := PLAYER_KEY_DOWN\<rparr>)
      | KeyLeft \<Rightarrow> Inr (c\<lparr>playerInput := PLAYER_KEY_LEFT\<rparr>)
      | KeyRight \<Rightarrow> Inr (c\<lparr>playerInput := PLAYER_KEY_RIGHT\<rparr>)
      | KeyChar b \<Rightarrow>
          if b \<in> set (ascii ''qQ'') then Inr (c\<lparr>running := False\<rparr>)
          else if \<not> playing c \<and> b \<in> set (ascii ''rR'') then joinGame env snd_res c
          else Inr c)"

definition sendPlayerInput :: "(bytes \<Rightarrow> int) \<Rightarrow> SnakeClient \<Rightarrow> client_error + SnakeClient" where
  "sendPlayerInput snd_res c =
     rbind (send_message snd_res
              (VClientInput \<lparr>ci_hdr = header_of CLIENT_INPUT (word_of_int (c_clientId c)),
                             ci_input = playerInput c\<rparr>) (c_network c))
       (\<lambda>net. Inr (c\<lparr>c_network := net, playerInput := 0\<rparr>))"

section \<open>Receiving\<close>

definition handleServerWelcome :: "ServerWelcomeMsg \<Rightarrow> SnakeClient \<Rightarrow> SnakeClient" where
  "handleServerWelcome msg c = c\<lparr>c_clientId := sint (clientId (sw_hdr msg)), playing := True\<rparr>"

definition handleGameStateMessage :: "client_env \<Rightarrow> GameStateMsg \<Rightarrow> SnakeClient \<Rightarrow> client_error + SnakeClient" where
  "handleGameStateMessage env msg c =
     rbind (fromProtocol (map_ord env) msg) (\<lambda>gs.
       let c = c\<lparr>gameState := gs\<rparr> in
       if \<not> um_contains (g_players gs) (c_clientId c)
       then Inr (c\<lparr>playing := False, c_clientId := -1\<rparr>) else Inr c)"

definition client_message :: "bytes \<Rightarrow> GameStateMsg option \<times> SnakeClient \<Rightarrow> client_error + (GameStateMsg option \<times> SnakeClient)" where
  "client_message msgBytes st =
     (let (latestGameState, c) = st in
      rbind (lift_frame (deserialise msgBytes)) (\<lambda>msg.
        case mt_of (messageType (header msg)) of
          Some SERVER_WELCOME \<Rightarrow>
            (case msg of VServerWelcome m \<Rightarrow> Inr (latestGameState, handleServerWelcome m c)
             | _ \<Rightarrow> Inl BadAlternative)
        | Some GAME_STATE \<Rightarrow>
            (case msg of VGameState m \<Rightarrow> Inr (Some m, c) | _ \<Rightarrow> Inl BadAlternative)
        | _ \<Rightarrow> Inl UnexpectedMessage))"

definition receiveUpdates :: "client_env \<Rightarrow> recv_result \<Rightarrow> SnakeClient \<Rightarrow> client_error + SnakeClient" where
  "receiveUpdates env res c =
     rbind (receiveFromServer res (c_network c)) (\<lambda>(messages, net).
     rbind (rfold client_message messages (None, c\<lparr>c_network := net\<rparr>)) (\<lambda>(latestGameState, c).
       case latestGameState of
         None \<Rightarrow> Inr c
       | Some msg \<Rightarrow> handleGameStateMessage env msg c))"

end
