(* ===== verification/SnakeClient_Laws.thy ===== *)
theory SnakeClient_Laws
  imports Client_Render
begin

text \<open>
  What the terminal client guarantees: it implements the contract of the shared message loop, it
  never throws on what the server sends, its session (the client id it believes to have and
  whether it is playing) follows the messages, and all it ever sends are well-formed join and
  input messages.
\<close>

section \<open>The message loop\<close>

interpretation client: game_client client_message handleServerWelcome "\<lambda>c. c"
proof unfold_locales
  fix bs :: bytes and m :: MessageVariant and l :: "GameStateMsg option" and c :: SnakeClient
  assume "deserialise bs = Inr m" "variant_type m \<noteq> SERVER_WELCOME" "variant_type m \<noteq> GAME_STATE"
  with wf_msg_type [of m] deserialise_Inr [of bs m] show "client_message bs (l, c) = Inl UnexpectedMessage"
    by (simp add: client_message_def split: MessageType.splits)
next
  fix bs :: bytes and w and l :: "GameStateMsg option" and c :: SnakeClient
  assume "deserialise bs = Inr (VServerWelcome w)"
  with wf_msg_type [of "VServerWelcome w"] deserialise_Inr [of bs "VServerWelcome w"] show "client_message bs (l, c) = Inr (l, handleServerWelcome w c)"
    by (simp add: client_message_def)
next
  fix bs :: bytes and g and l :: "GameStateMsg option" and c :: SnakeClient
  assume "deserialise bs = Inr (VGameState g)"
  with wf_msg_type [of "VGameState g"] deserialise_Inr [of bs "VGameState g"] show "client_message bs (l, c) = Inr (Some g, c)"
    by (simp add: client_message_def)
qed (simp add: client_message_def)

section \<open>Drawing and the session\<close>

definition renderable :: "GameState \<Rightarrow> bool" where
  "renderable gs \<longleftrightarrow> (\<forall>(i, p)\<in>set (g_players gs). pd_segments p \<noteq> [])"

lemma render_total:
  assumes "renderable (gameState c)"
  shows "\<exists>out. render env c = Inr out"
proof -
  have "\<exists>out. rfold render_player (g_players (gameState c)) [] = Inr out \<and> True"
    using assms by (intro rfold_total) (auto simp: renderable_def render_player_def split: list.splits)
  then show ?thesis by (auto simp: render_def renderPlayers_def)
qed

lemma handleServerWelcome_sel:
  "c_clientId (handleServerWelcome w c) = sint (clientId (sw_hdr w))" "playing (handleServerWelcome w c)"
  "(handleServerWelcome w c)\<lparr>c_clientId := i, playing := b\<rparr> = c\<lparr>c_clientId := i, playing := b\<rparr>"
  by (simp_all add: handleServerWelcome_def)

lemma react_greeted:
  "client.react ms c = c\<lparr>c_clientId := fst (greeted ms (c_clientId c, playing c)),
     playing := snd (greeted ms (c_clientId c, playing c))\<rparr>"
proof (induction ms arbitrary: c)
  case (Cons m ms)
  then show ?case by (cases m) (simp_all add: greeted_def handleServerWelcome_sel)
qed (simp add: greeted_def)

section \<open>What the client sends\<close>

lemma length_join_username [simp]: "length (join_username u) = 16"
  by (simp add: join_username_def)

lemma join_username_ends: "0 \<in> set (join_username u)"
  by (simp add: join_username_def)

lemma honest_join: "honest (VClientJoin \<lparr>cj_hdr = header_of CLIENT_JOIN i, cj_username = join_username u\<rparr>)"
  by (simp add: honest_def wf_msg_def header_of_def join_username_ends)

lemma honest_input: "honest (VClientInput \<lparr>ci_hdr = header_of CLIENT_INPUT i, ci_input = b\<rparr>)"
  by (simp add: honest_def wf_msg_def header_of_def)

lemma send_message_total:
  assumes "\<forall>frame. snd_res frame = int (length frame)" and "honest m"
  shows "send_message snd_res m net = Inr (net\<lparr>nc_sent := nc_sent net @ [make_frame (encode m)]\<rparr>)"
  using assms by (simp add: send_message_def serialise_eq honest_def wf_msg_def sendToServer_def)

text \<open>\<open>talked c c'\<close>: between \<open>c\<close> and \<open>c'\<close> the client at most sent well-formed messages and looked at keys.\<close>

definition talked :: "SnakeClient \<Rightarrow> SnakeClient \<Rightarrow> bool" where
  "talked c c' \<longleftrightarrow> (\<exists>fs r b. c' = c\<lparr>c_network := (c_network c)\<lparr>nc_sent := nc_sent (c_network c) @ fs\<rparr>,
       running := r, playerInput := b\<rparr> \<and> (\<forall>f\<in>set fs. honest_frame f))"

lemma talked_refl: "talked c (c\<lparr>running := r, playerInput := b\<rparr>)"
  unfolding talked_def by (intro exI [of _ "[]"] exI [of _ r] exI [of _ b]) simp

lemma talked_send:
  assumes "honest m"
  shows "talked c (c\<lparr>c_network := (c_network c)\<lparr>nc_sent := nc_sent (c_network c) @ [make_frame (encode m)]\<rparr>,
    playerInput := b\<rparr>)"
  unfolding talked_def
  by (intro exI [of _ "[make_frame (encode m)]"] exI [of _ "running c"] exI [of _ b]) (use assms in \<open>auto simp: honest_frame_def\<close>)

lemma talked_trans:
  assumes "talked c c'" and "talked c' c''" shows "talked c c''"
proof -
  from assms(1) obtain fs r b where 1: "c' = c\<lparr>c_network := (c_network c)\<lparr>nc_sent := nc_sent (c_network c) @ fs\<rparr>,
       running := r, playerInput := b\<rparr>" "\<forall>f\<in>set fs. honest_frame f" unfolding talked_def by blast
  from assms(2) obtain gs r' b' where 2: "c'' = c'\<lparr>c_network := (c_network c')\<lparr>nc_sent := nc_sent (c_network c') @ gs\<rparr>,
       running := r', playerInput := b'\<rparr>" "\<forall>f\<in>set gs. honest_frame f" unfolding talked_def by blast
  from 1 2 show ?thesis
    unfolding talked_def by (intro exI [of _ "fs @ gs"] exI [of _ r'] exI [of _ b']) auto
qed

lemma joinGame_talks:
  assumes "\<forall>frame. snd_res frame = int (length frame)"
  shows "\<exists>c'. joinGame env snd_res c = Inr c' \<and> talked c c'"
proof -
  obtain m where "honest m" "joinGame env snd_res c = rbind (send_message snd_res m (c_network c)) (\<lambda>net. Inr (c\<lparr>c_network := net\<rparr>))"
    using honest_join unfolding joinGame_def Let_def by blast
  with talked_send [of m c "playerInput c"] show ?thesis by (simp add: send_message_total [OF assms])
qed

lemma handleInput_talks:
  assumes "\<forall>frame. snd_res frame = int (length frame)"
  shows "\<exists>c'. handleInput env snd_res ch c = Inr c' \<and> talked c c'"
proof -
  have "talked c c" "talked c (c\<lparr>running := r\<rparr>)" "talked c (c\<lparr>playerInput := b\<rparr>)" for r b
    using talked_refl [of c "playerInput c" "running c"] talked_refl [of c "playerInput c" r]
      talked_refl [of c b "running c"] by simp_all
  then show ?thesis
    using joinGame_talks [OF assms] by (cases ch) (auto simp: handleInput_def)
qed

lemma sendPlayerInput_talks:
  assumes "\<forall>frame. snd_res frame = int (length frame)"
  shows "\<exists>c'. (if b then sendPlayerInput snd_res c else Inr c) = Inr c' \<and> talked c c'"
  using talked_send [OF honest_input, where b = 0] talked_refl [of c "playerInput c" "running c"]
  by (simp add: sendPlayerInput_def send_message_total [OF assms honest_input])

section \<open>A pass of the client\<close>

definition client_inv :: "SnakeClient \<Rightarrow> bool" where
  "client_inv c \<longleftrightarrow> renderable (gameState c) \<and> (playing c \<or> c_clientId c = -1) \<and>
     (\<forall>f\<in>set (nc_sent (c_network c)). honest_frame f)"

lemma greeted_inv: "snd s \<or> fst s = -1 \<Longrightarrow> snd (greeted ms s) \<or> fst (greeted ms s) = -1"
proof (induction ms arbitrary: s)
  case (Cons m ms)
  then show ?case by (cases m) (simp_all add: greeted_def)
qed (simp add: greeted_def)

lemma receiveUpdates_total:
  assumes "client_inv c" and "receiveFromServer r (c_network c) = Inr (map encode ms, net)"
    and "\<forall>m\<in>set ms. good_message m"
  shows "\<exists>c'. receiveUpdates env r c = Inr c' \<and> client_inv c' \<and>
     (c_clientId c', playing c') = session ms (c_clientId c, playing c) \<and>
     (case latest_state None ms of None \<Rightarrow> gameState c' = gameState c
      | Some g \<Rightarrow> fromProtocol (map_ord env) g = Inr (gameState c'))"
proof -
  let ?s = "greeted ms (c_clientId c, playing c)"
  let ?c = "c\<lparr>c_network := net, c_clientId := fst ?s, playing := snd ?s\<rparr>"
  have loop: "rfold client_message (map encode ms) (None, c\<lparr>c_network := net\<rparr>) = Inr (latest_state None ms, ?c)"
    using client.batch [of ms None "c\<lparr>c_network := net\<rparr>"] assms(3) react_greeted [of ms "c\<lparr>c_network := net\<rparr>"]
    by (simp add: good_message_def)
  have inv: "client_inv ?c"
    using assms(1) greeted_inv [of "(c_clientId c, playing c)" ms] receiveFromServer_sent(2) [OF assms(2)]
    by (simp add: client_inv_def)
  show ?thesis
  proof (cases "latest_state None ms")
    case None
    with loop assms(2) inv show ?thesis by (simp add: receiveUpdates_def session_def)
  next
    case (Some g)
    have "\<forall>m\<in>set ms. \<forall>h. m = VGameState h \<longrightarrow> names_end h \<and> (\<forall>p\<in>set (gs_players h). gp_segments p \<noteq> [])"
      using assms(3) by (auto simp: good_message_def)
    with latest_state_good [OF Some, of "\<lambda>h. names_end h \<and> (\<forall>p\<in>set (gs_players h). gp_segments p \<noteq> [])"]
    have g: "names_end g" "\<forall>p\<in>set (gs_players g). gp_segments p \<noteq> []" by auto
    from fromProtocol_total [OF g(1)] obtain gs where gs: "fromProtocol (map_ord env) g = Inr gs" by blast
    have "renderable gs"
      using g(2) fromProtocol_entry [OF g(1) gs] by (fastforce simp: renderable_def data_of_def)
    with loop assms(2) inv Some gs fromProtocol_keys [OF g(1) gs] show ?thesis
      by (auto simp: receiveUpdates_def handleGameStateMessage_def session_def um_contains_iff client_inv_def Let_def)
  qed
qed

lemma talked_keeps:
  assumes "talked c c'" and "client_inv c" and "receiveFromServer r (c_network c) = Inr (fs, net)"
  shows "client_inv c' \<and> c_clientId c' = c_clientId c \<and> playing c' = playing c \<and> gameState c' = gameState c \<and>
     (\<exists>net'. receiveFromServer r (c_network c') = Inr (fs, net'))"
  using assms receiveFromServer_sent(1) [OF assms(3)] by (auto simp: talked_def client_inv_def)

lemma client_pass_total:
  assumes "client_inv c" and "\<forall>frame. in_send inp frame = int (length frame)"
    and "receiveFromServer (in_recv inp) (c_network c) = Inr (map encode ms, net)"
    and "\<forall>m\<in>set ms. good_message m"
  shows "\<exists>drawn c'. client_pass env inp c = Inr (drawn, c') \<and> client_inv c' \<and>
     (c_clientId c', playing c') = session ms (c_clientId c, playing c) \<and>
     (case latest_state None ms of None \<Rightarrow> gameState c' = gameState c
      | Some g \<Rightarrow> fromProtocol (map_ord env) g = Inr (gameState c'))"
proof -
  let ?c = "c\<lparr>c_timer := Timer_tick (in_clock inp) (c_timer c)\<rparr>"
  obtain c1 where c1: "handleInput env (in_send inp) (in_key inp) ?c = Inr c1" "talked ?c c1"
    using handleInput_talks [OF assms(2)] by blast
  obtain c2 where c2: "(if playing c1 \<and> playerInput c1 \<noteq> 0 then sendPlayerInput (in_send inp) c1 else Inr c1) = Inr c2"
    "talked c1 c2"
    using sendPlayerInput_talks [OF assms(2)] by blast
  have "client_inv ?c" "receiveFromServer (in_recv inp) (c_network ?c) = Inr (map encode ms, net)"
    using assms(1,3) by (simp_all add: client_inv_def)
  from talked_keeps [OF talked_trans [OF c1(2) c2(2)] this] obtain net' where
    k: "client_inv c2" "c_clientId c2 = c_clientId c" "playing c2 = playing c" "gameState c2 = gameState c"
      "receiveFromServer (in_recv inp) (c_network c2) = Inr (map encode ms, net')" by auto
  from receiveUpdates_total [OF k(1,5) assms(4), of env] obtain c3 where
    c3: "receiveUpdates env (in_recv inp) c2 = Inr c3" "client_inv c3"
      "(c_clientId c3, playing c3) = session ms (c_clientId c, playing c)"
      "case latest_state None ms of None \<Rightarrow> gameState c3 = gameState c
        | Some g \<Rightarrow> fromProtocol (map_ord env) g = Inr (gameState c3)"
    unfolding k(2-4) by blast
  from render_total [of c3 env] c3(2) obtain drawn where "render env c3 = Inr drawn"
    by (auto simp: client_inv_def)
  with c1 c2 c3 show ?thesis by (simp add: client_pass_def Let_def)
qed

section \<open>Properties\<close>

text \<open>
  C34: A pass of the terminal client succeeds. If sends go through and the server's bytes parse
  into welcomes and game states whose names are terminated and whose players have a segment, the
  pass throws nothing and draws the screen; whatever key was pressed, all the client has ever
  sent are well-formed join and input messages, and a client that is not playing has no id. The
  session follows the messages: the last welcome gives the id, then the last game state ends the
  session if it does not contain that id; and that game state, converted, is what the client shows.
\<close>

theorem client_pass_succeeds:
  assumes "client_inv c" and "\<forall>frame. in_send inp frame = int (length frame)"
    and "receiveFromServer (in_recv inp) (c_network c) = Inr (map encode ms, net)"
    and "\<forall>m\<in>set ms. good_message m"
  shows "\<exists>drawn c'. client_pass env inp c = Inr (drawn, c') \<and> client_inv c' \<and>
     (c_clientId c', playing c') = session ms (c_clientId c, playing c) \<and>
     (case latest_state None ms of None \<Rightarrow> gameState c' = gameState c
      | Some g \<Rightarrow> fromProtocol (map_ord env) g = Inr (gameState c'))"
  by (rule client_pass_total [OF assms])

text \<open>A terminal, its first pass, and an empty game state with a welcome behind it.\<close>

definition demo_client_env :: client_env where
  "demo_client_env = \<lparr>user_name = None, map_ord = newest_first,
     score_ord = Abs_score_sort (\<lambda>ps. rev (sort_key pd_score ps))\<rparr>"

definition empty_state :: GameStateMsg where
  "empty_state = \<lparr>gs_hdr = header_of GAME_STATE (-1), gs_highScore = 0, gs_highScoreUsername = replicate 16 0,
     gs_food = [], gs_speedBoosts = [], gs_players = []\<rparr>"

definition demo_messages :: "MessageVariant list" where
  "demo_messages = [VGameState empty_state, VServerWelcome \<lparr>sw_hdr = header_of SERVER_WELCOME 3\<rparr>]"

definition demo_input :: client_input where
  "demo_input = \<lparr>in_clock = 6, in_key = KeyChar 0x72,
     in_recv = RecvBytes (concat (map (make_frame \<circ> encode) demo_messages)), in_send = \<lambda>f. int (length f)\<rparr>"

definition demo_client :: SnakeClient where
  "demo_client = SnakeClient_new 40 40 (Timer_new 5 5) (NetworkClient_new 4)"

lemma demo_client_ok:
  "client_inv demo_client" "\<forall>frame. in_send demo_input frame = int (length frame)"
  "receiveFromServer (in_recv demo_input) (c_network demo_client) = Inr (map encode demo_messages, NetworkClient_new 4)"
  "\<forall>m\<in>set demo_messages. good_message m"
proof -
  have "\<forall>m\<in>set demo_messages. length (encode m) \<le> CLIENT_RECV_MAX_MESSAGE_SIZE"
    by (simp add: demo_messages_def empty_state_def encode_def encode_game_state_def encode_counted_def CLIENT_RECV_MAX_MESSAGE_SIZE_def)
  then show "receiveFromServer (in_recv demo_input) (c_network demo_client) = Inr (map encode demo_messages, NetworkClient_new 4)"
    using receive_frames [of "NetworkClient_new 4" demo_messages]
    by (simp add: demo_input_def demo_client_def SnakeClient_new_def NetworkClient_new_def)
qed (simp_all add: client_inv_def demo_client_def SnakeClient_new_def renderable_def GameState_new_def
    NetworkClient_new_def demo_input_def demo_messages_def good_message_def for_clients_def wf_msg_def
    header_of_def empty_state_def game_state_ok_def list_fits_def names_end_def)

theorem client_pass_succeeds_witness:
  "\<exists>drawn c'. client_pass demo_client_env demo_input demo_client = Inr (drawn, c') \<and> \<not> playing c'"
  using client_pass_succeeds [OF demo_client_ok, of demo_client_env]
  by (auto simp: session_def demo_messages_def empty_state_def)

text \<open>
  C37: A welcome can be lost. The client handles a welcome at once but the last game state only
  after the whole batch. So if the game state that was broadcast before the client joined arrives
  in the same read as the welcome, the pass ends with the client not playing and without an id,
  although the server has given it a snake.
\<close>

theorem welcome_is_lost:
  assumes "client_inv c" and "\<forall>frame. in_send inp frame = int (length frame)"
    and "receiveFromServer (in_recv inp) (c_network c) = Inr (map encode [VGameState g, VServerWelcome w], net)"
    and "\<forall>m\<in>set [VGameState g, VServerWelcome w]. good_message m"
    and "clientId (sw_hdr w) \<notin> gp_clientId ` set (gs_players g)"
  shows "\<exists>drawn c'. client_pass env inp c = Inr (drawn, c') \<and> \<not> playing c' \<and> c_clientId c' = -1"
proof -
  have "sint (clientId (sw_hdr w)) \<notin> (\<lambda>p. sint (gp_clientId p)) ` set (gs_players g)"
    using assms(5) by (force dest: signed_word_eqI)
  with client_pass_total [OF assms(1-4), of env] show ?thesis
    by (auto simp: session_def greeted_def)
qed

theorem welcome_is_lost_witness:
  "\<exists>drawn c'. client_pass demo_client_env (demo_input\<lparr>in_key := KeyErr\<rparr>) demo_client = Inr (drawn, c') \<and>
     \<not> playing c' \<and> c_clientId c' = -1"
  by (rule welcome_is_lost [where g = empty_state and w = "\<lparr>sw_hdr = header_of SERVER_WELCOME 3\<rparr>"])
    (use demo_client_ok in \<open>simp_all add: demo_messages_def empty_state_def\<close>)

text \<open>
  C40: The scoreboard. Under the heading the terminal shows, one per row, the names and scores
  of at most five players, in descending order of score, and no player that is not shown has a
  higher score than one that is; the closing line stands directly below.
\<close>

theorem scoreboard_shows_the_best:
  "\<exists>best rest. let n = min 5 (length (g_players (gameState c))) in
     mset (best @ rest) = mset (map snd (g_players (gameState c))) \<and> length best = n \<and>
     sorted_wrt (\<lambda>l r. pd_score r \<le> pd_score l) best \<and> (\<forall>p\<in>set best. \<forall>q\<in>set rest. pd_score q \<le> pd_score p) \<and>
     drop 4 (renderScore env c) =
       concat (map (\<lambda>i. score_row (c_height c + 7 + int i) (best ! i)) [0..<n]) @
       [PrintW (c_height c + 7 + int n) 0 (ascii ''+----------------------------------+'')]"
proof -
  let ?ps = "apply_sort (score_ord env) (map snd (g_players (gameState c)))"
  have len: "length ?ps = length (g_players (gameState c))"
    by (metis length_map mset_apply_sort size_mset)
  have "sorted_wrt (\<lambda>l r. pd_score r \<le> pd_score l) (take 5 ?ps)"
    "\<forall>p\<in>set (take 5 ?ps). \<forall>q\<in>set (drop 5 ?ps). pd_score q \<le> pd_score p"
    by (metis append_take_drop_id sorted_apply_sort sorted_wrt_append)+
  moreover have "mset (take 5 ?ps @ drop 5 ?ps) = mset (map snd (g_players (gameState c)))"
    by (simp only: append_take_drop_id mset_apply_sort)
  moreover have "drop 4 (renderScore env c) =
      concat (map (\<lambda>i. score_row (c_height c + 7 + int i) (take 5 ?ps ! i)) [0..<min 5 (length ?ps)]) @
      [PrintW (c_height c + 7 + int (min 5 (length ?ps))) 0 (ascii ''+----------------------------------+'')]"
    by (simp add: renderScore_def score_rows_eq Let_def) (intro arg_cong [where f = concat] map_cong; simp)
  ultimately show ?thesis
    unfolding Let_def len
    by (intro exI [of _ "take 5 ?ps"] exI [of _ "drop 5 ?ps"]) (simp only: length_take len min.commute)
qed

text \<open>Two players of whom the second is the better one.\<close>

definition scored :: "int \<Rightarrow> int \<Rightarrow> PlayerData" where
  "scored i n = \<lparr>pd_clientId = i, pd_direction = PLAYER_KEY_UP, pd_name = [0x61], pd_score = n, pd_color = 3,
     pd_segments = [(i, i)]\<rparr>"

definition scored_client :: SnakeClient where
  "scored_client = demo_client\<lparr>gameState := GameState_new\<lparr>g_players := [(1, scored 1 2), (2, scored 2 5)]\<rparr>\<rparr>"

theorem scoreboard_shows_the_best_witness:
  "drop 4 (renderScore demo_client_env scored_client) =
     score_row 47 (scored 2 5) @ score_row 48 (scored 1 2) @
     [PrintW 49 0 (ascii ''+----------------------------------+'')]"
proof -
  have c: "g_players (gameState scored_client) = [(1, scored 1 2), (2, scored 2 5)]" "c_height scored_client = 40"
    by (simp_all add: scored_client_def demo_client_def SnakeClient_new_def)
  obtain best rest where b: "mset (best @ rest) = {#scored 1 2, scored 2 5#}" "length best = 2"
    "sorted_wrt (\<lambda>l r. pd_score r \<le> pd_score l) best"
    and rows: "drop 4 (renderScore demo_client_env scored_client) =
       score_row 47 (best ! 0) @ score_row 48 (best ! 1) @ [PrintW 49 0 (ascii ''+----------------------------------+'')]"
    using scoreboard_shows_the_best [of scored_client demo_client_env] by (auto simp: c Let_def upt_rec)
  obtain x y where xy: "best = [x, y]" using b(2) by (auto simp: numeral_2_eq_2 length_Suc_conv)
  have "size (mset (best @ rest)) = 2" by (simp only: b(1)) simp
  then have "rest = []" using b(2) by simp
  with b(1) xy have "x = scored 1 2 \<and> y = scored 2 5 \<or> x = scored 2 5 \<and> y = scored 1 2"
    by (auto simp: add_eq_conv_ex)
  with b(3) xy have "best = [scored 2 5, scored 1 2]" by (auto simp: scored_def)
  with rows show ?thesis by simp
qed

end
