(* ===== verification/Pathfinder.thy ===== *)
theory Pathfinder
  imports Client_State
begin

text \<open>
  \<open>src/snake_bot/Pathfinder.cpp\<close>: the map of distances to the nearest food or boost that steers
  the bot. \<open>dijkstraMap\<close> is a list of rows, with a row and a column 0 that the arena does not
  use; every access is the checked \<open>at\<close>, whose argument becomes a huge index when it is
  negative. The search loop is a \<open>partial_function\<close>: that it ends is a theorem.
\<close>

definition LONG_MAX :: int where "LONG_MAX = 9223372036854775807"

record Pathfinder =
  pf_width :: int
  pf_height :: int
  dijkstraMap :: "int list list"

definition Pathfinder_new :: "int \<Rightarrow> int \<Rightarrow> Pathfinder" where
  "Pathfinder_new w h = \<lparr>pf_width = w, pf_height = h, dijkstraMap = []\<rparr>"

section \<open>Access to the map\<close>

definition vector_at :: "'a list \<Rightarrow> int \<Rightarrow> client_error + 'a" where
  "vector_at xs i = (if 0 \<le> i \<and> i < int (length xs) then Inr (xs ! nat i) else Inl CellOutOfRange)"

definition cell_get :: "cell \<Rightarrow> Pathfinder \<Rightarrow> client_error + int" where
  "cell_get c pf = rbind (vector_at (dijkstraMap pf) (snd c)) (\<lambda>row. vector_at row (fst c))"

definition cell_set :: "cell \<Rightarrow> int \<Rightarrow> Pathfinder \<Rightarrow> client_error + Pathfinder" where
  "cell_set c v pf =
     rbind (vector_at (dijkstraMap pf) (snd c)) (\<lambda>row.
     rbind (vector_at row (fst c)) (\<lambda>_.
       Inr (pf\<lparr>dijkstraMap := (dijkstraMap pf)[nat (snd c) := row[nat (fst c) := v]]\<rparr>)))"

section \<open>Choosing the next move\<close>

text \<open>One of the four blocks: \<open>lowest\<close> is the best value so far with its key.\<close>

definition consider_move :: "bool \<Rightarrow> cell \<Rightarrow> byte \<Rightarrow> Pathfinder \<Rightarrow> int \<times> byte \<Rightarrow> client_error + (int \<times> byte)" where
  "consider_move allowed c k pf lowest =
     (if allowed then
        rbind (cell_get c pf) (\<lambda>neighbourVal.
          if 0 \<le> neighbourVal \<and> neighbourVal < fst lowest then Inr (neighbourVal, k) else Inr lowest)
      else Inr lowest)"

definition calculateNextMove :: "int \<Rightarrow> GameState \<Rightarrow> Pathfinder \<Rightarrow> client_error + byte" where
  "calculateNextMove cid gs pf =
     (case um_at (g_players gs) cid of
        None \<Rightarrow> Inl NoSuchPlayer
      | Some player \<Rightarrow>
          (case pd_segments player of
             [] \<Rightarrow> Inl NoSegments
           | (x, y) # _ \<Rightarrow>
               let direction = pd_direction player in
               rbind (consider_move (direction \<noteq> PLAYER_KEY_DOWN \<and> y > 1) (x, y - 1) PLAYER_KEY_UP pf
                       (LONG_MAX, KEY_UNKNOWN)) (\<lambda>lowest.
               rbind (consider_move (direction \<noteq> PLAYER_KEY_UP \<and> y < pf_height pf) (x, y + 1) PLAYER_KEY_DOWN pf lowest) (\<lambda>lowest.
               rbind (consider_move (direction \<noteq> PLAYER_KEY_RIGHT \<and> x > 1) (x - 1, y) PLAYER_KEY_LEFT pf lowest) (\<lambda>lowest.
               rbind (consider_move (direction \<noteq> PLAYER_KEY_LEFT \<and> x < pf_width pf) (x + 1, y) PLAYER_KEY_RIGHT pf lowest) (\<lambda>lowest.
                 Inr (snd lowest)))))))"

section \<open>Building the map\<close>

definition food_cells :: "GameState \<Rightarrow> cell list" where
  "food_cells gs = map (\<lambda>f. (fd_x f, fd_y f)) (g_food gs)"

definition boost_cells :: "GameState \<Rightarrow> cell list" where
  "boost_cells gs = map (\<lambda>b. (bd_x b, bd_y b)) (g_speedBoosts gs)"

definition player_cells :: "GameState \<Rightarrow> cell list" where
  "player_cells gs = concat (map (\<lambda>(_, player). pd_segments player) (g_players gs))"

definition populateFoodAndPlayers :: "GameState \<Rightarrow> Pathfinder \<Rightarrow> client_error + Pathfinder" where
  "populateFoodAndPlayers gs pf =
     rbind (rfold (\<lambda>c. cell_set c 0) (food_cells gs) pf) (\<lambda>pf.
     rbind (rfold (\<lambda>c. cell_set c 0) (boost_cells gs) pf) (\<lambda>pf.
       rfold (\<lambda>c. cell_set c (-1)) (player_cells gs) pf))"

definition checkNeighbour :: "int \<Rightarrow> cell \<Rightarrow> cell list \<times> Pathfinder \<Rightarrow> client_error + (cell list \<times> Pathfinder)" where
  "checkNeighbour nextVal n st =
     (let (toVisit, pf) = st; (neighbourX, neighbourY) = n in
      if neighbourX \<le> 0 \<or> neighbourX > pf_width pf \<or> neighbourY \<le> 0 \<or> neighbourY > pf_height pf
      then Inr (toVisit, pf)
      else rbind (cell_get n pf) (\<lambda>v.
        if v \<noteq> INT_MAX then Inr (toVisit, pf)
        else rbind (cell_set n nextVal pf) (\<lambda>pf. Inr (toVisit @ [n], pf))))"

definition neighbours :: "cell \<Rightarrow> cell list" where
  "neighbours c = [(fst c, snd c - 1), (fst c, snd c + 1), (fst c - 1, snd c), (fst c + 1, snd c)]"

definition visit :: "cell \<Rightarrow> cell list \<times> Pathfinder \<Rightarrow> client_error + (cell list \<times> Pathfinder)" where
  "visit currentCell st =
     rbind (cell_get currentCell (snd st)) (\<lambda>v. rfold (checkNeighbour (v + 1)) (neighbours currentCell) st)"

partial_function (option) search :: "cell list \<Rightarrow> Pathfinder \<Rightarrow> (client_error + Pathfinder) option" where
  "search toVisit pf =
     (case toVisit of
        [] \<Rightarrow> Some (Inr pf)
      | currentCell # rest \<Rightarrow>
          (case visit currentCell (rest, pf) of
             Inl e \<Rightarrow> Some (Inl e)
           | Inr (toVisit, pf) \<Rightarrow> search toVisit pf))"

text \<open>A target hidden under a body part is not a seed.\<close>

definition add_seed :: "Pathfinder \<Rightarrow> cell \<Rightarrow> cell list \<Rightarrow> client_error + cell list" where
  "add_seed pf c toVisit = rbind (cell_get c pf) (\<lambda>v. Inr (if v = 0 then toVisit @ [c] else toVisit))"

definition computePaths :: "GameState \<Rightarrow> Pathfinder \<Rightarrow> (client_error + Pathfinder) option" where
  "computePaths gs pf =
     (case rbind (rfold (add_seed pf) (food_cells gs) []) (rfold (add_seed pf) (boost_cells gs)) of
        Inl e \<Rightarrow> Some (Inl e)
      | Inr toVisit \<Rightarrow> search toVisit pf)"

definition rebuildMap :: "GameState \<Rightarrow> Pathfinder \<Rightarrow> (client_error + Pathfinder) option" where
  "rebuildMap gs pf =
     (let pf = pf\<lparr>dijkstraMap := replicate (nat (pf_height pf + 1)) (replicate (nat (pf_width pf + 1)) INT_MAX)\<rparr> in
      case populateFoodAndPlayers gs pf of
        Inl e \<Rightarrow> Some (Inl e)
      | Inr pf \<Rightarrow> computePaths gs pf)"

end
