(* ===== verification/SnakeBot.thy ===== *)
theory SnakeBot
  imports Client_Messages Pathfinder Timer
begin

text \<open>
  \<open>src/snake_bot/SnakeBot.cpp\<close>: the bot. As for the terminal client, a pass of \<open>run\<close> is a
  function of the state and of what the environment delivers. The search in \<open>rebuildMap\<close> makes
  the operations partial: \<open>None\<close> is a pass that does not return. \<open>calculateRandomMove\<close> is called
  nowhere; it is in \<open>Client_Start\<close>, with the generator that only it uses as an argument.
\<close>

record bot_input =
  bi_clock :: int
  bi_recv :: recv_result
  bi_send :: "bytes \<Rightarrow> int"

record SnakeBot =
  awaitingJoin :: bool
  gameStateHasChanged :: bool
  b_clientId :: int
  b_timer :: Timer
  b_network :: NetworkClient
  b_gameState :: GameState
  pathfinder :: Pathfinder

definition SnakeBot_new :: "int \<Rightarrow> int \<Rightarrow> Timer \<Rightarrow> NetworkClient \<Rightarrow> SnakeBot" where
  "SnakeBot_new w h t net =
     \<lparr>awaitingJoin = False, gameStateHasChanged = True, b_clientId = -1, b_timer = t, b_network = net,
      b_gameState = GameState_new, pathfinder = Pathfinder_new w h\<rparr>"

section \<open>Joining\<close>

text \<open>The user name \<open>bot\<close> in an array of 16 zeroes.\<close>

definition bot_username :: bytes where
  "bot_username = [0x62, 0x6F, 0x74] @ replicate 13 0"

definition bot_joinGame :: "(bytes \<Rightarrow> int) \<Rightarrow> SnakeBot \<Rightarrow> client_error + SnakeBot" where
  "bot_joinGame snd_res b =
     rbind (lift_frame (serialise (VClientJoin
              \<lparr>cj_hdr = header_of CLIENT_JOIN (word_of_int (b_clientId b)), cj_username = bot_username\<rparr>))) (\<lambda>bs.
     rbind (sendToServer snd_res bs (b_network b)) (\<lambda>net. Inr (b\<lparr>b_network := net\<rparr>)))"

definition createBot :: "(bytes \<Rightarrow> int) \<Rightarrow> SnakeBot \<Rightarrow> client_error + SnakeBot" where
  "createBot snd_res b = rbind (bot_joinGame snd_res b) (\<lambda>b. Inr (b\<lparr>awaitingJoin := True\<rparr>))"

section \<open>Receiving\<close>

definition bot_handleServerWelcome :: "ServerWelcomeMsg \<Rightarrow> SnakeBot \<Rightarrow> SnakeBot" where
  "bot_handleServerWelcome msg b = b\<lparr>b_clientId := sint (clientId (sw_hdr msg)), awaitingJoin := False\<rparr>"

definition buildArenaMap :: "SnakeBot \<Rightarrow> (client_error + SnakeBot) option" where
  "buildArenaMap b =
     map_option (map_sum id (\<lambda>pf. b\<lparr>pathfinder := pf\<rparr>)) (rebuildMap (b_gameState b) (pathfinder b))"

definition bot_handleGameStateMessage :: "int iter_order \<Rightarrow> GameStateMsg \<Rightarrow> SnakeBot \<Rightarrow> (client_error + SnakeBot) option" where
  "bot_handleGameStateMessage ord msg b =
     (case fromProtocol ord msg of
        Inl e \<Rightarrow> Some (Inl e)
      | Inr gs \<Rightarrow>
          let b = b\<lparr>b_gameState := gs\<rparr>;
              b = (if b_clientId b \<noteq> -1 \<and> \<not> um_contains (g_players gs) (b_clientId b)
                   then b\<lparr>b_clientId := -1\<rparr> else b)
          in buildArenaMap b)"

definition bot_message :: "bytes \<Rightarrow> GameStateMsg option \<times> SnakeBot \<Rightarrow> client_error + (GameStateMsg option \<times> SnakeBot)" where
  "bot_message msgBytes st =
     (let (latestGameState, b) = st in
      rbind (lift_frame (deserialise msgBytes)) (\<lambda>msg.
        case mt_of (messageType (header msg)) of
          Some SERVER_WELCOME \<Rightarrow>
            (case msg of VServerWelcome m \<Rightarrow> Inr (latestGameState, bot_handleServerWelcome m b)
             | _ \<Rightarrow> Inl BadAlternative)
        | Some GAME_STATE \<Rightarrow>
            (case msg of VGameState m \<Rightarrow> Inr (Some m, b\<lparr>gameStateHasChanged := True\<rparr>) | _ \<Rightarrow> Inl BadAlternative)
        | _ \<Rightarrow> Inl UnexpectedMessage))"

definition bot_receiveUpdates :: "int iter_order \<Rightarrow> recv_result \<Rightarrow> SnakeBot \<Rightarrow> (client_error + SnakeBot) option" where
  "bot_receiveUpdates ord res b =
     (case rbind (receiveFromServer res (b_network b)) (\<lambda>(messages, net).
             rfold bot_message messages (None, b\<lparr>b_network := net\<rparr>)) of
        Inl e \<Rightarrow> Some (Inl e)
      | Inr (None, b) \<Rightarrow> Some (Inr b)
      | Inr (Some msg, b) \<Rightarrow> bot_handleGameStateMessage ord msg b)"

section \<open>Sending\<close>

definition calculatePathingMove :: "SnakeBot \<Rightarrow> client_error + byte" where
  "calculatePathingMove b = calculateNextMove (b_clientId b) (b_gameState b) (pathfinder b)"

definition sendInput :: "(bytes \<Rightarrow> int) \<Rightarrow> SnakeBot \<Rightarrow> client_error + SnakeBot" where
  "sendInput snd_res b =
     (if um_contains (g_players (b_gameState b)) (b_clientId b) then
        rbind (calculatePathingMove b) (\<lambda>inp.
        rbind (lift_frame (serialise (VClientInput
                 \<lparr>ci_hdr = header_of CLIENT_INPUT (word_of_int (b_clientId b)), ci_input = inp\<rparr>))) (\<lambda>bs.
        rbind (sendToServer snd_res bs (b_network b)) (\<lambda>net. Inr (b\<lparr>b_network := net\<rparr>))))
      else Inr b)"

section \<open>The loop\<close>

text \<open>What follows the receiving in one pass.\<close>

definition bot_answer :: "(bytes \<Rightarrow> int) \<Rightarrow> SnakeBot \<Rightarrow> client_error + SnakeBot" where
  "bot_answer snd_res b =
     (if b_clientId b \<noteq> -1 then
        rbind (if gameStateHasChanged b then sendInput snd_res b else Inr b)
          (\<lambda>b. Inr (b\<lparr>gameStateHasChanged := False\<rparr>))
      else Inr b)"

definition bot_pass :: "int iter_order \<Rightarrow> bot_input \<Rightarrow> SnakeBot \<Rightarrow> (client_error + SnakeBot) option" where
  "bot_pass ord inp b =
     (let b = b\<lparr>b_timer := Timer_tick (bi_clock inp) (b_timer b)\<rparr> in
      case (if b_clientId b = -1 \<and> \<not> awaitingJoin b then createBot (bi_send inp) b else Inr b) of
        Inl e \<Rightarrow> Some (Inl e)
      | Inr b \<Rightarrow> map_option (\<lambda>r. rbind r (bot_answer (bi_send inp))) (bot_receiveUpdates ord (bi_recv inp) b))"

primrec bot_run :: "int iter_order \<Rightarrow> bot_input list \<Rightarrow> SnakeBot \<Rightarrow> (client_error + SnakeBot) option" where
  "bot_run ord [] b = Some (Inr b)"
| "bot_run ord (inp # inps) b =
     (case bot_pass ord inp b of
        None \<Rightarrow> None
      | Some (Inl e) \<Rightarrow> Some (Inl e)
      | Some (Inr b) \<Rightarrow> bot_run ord inps b)"

end
