(* ===== verification/Breadth_First.thy ===== *)
theory Breadth_First
  imports Snake_Prelude
begin

text \<open>
  Breadth-first labelling in the abstract: a queue of labelled vertices, each of which labels
  its unlabelled neighbours with one more than its own label. The locale \<open>search_space\<close> is what
  the bot's map has to provide; within it the search ends, and the labels it leaves are exactly
  the distances from the seeds.
\<close>

section \<open>Distances\<close>

text \<open>\<open>reach adj free S n v\<close>: a walk of \<open>n\<close> steps through free vertices leads from a seed to \<open>v\<close>.\<close>

primrec reach :: "('v \<Rightarrow> 'v list) \<Rightarrow> 'v set \<Rightarrow> 'v set \<Rightarrow> nat \<Rightarrow> 'v \<Rightarrow> bool" where
  "reach adj free S 0 v \<longleftrightarrow> v \<in> S"
| "reach adj free S (Suc n) v \<longleftrightarrow> v \<in> free \<and> (\<exists>u. reach adj free S n u \<and> v \<in> set (adj u))"

definition distance :: "('v \<Rightarrow> 'v list) \<Rightarrow> 'v set \<Rightarrow> 'v set \<Rightarrow> 'v \<Rightarrow> nat option" where
  "distance adj free S v = (if \<exists>n. reach adj free S n v then Some (LEAST n. reach adj free S n v) else None)"

lemma distance_SomeI:
  assumes "reach adj free S n v" and "\<And>m. reach adj free S m v \<Longrightarrow> n \<le> m"
  shows "distance adj free S v = Some n"
  using assms by (auto simp: distance_def intro: Least_equality)

lemma distance_reach: "distance adj free S v = Some n \<Longrightarrow> reach adj free S n v"
  by (auto simp: distance_def split: if_splits intro: LeastI)

lemma distance_le: "reach adj free S n v \<Longrightarrow> \<exists>m. distance adj free S v = Some m \<and> m \<le> n"
  by (auto simp: distance_def intro: Least_le)

section \<open>The search\<close>

locale search_space =
  fixes adj :: "'v \<Rightarrow> 'v list" and free :: "'v set" and S :: "'v set"
  assumes finite_free: "finite free" and seeds_free: "S \<subseteq> free" and adj_distinct: "distinct (adj v)"
begin

text \<open>One iteration of the loop on the queue and the labels.\<close>

definition fresh :: "'v \<Rightarrow> ('v \<rightharpoonup> nat) \<Rightarrow> 'v list" where
  "fresh u d = filter (\<lambda>v. v \<in> free \<and> d v = None) (adj u)"

definition labelled :: "'v \<Rightarrow> ('v \<rightharpoonup> nat) \<Rightarrow> 'v \<rightharpoonup> nat" where
  "labelled u d = (\<lambda>v. if v \<in> set (fresh u d) then Some (Suc (the (d u))) else d v)"

text \<open>The invariant of the loop.\<close>

definition bfs_inv :: "'v list \<Rightarrow> ('v \<rightharpoonup> nat) \<Rightarrow> bool" where
  "bfs_inv q d \<longleftrightarrow>
     dom d \<subseteq> free \<and> set q \<subseteq> dom d \<and> (\<forall>v. d v = Some 0 \<longleftrightarrow> v \<in> S) \<and>
     (\<forall>v n. d v = Some (Suc n) \<longrightarrow> (\<exists>u. d u = Some n \<and> v \<in> set (adj u))) \<and>
     sorted (map (\<lambda>v. the (d v)) q) \<and>
     (q \<noteq> [] \<longrightarrow> (\<forall>v n. d v = Some n \<longrightarrow> n \<le> Suc (the (d (hd q))))) \<and>
     (\<forall>u n. d u = Some n \<longrightarrow> u \<notin> set q \<longrightarrow>
        (\<forall>v\<in>set (adj u) \<inter> free. \<exists>m. d v = Some m \<and> m \<le> Suc n))"

lemma bfs_invD:
  assumes "bfs_inv q d"
  shows "dom d \<subseteq> free" "set q \<subseteq> dom d" "\<And>v. d v = Some 0 \<longleftrightarrow> v \<in> S"
    "\<And>v n. d v = Some (Suc n) \<Longrightarrow> \<exists>u. d u = Some n \<and> v \<in> set (adj u)"
    "sorted (map (\<lambda>v. the (d v)) q)"
    "\<And>v n. q \<noteq> [] \<Longrightarrow> d v = Some n \<Longrightarrow> n \<le> Suc (the (d (hd q)))"
    "\<And>u n v. d u = Some n \<Longrightarrow> u \<notin> set q \<Longrightarrow> v \<in> set (adj u) \<Longrightarrow> v \<in> free \<Longrightarrow> \<exists>m. d v = Some m \<and> m \<le> Suc n"
  using assms unfolding bfs_inv_def by blast+

lemma bfs_start: "set q = S \<Longrightarrow> bfs_inv q (\<lambda>v. if v \<in> S then Some 0 else None)"
  using seeds_free by (auto simp: bfs_inv_def sorted_iff_nth_mono split: if_splits)

lemma fresh_unlabelled: "v \<in> set (fresh u d) \<Longrightarrow> d v = None \<and> v \<in> free \<and> v \<in> set (adj u)"
  by (simp add: fresh_def)

lemma labelled_old: "d v = Some n \<Longrightarrow> labelled u d v = Some n"
  by (auto simp: labelled_def dest: fresh_unlabelled)

lemma labelled_new: "v \<in> set (fresh u d) \<Longrightarrow> labelled u d v = Some (Suc (the (d u)))"
  by (simp add: labelled_def)

lemma labelled_cases:
  assumes "labelled u d v = Some n"
  obtains "d v = Some n" | "v \<in> set (fresh u d)" "n = Suc (the (d u))"
proof (cases "v \<in> set (fresh u d)")
  case True
  with assms that(2) show ?thesis by (simp add: labelled_def)
next
  case False
  with assms that(1) show ?thesis by (simp add: labelled_def)
qed

lemma bfs_step:
  assumes inv: "bfs_inv (u # q) d"
  shows "bfs_inv (q @ fresh u d) (labelled u d)"
proof -
  note i = bfs_invD [OF inv]
  let ?d = "labelled u d"
  from i(2) obtain k where k: "d u = Some k" by auto
  have sorted: "sorted (map (\<lambda>v. the (?d v)) (q @ fresh u d))"
  proof -
    have "?d v = d v" if "v \<in> set q" for v
    proof -
      from that i(2) obtain n where n: "d v = Some n" by auto
      from labelled_old [of d v n u, OF n] n show ?thesis by simp
    qed
    then have "map (\<lambda>v. the (?d v)) q = map (\<lambda>v. the (d v)) q" by simp
    moreover have "map (\<lambda>v. the (?d v)) (fresh u d) = replicate (length (fresh u d)) (Suc k)"
      by (rule nth_equalityI) (simp_all add: labelled_new k)
    moreover have "the (d v) \<le> Suc k" if "v \<in> set q" for v
    proof -
      from that i(2) obtain n where "d v = Some n" by auto
      with i(6) [of v n] k show ?thesis by simp
    qed
    moreover have "sorted (map (\<lambda>v. the (d v)) q)" using i(5) by simp
    ultimately show ?thesis unfolding map_append by (auto simp only:) (auto simp: sorted_append sorted_replicate)
  qed
  have top: "n \<le> Suc (the (?d (hd (q @ fresh u d))))"
    if "q @ fresh u d \<noteq> []" and n: "?d v = Some n" for v n
  proof -
    from n have n': "n \<le> Suc k" by (cases rule: labelled_cases) (use i(6) [of v n] k in simp_all)
    show ?thesis
    proof (cases q)
      case Nil
      then have "hd (q @ fresh u d) \<in> set (fresh u d)" using that(1) by simp
      from labelled_new [OF this] n' k show ?thesis by simp
    next
      case (Cons w ws)
      with i(2) obtain m where m: "d w = Some m" by auto
      with Cons i(5) k have "k \<le> m" by simp
      with Cons n' labelled_old [of d w m u] m show ?thesis by simp
    qed
  qed
  have closed: "\<exists>m. ?d v = Some m \<and> m \<le> Suc n"
    if u': "?d u' = Some n" "u' \<notin> set (q @ fresh u d)" and v: "v \<in> set (adj u')" "v \<in> free" for u' n v
  proof -
    from u' have d': "d u' = Some n" by (auto elim: labelled_cases)
    show ?thesis
    proof (cases "u' = u")
      case True
      then have "n = k" using d' k by simp
      show ?thesis
      proof (cases "d v")
        case None
        with True v have "v \<in> set (fresh u d)" by (simp add: fresh_def)
        with labelled_new \<open>n = k\<close> k show ?thesis by fastforce
      next
        case (Some m)
        with i(6) [of v m] k labelled_old [of d v m u] Some \<open>n = k\<close> show ?thesis by simp
      qed
    next
      case False
      with i(7) [OF d' _ v] u'(2) labelled_old show ?thesis by fastforce
    qed
  qed
  have parent: "\<exists>w. ?d w = Some n \<and> v \<in> set (adj w)" if "?d v = Some (Suc n)" for v n
    using that
  proof (cases rule: labelled_cases)
    case 1
    with i(4) labelled_old show ?thesis by blast
  next
    case 2
    with k labelled_old [of d u k u] fresh_unlabelled show ?thesis by (intro exI [of _ u]) auto
  qed
  have "dom ?d \<subseteq> free" "set (q @ fresh u d) \<subseteq> dom ?d" "?d v = Some 0 \<longleftrightarrow> v \<in> S" for v
    using i(1-3) labelled_old labelled_new by (auto elim!: labelled_cases dest: fresh_unlabelled)
  with sorted top closed parent show ?thesis unfolding bfs_inv_def by blast
qed

text \<open>The measure of the loop.\<close>

definition remaining :: "'v list \<Rightarrow> ('v \<rightharpoonup> nat) \<Rightarrow> nat" where
  "remaining q d = 2 * card (free - dom d) + length q"

lemma remaining_step: "remaining (q @ fresh u d) (labelled u d) < remaining (u # q) d"
proof -
  have "free - dom (labelled u d) = (free - dom d) - set (fresh u d)"
    by (auto simp: labelled_def split: if_splits)
  moreover have "set (fresh u d) \<subseteq> free - dom d" by (auto dest: fresh_unlabelled)
  moreover have "card (set (fresh u d)) = length (fresh u d)"
    by (rule distinct_card) (simp add: fresh_def adj_distinct)
  ultimately have "card (free - dom (labelled u d)) + length (fresh u d) = card (free - dom d)"
    using finite_free by (simp add: card_Diff_subset) (metis card_mono finite_Diff le_add_diff_inverse2)
  then show ?thesis by (simp add: remaining_def)
qed

text \<open>Labels stay below the number of free vertices: every smaller label occurs as well.\<close>

lemma labels_bounded:
  assumes "bfs_inv q d" and "d v = Some n"
  shows "n < card free"
proof -
  have "\<exists>u. d u = Some m" if "m \<le> n" for m
    using that assms(2)
  proof (induction "n - m" arbitrary: n v)
    case (Suc k)
    then obtain n' where n: "n = Suc n'" by (cases n) auto
    with bfs_invD(4) [OF assms(1)] Suc.prems(2) obtain u where "d u = Some n'" by blast
    with Suc n show ?case by (intro Suc.hyps(1) [of n' u]) auto
  qed auto
  then have "{..n} \<subseteq> (\<lambda>u. the (d u)) ` free"
    using bfs_invD(1) [OF assms(1)] by (force simp: image_iff)
  then have "card {..n} \<le> card free"
    using finite_free by (metis card_image_le card_mono finite_imageI le_trans)
  then show ?thesis by simp
qed

text \<open>With an empty queue the labels are the distances.\<close>

lemma labels_are_distances:
  assumes "bfs_inv [] d"
  shows "d v = distance adj free S v"
proof -
  note i = bfs_invD [OF assms]
  have sound: "d v = Some n \<Longrightarrow> reach adj free S n v" for v n
  proof (induction n arbitrary: v)
    case (Suc n)
    with i(4) [of v n] i(1) show ?case by auto
  qed (simp add: i(3))
  have complete: "reach adj free S n v \<Longrightarrow> \<exists>m. d v = Some m \<and> m \<le> n" for v n
  proof (induction n arbitrary: v)
    case (Suc n)
    then obtain u where u: "reach adj free S n u" "v \<in> set (adj u)" "v \<in> free" by auto
    from Suc.IH [OF u(1)] obtain m where "d u = Some m" "m \<le> n" by blast
    with i(7) [of u m v] u show ?case by fastforce
  qed (use i(3) in auto)
  show ?thesis
  proof (cases "d v")
    case None
    then have "\<not> reach adj free S n v" for n using complete by fastforce
    with None show ?thesis by (simp add: distance_def)
  next
    case (Some n)
    have "distance adj free S v = Some n"
      by (rule distance_SomeI [OF sound [OF Some]]) (use complete Some in fastforce)
    with Some show ?thesis by simp
  qed
qed

text \<open>The distances themselves satisfy the invariant; so they are bounded, and every positive one has a predecessor.\<close>

lemma distance_Suc:
  assumes "distance adj free S v = Some (Suc n)"
  shows "\<exists>u. distance adj free S u = Some n \<and> v \<in> set (adj u)"
proof -
  from distance_reach [OF assms] obtain u where u: "reach adj free S n u" "v \<in> set (adj u)" "v \<in> free" by auto
  from distance_le [OF u(1)] obtain m where m: "distance adj free S u = Some m" "m \<le> n" by blast
  from distance_reach [OF m(1)] u have "reach adj free S (Suc m) v" by auto
  from distance_le [OF this] assms m(2) have "m = n" by auto
  with m u show ?thesis by blast
qed

lemma reach_free: "reach adj free S n v \<Longrightarrow> v \<in> free"
  using seeds_free by (cases n) auto

lemma distance_inv: "bfs_inv [] (distance adj free S)"
proof -
  have "distance adj free S v = Some 0 \<longleftrightarrow> v \<in> S" for v
    using distance_reach [of adj free S v 0] distance_SomeI [of adj free S 0 v] by auto
  moreover have "\<exists>m. distance adj free S v = Some m \<and> m \<le> Suc n"
    if "distance adj free S u = Some n" "v \<in> set (adj u)" "v \<in> free" for u v n
    by (rule distance_le) (use distance_reach [OF that(1)] that(2,3) in auto)
  moreover have "dom (distance adj free S) \<subseteq> free"
    by (auto simp: dom_def intro: reach_free [OF distance_reach])
  ultimately show ?thesis using distance_Suc unfolding bfs_inv_def by auto
qed

lemmas distance_bounded = labels_bounded [OF distance_inv]

end

end
