(* ===== verification/Pathfinder_Laws.thy ===== *)
theory Pathfinder_Laws
  imports Pathfinder Breadth_First
begin

text \<open>
  The bot's map is what its search space says: after \<open>rebuildMap\<close> every cell of the arena holds
  -1 under a snake, the distance to the nearest uncovered food or boost where there is a way, and
  \<open>INT_MAX\<close> elsewhere; and the move the bot chooses is a best one of those that neither turn back
  nor leave the arena nor hit a snake.
\<close>

section \<open>The search space of a game state\<close>

definition pf_arena :: "Pathfinder \<Rightarrow> cell set" where
  "pf_arena pf = {1..pf_width pf} \<times> {1..pf_height pf}"

definition open_cells :: "GameState \<Rightarrow> Pathfinder \<Rightarrow> cell set" where
  "open_cells gs pf = pf_arena pf - set (player_cells gs)"

definition targets :: "GameState \<Rightarrow> Pathfinder \<Rightarrow> cell set" where
  "targets gs pf = (set (food_cells gs) \<union> set (boost_cells gs)) \<inter> open_cells gs pf"

text \<open>Everything on the map lies in the arena, which has fewer than \<open>INT_MAX\<close> cells.\<close>

definition on_map :: "GameState \<Rightarrow> Pathfinder \<Rightarrow> bool" where
  "on_map gs pf \<longleftrightarrow> 0 \<le> pf_width pf \<and> 0 \<le> pf_height pf \<and> pf_width pf * pf_height pf < INT_MAX \<and>
     set (food_cells gs) \<union> set (boost_cells gs) \<union> set (player_cells gs) \<subseteq> pf_arena pf"

definition steps_to_target :: "GameState \<Rightarrow> Pathfinder \<Rightarrow> cell \<Rightarrow> nat option" where
  "steps_to_target gs pf = distance neighbours (open_cells gs pf) (targets gs pf)"

interpretation bot: search_space neighbours "open_cells gs pf" "targets gs pf"
  for gs :: GameState and pf :: Pathfinder
  by unfold_locales (auto simp: open_cells_def pf_arena_def targets_def neighbours_def)

text \<open>What the cell of a map should hold.\<close>

definition cell_value :: "cell set \<Rightarrow> (cell \<rightharpoonup> nat) \<Rightarrow> cell \<Rightarrow> int" where
  "cell_value blocked d c =
     (if c \<in> blocked then -1 else case d c of None \<Rightarrow> INT_MAX | Some n \<Rightarrow> int n)"

lemma finite_pf_arena [simp]: "finite (pf_arena pf)"
  by (simp add: pf_arena_def)

lemma card_pf_arena: "0 \<le> pf_width pf \<Longrightarrow> 0 \<le> pf_height pf \<Longrightarrow> int (card (pf_arena pf)) = pf_width pf * pf_height pf"
  by (simp add: pf_arena_def card_cartesian_product)

section \<open>Reading and writing cells\<close>

text \<open>The map has the rows and columns that \<open>assign\<close> gave it.\<close>

definition shaped_map :: "Pathfinder \<Rightarrow> bool" where
  "shaped_map pf \<longleftrightarrow> 0 \<le> pf_width pf \<and> 0 \<le> pf_height pf \<and>
     length (dijkstraMap pf) = nat (pf_height pf + 1) \<and>
     (\<forall>row\<in>set (dijkstraMap pf). length row = nat (pf_width pf + 1))"

text \<open>The function a map stands for: \<open>holds_values pf f\<close>.\<close>

definition holds_values :: "Pathfinder \<Rightarrow> (cell \<Rightarrow> int) \<Rightarrow> bool" where
  "holds_values pf f \<longleftrightarrow> shaped_map pf \<and> (\<forall>c\<in>pf_arena pf. cell_get c pf = Inr (f c))"

lemma cell_get_total:
  assumes "shaped_map pf" and "c \<in> pf_arena pf"
  shows "cell_get c pf = Inr (dijkstraMap pf ! nat (snd c) ! nat (fst c))"
proof -
  have "dijkstraMap pf ! nat (snd c) \<in> set (dijkstraMap pf)"
    using assms by (intro nth_mem) (auto simp: shaped_map_def pf_arena_def)
  with assms show ?thesis by (auto simp: cell_get_def vector_at_def shaped_map_def pf_arena_def)
qed

lemma cell_set_total:
  assumes "holds_values pf f" and "c \<in> pf_arena pf"
  shows "\<exists>pf'. cell_set c v pf = Inr pf' \<and> holds_values pf' (f(c := v)) \<and>
     pf_width pf' = pf_width pf \<and> pf_height pf' = pf_height pf"
proof -
  let ?x = "nat (fst c)" and ?y = "nat (snd c)"
  let ?m = "dijkstraMap pf"
  let ?pf = "pf\<lparr>dijkstraMap := ?m[?y := (?m ! ?y)[?x := v]]\<rparr>"
  have sh: "shaped_map pf" using assms(1) by (simp add: holds_values_def)
  have y: "?y < length ?m" using sh assms(2) by (auto simp: shaped_map_def pf_arena_def)
  then have x: "?x < length (?m ! ?y)" using sh assms(2) nth_mem [OF y] by (auto simp: shaped_map_def pf_arena_def)
  have "cell_set c v pf = Inr ?pf"
    using x y assms(2) by (auto simp: cell_set_def vector_at_def pf_arena_def)
  moreover have sh': "shaped_map ?pf"
    using sh y nth_mem [OF y] by (auto simp: shaped_map_def dest!: set_update_subset_insert [THEN subsetD])
  moreover have "cell_get e ?pf = Inr ((f(c := v)) e)" if "e \<in> pf_arena ?pf" for e
  proof -
    have e: "e \<in> pf_arena pf" using that by (simp add: pf_arena_def)
    have f: "f e = ?m ! nat (snd e) ! nat (fst e)"
      using assms(1) e cell_get_total [OF sh e] by (auto simp: holds_values_def)
    have "?m[?y := (?m ! ?y)[?x := v]] ! nat (snd e) ! nat (fst e) = (f(c := v)) e"
    proof (cases "e = c")
      case True
      with x y show ?thesis by simp
    next
      case False
      with e assms(2) have "nat (snd e) \<noteq> ?y \<or> nat (fst e) \<noteq> ?x"
        by (auto simp: pf_arena_def prod_eq_iff)
      with False f x y show ?thesis by (auto simp: nth_list_update)
    qed
    with cell_get_total [OF sh' that] show ?thesis by simp
  qed
  ultimately show ?thesis by (intro exI [of _ ?pf]) (simp add: holds_values_def)
qed

lemma write_cells:
  assumes "holds_values pf f" and "set cs \<subseteq> pf_arena pf"
  shows "\<exists>pf'. rfold (\<lambda>c. cell_set c v) cs pf = Inr pf' \<and>
     holds_values pf' (\<lambda>c. if c \<in> set cs then v else f c) \<and>
     pf_width pf' = pf_width pf \<and> pf_height pf' = pf_height pf"
  using assms
proof (induction cs arbitrary: pf f)
  case (Cons c cs)
  from cell_set_total [OF Cons.prems(1), of c v] Cons.prems(2) obtain pf1 where
    1: "cell_set c v pf = Inr pf1" "holds_values pf1 (f(c := v))" "pf_width pf1 = pf_width pf" "pf_height pf1 = pf_height pf"
    by auto
  then have "pf_arena pf1 = pf_arena pf" by (simp add: pf_arena_def)
  with Cons.IH [OF 1(2)] Cons.prems(2) obtain pf2 where
    2: "rfold (\<lambda>c. cell_set c v) cs pf1 = Inr pf2"
      "holds_values pf2 (\<lambda>e. if e \<in> set cs then v else (f(c := v)) e)"
      "pf_width pf2 = pf_width pf" "pf_height pf2 = pf_height pf" using 1 by auto
  have "(\<lambda>e. if e \<in> set cs then v else (f(c := v)) e) = (\<lambda>e. if e \<in> set (c # cs) then v else f e)"
    by (auto simp: fun_eq_iff)
  with 1 2 show ?case by auto
qed simp

section \<open>Filling in food and players\<close>

lemma blank_map:
  "0 \<le> pf_width pf \<Longrightarrow> 0 \<le> pf_height pf \<Longrightarrow>
     holds_values (pf\<lparr>dijkstraMap := replicate (nat (pf_height pf + 1)) (replicate (nat (pf_width pf + 1)) INT_MAX)\<rparr>)
       (\<lambda>_. INT_MAX)"
  by (auto simp: holds_values_def shaped_map_def pf_arena_def cell_get_def vector_at_def)

definition same_size :: "Pathfinder \<Rightarrow> Pathfinder \<Rightarrow> bool" where
  "same_size pf pf' \<longleftrightarrow> pf_width pf' = pf_width pf \<and> pf_height pf' = pf_height pf"

lemma same_size_arena: "same_size pf pf' \<Longrightarrow> pf_arena pf' = pf_arena pf"
  by (simp add: same_size_def pf_arena_def)

lemma same_size_refl [simp]: "same_size pf pf"
  by (simp add: same_size_def)

lemma same_size_trans: "same_size pf pf' \<Longrightarrow> same_size pf' pf'' \<Longrightarrow> same_size pf pf''"
  by (simp add: same_size_def)

definition seeded :: "GameState \<Rightarrow> Pathfinder \<Rightarrow> cell \<rightharpoonup> nat" where
  "seeded gs pf = (\<lambda>c. if c \<in> targets gs pf then Some 0 else None)"

lemma holds_values_cong:
  "holds_values pf f \<Longrightarrow> (\<And>c. c \<in> pf_arena pf \<Longrightarrow> f c = g c) \<Longrightarrow> holds_values pf g"
  by (simp add: holds_values_def)

lemma populate_total:
  assumes "on_map gs pf" and "holds_values pf (\<lambda>_. INT_MAX)"
  shows "\<exists>pf'. populateFoodAndPlayers gs pf = Inr pf' \<and> same_size pf pf' \<and>
     holds_values pf' (cell_value (set (player_cells gs)) (seeded gs pf))"
proof -
  from assms(1) have in_arena: "set (food_cells gs) \<subseteq> pf_arena pf" "set (boost_cells gs) \<subseteq> pf_arena pf"
    "set (player_cells gs) \<subseteq> pf_arena pf" by (auto simp: on_map_def)
  from write_cells [OF assms(2) in_arena(1), of 0] obtain p1 where
    1: "rfold (\<lambda>c. cell_set c 0) (food_cells gs) pf = Inr p1" "same_size pf p1"
      "holds_values p1 (\<lambda>c. if c \<in> set (food_cells gs) then 0 else INT_MAX)"
    unfolding same_size_def by blast
  with in_arena(2) have "set (boost_cells gs) \<subseteq> pf_arena p1" by (simp add: same_size_arena)
  from write_cells [OF 1(3) this, of 0] 1(2) obtain p2 where
    2: "rfold (\<lambda>c. cell_set c 0) (boost_cells gs) p1 = Inr p2" "same_size pf p2"
      "holds_values p2 (\<lambda>c. if c \<in> set (boost_cells gs) then 0 else if c \<in> set (food_cells gs) then 0 else INT_MAX)"
    unfolding same_size_def by auto
  with in_arena(3) have "set (player_cells gs) \<subseteq> pf_arena p2" by (simp add: same_size_arena)
  from write_cells [OF 2(3) this, of "-1"] 2(2) obtain p3 where
    3: "rfold (\<lambda>c. cell_set c (-1)) (player_cells gs) p2 = Inr p3" "same_size pf p3"
      "holds_values p3 (\<lambda>c. if c \<in> set (player_cells gs) then -1
         else if c \<in> set (boost_cells gs) then 0 else if c \<in> set (food_cells gs) then 0 else INT_MAX)"
    unfolding same_size_def by auto
  have "holds_values p3 (cell_value (set (player_cells gs)) (seeded gs pf))"
    by (rule holds_values_cong [OF 3(3)])
      (auto simp: cell_value_def seeded_def targets_def open_cells_def same_size_arena [OF 3(2)])
  with 1(1) 2(1) 3(1,2) show ?thesis by (simp add: populateFoodAndPlayers_def)
qed

section \<open>The search loop refines the abstract search\<close>

definition small_labels :: "(cell \<rightharpoonup> nat) \<Rightarrow> bool" where
  "small_labels d \<longleftrightarrow> (\<forall>c n. d c = Some n \<longrightarrow> int n < INT_MAX)"

lemma cell_value_INT_MAX:
  "small_labels d \<Longrightarrow> cell_value B d c = INT_MAX \<longleftrightarrow> c \<notin> B \<and> d c = None"
  by (cases c; force simp: cell_value_def small_labels_def INT_MAX_def split: option.splits)

lemma check_neighbours:
  assumes "holds_values pf (cell_value B d)" and "small_labels d" and "int (Suc k) < INT_MAX" and "distinct ns"
  shows "\<exists>pf'. rfold (checkNeighbour (int (Suc k))) ns (q, pf) =
       Inr (q @ filter (\<lambda>n. n \<in> pf_arena pf - B \<and> d n = None) ns, pf') \<and> same_size pf pf' \<and>
     holds_values pf' (cell_value B (\<lambda>c. if c \<in> set ns \<and> c \<in> pf_arena pf - B \<and> d c = None then Some (Suc k) else d c))"
  using assms
proof (induction ns arbitrary: q pf d)
  case (Cons n ns)
  let ?new = "\<lambda>c. c \<in> pf_arena pf - B \<and> d c = None"
  let ?d = "\<lambda>c. if c \<in> set (n # ns) \<and> ?new c then Some (Suc k) else d c"
  show ?case
  proof (cases "?new n")
    case False
    have "checkNeighbour (int (Suc k)) n (q, pf) = Inr (q, pf)"
      using False Cons.prems(1) cell_value_INT_MAX [OF Cons.prems(2), of B n]
      by (cases "n \<in> pf_arena pf") (auto simp: checkNeighbour_def holds_values_def pf_arena_def split: prod.splits)
    moreover have "(\<lambda>c. if c \<in> set ns \<and> ?new c then Some (Suc k) else d c) = ?d"
      using False by (auto simp: fun_eq_iff)
    ultimately show ?thesis using Cons.IH [OF Cons.prems(1-3)] Cons.prems(4) False by auto
  next
    case True
    let ?d1 = "d(n \<mapsto> Suc k)"
    from cell_set_total [OF Cons.prems(1), of n "int (Suc k)"] True obtain pf1 where
      pf1: "cell_set n (int (Suc k)) pf = Inr pf1" "holds_values pf1 ((cell_value B d)(n := int (Suc k)))" "same_size pf pf1"
      unfolding same_size_def by auto
    have step: "checkNeighbour (int (Suc k)) n (q, pf) = Inr (q @ [n], pf1)"
      using True Cons.prems(1) cell_value_INT_MAX [OF Cons.prems(2), of B n] pf1(1)
      by (auto simp: checkNeighbour_def holds_values_def pf_arena_def split: prod.splits)
    have "(cell_value B d)(n := int (Suc k)) = cell_value B ?d1"
      using True by (auto simp: fun_eq_iff cell_value_def)
    with pf1(2) have h1: "holds_values pf1 (cell_value B ?d1)" by simp
    have "small_labels ?d1" using Cons.prems(2,3) by (auto simp: small_labels_def)
    from Cons.IH [OF h1 this Cons.prems(3), of "q @ [n]"] Cons.prems(4) obtain pf2 where
      pf2: "rfold (checkNeighbour (int (Suc k))) ns (q @ [n], pf1) =
          Inr ((q @ [n]) @ filter (\<lambda>m. m \<in> pf_arena pf - B \<and> ?d1 m = None) ns, pf2)" "same_size pf pf2"
        "holds_values pf2 (cell_value B (\<lambda>c. if c \<in> set ns \<and> c \<in> pf_arena pf - B \<and> ?d1 c = None then Some (Suc k) else ?d1 c))"
      using same_size_arena [OF pf1(3)] same_size_trans [OF pf1(3)] by auto
    have "filter (\<lambda>m. m \<in> pf_arena pf - B \<and> ?d1 m = None) ns = filter ?new ns"
      using Cons.prems(4) by (intro filter_cong) auto
    moreover have "(\<lambda>c. if c \<in> set ns \<and> c \<in> pf_arena pf - B \<and> ?d1 c = None then Some (Suc k) else ?d1 c) = ?d"
      using True by (auto simp: fun_eq_iff)
    ultimately show ?thesis using step pf2 True by auto
  qed
qed simp

lemma visit_step:
  assumes inv: "bot.bfs_inv gs pf (c # q) d" and h: "holds_values pf' (cell_value (set (player_cells gs)) d)"
    and size: "same_size pf pf'" and small: "int (card (open_cells gs pf)) < INT_MAX"
  shows "\<exists>pf''. visit c (q, pf') = Inr (q @ bot.fresh gs pf c d, pf'') \<and> same_size pf pf'' \<and>
     holds_values pf'' (cell_value (set (player_cells gs)) (bot.labelled gs pf c d))"
proof -
  let ?B = "set (player_cells gs)"
  from bot.bfs_invD(1,2) [OF inv] obtain k where k: "d c = Some k" "c \<in> open_cells gs pf" by auto
  have labels: "small_labels d" "int (Suc k) < INT_MAX"
    using bot.labels_bounded [OF inv] k small by (fastforce simp: small_labels_def)+
  have get: "cell_get c pf' = Inr (int k)"
    using h k same_size_arena [OF size] by (simp add: holds_values_def cell_value_def open_cells_def)
  have open_eq: "pf_arena pf' - ?B = open_cells gs pf"
    using same_size_arena [OF size] by (simp add: open_cells_def)
  have "distinct (neighbours c)" by (rule bot.adj_distinct)
  from check_neighbours [OF h labels this, of q] obtain pf'' where
    step: "rfold (checkNeighbour (int (Suc k))) (neighbours c) (q, pf') =
       Inr (q @ filter (\<lambda>n. n \<in> open_cells gs pf \<and> d n = None) (neighbours c), pf'')" "same_size pf' pf''"
      "holds_values pf'' (cell_value ?B (\<lambda>e. if e \<in> set (neighbours c) \<and> e \<in> open_cells gs pf \<and> d e = None then Some (Suc k) else d e))"
    unfolding open_eq by blast
  have "(\<lambda>e. if e \<in> set (neighbours c) \<and> e \<in> open_cells gs pf \<and> d e = None then Some (Suc k) else d e) =
      bot.labelled gs pf c d"
    by (auto simp: bot.labelled_def bot.fresh_def k fun_eq_iff)
  with step get same_size_trans [OF size] show ?thesis
    by (simp add: visit_def bot.fresh_def add.commute)
qed

lemma search_total:
  assumes "bot.bfs_inv gs pf q d" and "holds_values pf' (cell_value (set (player_cells gs)) d)"
    and "same_size pf pf'" and "int (card (open_cells gs pf)) < INT_MAX"
  shows "\<exists>pf''. search q pf' = Some (Inr pf'') \<and> same_size pf pf'' \<and>
     holds_values pf'' (cell_value (set (player_cells gs)) (steps_to_target gs pf))"
  using assms(1-3)
proof (induction "bot.remaining gs pf q d" arbitrary: q d pf' rule: less_induct)
  case less
  show ?case
  proof (cases q)
    case Nil
    with less.prems(1) have "d = steps_to_target gs pf"
      by (intro ext) (simp add: bot.labels_are_distances steps_to_target_def)
    with Nil less.prems show ?thesis by (simp add: search.simps)
  next
    case (Cons c cs)
    with less.prems(1) have inv: "bot.bfs_inv gs pf (c # cs) d" by simp
    from visit_step [OF inv less.prems(2,3) assms(4)] obtain pf1 where
      v: "visit c (cs, pf') = Inr (cs @ bot.fresh gs pf c d, pf1)" "same_size pf pf1"
        "holds_values pf1 (cell_value (set (player_cells gs)) (bot.labelled gs pf c d))" by blast
    from less.hyps [OF _ bot.bfs_step [OF inv] v(3,2)] bot.remaining_step Cons
    obtain pf2 where "search (cs @ bot.fresh gs pf c d) pf1 = Some (Inr pf2)" "same_size pf pf2"
        "holds_values pf2 (cell_value (set (player_cells gs)) (steps_to_target gs pf))" by blast
    with Cons v show ?thesis by (simp add: search.simps [of "c # cs"])
  qed
qed

lemma add_seeds:
  assumes "holds_values pf f" and "set cs \<subseteq> pf_arena pf"
  shows "rfold (add_seed pf) cs q = Inr (q @ filter (\<lambda>c. f c = 0) cs)"
  using assms by (induction cs arbitrary: q) (auto simp: add_seed_def holds_values_def)

lemma rebuildMap_total:
  assumes "on_map gs pf"
  shows "\<exists>pf'. rebuildMap gs pf = Some (Inr pf') \<and> same_size pf pf' \<and>
     holds_values pf' (cell_value (set (player_cells gs)) (steps_to_target gs pf))"
proof -
  let ?pf = "pf\<lparr>dijkstraMap := replicate (nat (pf_height pf + 1)) (replicate (nat (pf_width pf + 1)) INT_MAX)\<rparr>"
  let ?v = "cell_value (set (player_cells gs)) (seeded gs pf)"
  have size: "same_size pf ?pf" by (simp add: same_size_def)
  have eqs: "on_map gs ?pf" "seeded gs ?pf = seeded gs pf"
    using assms by (simp_all add: on_map_def seeded_def targets_def open_cells_def pf_arena_def)
  have "holds_values ?pf (\<lambda>_. INT_MAX)" using assms by (intro blank_map) (simp_all add: on_map_def)
  from populate_total [OF eqs(1) this] obtain pf1 where
    1: "populateFoodAndPlayers gs ?pf = Inr pf1" "same_size pf pf1" "holds_values pf1 ?v"
    using same_size_trans [OF size] eqs(2) by auto
  let ?q = "filter (\<lambda>c. ?v c = 0) (food_cells gs) @ filter (\<lambda>c. ?v c = 0) (boost_cells gs)"
  have arena: "set (food_cells gs) \<subseteq> pf_arena pf1" "set (boost_cells gs) \<subseteq> pf_arena pf1"
    using assms same_size_arena [OF 1(2)] by (auto simp: on_map_def)
  have seeds: "rbind (rfold (add_seed pf1) (food_cells gs) []) (rfold (add_seed pf1) (boost_cells gs)) = Inr ?q"
    by (simp add: add_seeds [OF 1(3) arena(1)] add_seeds [OF 1(3) arena(2)])
  have "?v c = 0 \<longleftrightarrow> c \<in> targets gs pf" if "c \<in> set (food_cells gs) \<union> set (boost_cells gs)" for c
    by (auto simp: cell_value_def seeded_def targets_def open_cells_def INT_MAX_def)
  then have "set ?q = targets gs pf" using arena same_size_arena [OF 1(2)] by (auto simp: targets_def)
  from bot.bfs_start [OF this] have inv: "bot.bfs_inv gs pf ?q (seeded gs pf)" by (simp add: seeded_def)
  have "card (open_cells gs pf) \<le> card (pf_arena pf)" by (intro card_mono) (auto simp: open_cells_def)
  with assms card_pf_arena [of pf] have "int (card (open_cells gs pf)) < INT_MAX" by (auto simp: on_map_def)
  from search_total [OF inv 1(3,2) this] show ?thesis
    using 1(1) seeds by (auto simp: rebuildMap_def computePaths_def Let_def)
qed

section \<open>The choice of the next move\<close>

definition towards :: "byte \<Rightarrow> cell \<Rightarrow> cell" where
  "towards k c =
     (if k = PLAYER_KEY_UP then (fst c, snd c - 1) else if k = PLAYER_KEY_DOWN then (fst c, snd c + 1)
      else if k = PLAYER_KEY_LEFT then (fst c - 1, snd c) else (fst c + 1, snd c))"

definition keys :: "byte list" where
  "keys = [PLAYER_KEY_UP, PLAYER_KEY_DOWN, PLAYER_KEY_LEFT, PLAYER_KEY_RIGHT]"

text \<open>The moves that neither turn back nor leave the arena nor hit a snake, and their costs.\<close>

definition good_moves :: "GameState \<Rightarrow> Pathfinder \<Rightarrow> byte \<Rightarrow> cell \<Rightarrow> byte set" where
  "good_moves gs pf d c = {k \<in> set keys. d \<noteq> opposite k \<and> towards k c \<in> open_cells gs pf}"

lemma good_moves_filter:
  "good_moves gs pf d c = set (filter (\<lambda>k. d \<noteq> opposite k \<and> towards k c \<in> open_cells gs pf) keys)"
  by (auto simp: good_moves_def)

definition cost :: "GameState \<Rightarrow> Pathfinder \<Rightarrow> cell \<Rightarrow> int" where
  "cost gs pf c = (case steps_to_target gs pf c of None \<Rightarrow> INT_MAX | Some n \<Rightarrow> int n)"

definition pick :: "byte set \<Rightarrow> (byte \<Rightarrow> int) \<Rightarrow> byte \<Rightarrow> int \<times> byte \<Rightarrow> int \<times> byte" where
  "pick ok f k lowest = (if k \<in> ok \<and> f k < fst lowest then (f k, k) else lowest)"

lemma pick_best:
  assumes "\<forall>k\<in>ok. f k < lim"
  shows "if ok \<inter> set ks = {} then fold (pick ok f) ks (lim, u) = (lim, u)
    else snd (fold (pick ok f) ks (lim, u)) \<in> ok \<inter> set ks \<and>
      fst (fold (pick ok f) ks (lim, u)) = f (snd (fold (pick ok f) ks (lim, u))) \<and>
      (\<forall>k\<in>ok \<inter> set ks. f (snd (fold (pick ok f) ks (lim, u))) \<le> f k)"
proof (induction ks rule: rev_induct)
  case (snoc k ks)
  obtain v j where r: "fold (pick ok f) ks (lim, u) = (v, j)" by fastforce
  show ?case
  proof (cases "k \<in> ok")
    case True
    show ?thesis
    proof (cases "ok \<inter> set ks = {}")
      case True
      with \<open>k \<in> ok\<close> snoc assms show ?thesis by (auto simp: pick_def)
    next
      case False
      with snoc r have "j \<in> ok \<inter> set ks" "v = f j" "\<forall>i\<in>ok \<inter> set ks. f j \<le> f i" by auto
      with r \<open>k \<in> ok\<close> show ?thesis by (auto simp: pick_def) (meson IntI less_imp_le less_le_trans)
    qed
  next
    case False
    then have "ok \<inter> set (ks @ [k]) = ok \<inter> set ks" "fold (pick ok f) (ks @ [k]) (lim, u) = fold (pick ok f) ks (lim, u)"
      by (auto simp: pick_def)
    with snoc show ?thesis by (simp only:)
  qed
qed simp

lemma cost_range:
  assumes "on_map gs pf"
  shows "0 \<le> cost gs pf c \<and> cost gs pf c \<le> INT_MAX"
proof (cases "steps_to_target gs pf c")
  case (Some n)
  have "card (open_cells gs pf) \<le> card (pf_arena pf)" by (intro card_mono) (auto simp: open_cells_def)
  moreover have "n < card (open_cells gs pf)"
    using bot.distance_bounded Some by (simp add: steps_to_target_def)
  ultimately show ?thesis using assms card_pf_arena [of pf] Some by (auto simp: cost_def on_map_def)
qed (simp add: cost_def INT_MAX_def)

lemma consider_move_pick:
  assumes "holds_values pf' (cell_value (set (player_cells gs)) (steps_to_target gs pf))" and "same_size pf pf'"
    and "on_map gs pf" and "allowed \<longleftrightarrow> d \<noteq> opposite k \<and> towards k c \<in> pf_arena pf" and "k \<in> set keys"
  shows "consider_move allowed (towards k c) k pf' lowest =
     Inr (pick (good_moves gs pf d c) (\<lambda>k. cost gs pf (towards k c)) k lowest)"
proof (cases allowed)
  case True
  with assms have "cell_get (towards k c) pf' = Inr (cell_value (set (player_cells gs)) (steps_to_target gs pf) (towards k c))"
    by (simp add: holds_values_def same_size_arena)
  with True assms cost_range [OF assms(3), of "towards k c"] show ?thesis
    by (auto simp: consider_move_def pick_def good_moves_def cell_value_def open_cells_def cost_def split: option.splits)
next
  case False
  with assms(4) show ?thesis by (auto simp: consider_move_def pick_def good_moves_def open_cells_def)
qed

lemma calculateNextMove_best:
  assumes "holds_values pf' (cell_value (set (player_cells gs)) (steps_to_target gs pf))" and "same_size pf pf'"
    and "on_map gs pf" and "um_at (g_players gs) cid = Some p" and "pd_segments p = c # body" and "c \<in> pf_arena pf"
  shows "\<exists>k. calculateNextMove cid gs pf' = Inr k \<and>
     (let ok = good_moves gs pf (pd_direction p) c in
      if ok = {} then k = KEY_UNKNOWN
      else k \<in> ok \<and> (\<forall>k'\<in>ok. cost gs pf (towards k c) \<le> cost gs pf (towards k' c)))"
proof -
  let ?d = "pd_direction p" and ?ok = "good_moves gs pf (pd_direction p) c"
  let ?f = "\<lambda>k. cost gs pf (towards k c)"
  obtain x y where c: "c = (x, y)" by (cases c)
  have wh: "pf_width pf' = pf_width pf" "pf_height pf' = pf_height pf" using assms(2) by (simp_all add: same_size_def)
  have moves: "(x, y - 1) = towards PLAYER_KEY_UP c" "(x, y + 1) = towards PLAYER_KEY_DOWN c"
    "(x - 1, y) = towards PLAYER_KEY_LEFT c" "(x + 1, y) = towards PLAYER_KEY_RIGHT c"
    by (simp_all add: c towards_def key_defs)
  have allowed: "(?d \<noteq> PLAYER_KEY_DOWN \<and> 1 < y) = (?d \<noteq> opposite PLAYER_KEY_UP \<and> towards PLAYER_KEY_UP c \<in> pf_arena pf)"
    "(?d \<noteq> PLAYER_KEY_UP \<and> y < pf_height pf') = (?d \<noteq> opposite PLAYER_KEY_DOWN \<and> towards PLAYER_KEY_DOWN c \<in> pf_arena pf)"
    "(?d \<noteq> PLAYER_KEY_RIGHT \<and> 1 < x) = (?d \<noteq> opposite PLAYER_KEY_LEFT \<and> towards PLAYER_KEY_LEFT c \<in> pf_arena pf)"
    "(?d \<noteq> PLAYER_KEY_LEFT \<and> x < pf_width pf') = (?d \<noteq> opposite PLAYER_KEY_RIGHT \<and> towards PLAYER_KEY_RIGHT c \<in> pf_arena pf)"
    using assms(6) by (auto simp: c wh pf_arena_def towards_def opposite_def key_defs)
  note move = consider_move_pick [OF assms(1-3), where c = c and d = ?d]
  have "calculateNextMove cid gs pf' = Inr (snd (fold (pick ?ok ?f) keys (LONG_MAX, KEY_UNKNOWN)))"
    using assms(4,5)
    by (simp add: calculateNextMove_def c Let_def moves [unfolded c] allowed [unfolded c] move [unfolded c] keys_def)
  moreover have "?f k < LONG_MAX" for k
    using cost_range [OF assms(3), of "towards k c"] by (simp add: INT_MAX_def LONG_MAX_def)
  ultimately show ?thesis
    using pick_best [of ?ok ?f LONG_MAX keys KEY_UNKNOWN] unfolding Let_def
    by (auto simp: good_moves_def split: if_splits)
qed

section \<open>Errors\<close>

lemma cell_set_outside:
  assumes "shaped_map pf" and "fst c \<notin> {0..pf_width pf} \<or> snd c \<notin> {0..pf_height pf}"
  shows "cell_set c v pf = Inl CellOutOfRange"
proof (cases "snd c \<in> {0..pf_height pf}")
  case True
  then have y: "nat (snd c) < length (dijkstraMap pf)" using assms(1) by (auto simp: shaped_map_def)
  with nth_mem [OF y] assms True show ?thesis by (auto simp: cell_set_def vector_at_def shaped_map_def)
next
  case False
  with assms(1) show ?thesis by (auto simp: cell_set_def vector_at_def shaped_map_def)
qed

lemma write_cells_outside:
  assumes "holds_values pf f" and "set cs \<subseteq> pf_arena pf" and "fst c \<notin> {0..pf_width pf} \<or> snd c \<notin> {0..pf_height pf}"
  shows "rfold (\<lambda>c. cell_set c v) (cs @ c # cs') pf = Inl CellOutOfRange"
proof -
  from write_cells [OF assms(1,2), of v] obtain pf' where
    "rfold (\<lambda>c. cell_set c v) cs pf = Inr pf'" "shaped_map pf'" "pf_width pf' = pf_width pf" "pf_height pf' = pf_height pf"
    by (auto simp: holds_values_def)
  with cell_set_outside [of pf' c v] assms(3) show ?thesis by (simp add: rfold_append)
qed

section \<open>Properties\<close>

text \<open>
  C31: The bot's map. When everything a game state shows lies in the arena, \<open>rebuildMap\<close> ends,
  throws nothing, and every cell of the arena then holds: -1 under a snake; otherwise the length
  of a shortest way, through cells without a snake, to a food or boost that no snake covers; or
  \<open>INT_MAX\<close> when there is no such way.
\<close>

theorem rebuildMap_exact:
  assumes "on_map gs pf"
  shows "\<exists>pf'. rebuildMap gs pf = Some (Inr pf') \<and> pf_width pf' = pf_width pf \<and> pf_height pf' = pf_height pf \<and>
     (\<forall>c\<in>pf_arena pf. cell_get c pf' = Inr
        (if c \<in> set (player_cells gs) then -1
         else case distance neighbours (open_cells gs pf) (targets gs pf) c of None \<Rightarrow> INT_MAX | Some n \<Rightarrow> int n))"
proof -
  from rebuildMap_total [OF assms] obtain pf' where pf': "rebuildMap gs pf = Some (Inr pf')" "same_size pf pf'"
    "holds_values pf' (cell_value (set (player_cells gs)) (steps_to_target gs pf))" by blast
  from pf'(3) have "\<forall>c\<in>pf_arena pf. cell_get c pf' = Inr (cell_value (set (player_cells gs)) (steps_to_target gs pf) c)"
    by (simp add: holds_values_def same_size_arena [OF pf'(2)])
  with pf'(1,2) show ?thesis
    unfolding cell_value_def steps_to_target_def same_size_def by blast
qed

text \<open>A small arena with a snake in the corner and a food.\<close>

definition demo_player :: PlayerData where
  "demo_player = \<lparr>pd_clientId = 3, pd_direction = PLAYER_KEY_UP, pd_name = [], pd_score = 2, pd_color = 3,
     pd_segments = [(1, 1), (1, 2)]\<rparr>"

definition demo_view :: GameState where
  "demo_view = \<lparr>g_players = [(3, demo_player)],
     g_food = [\<lparr>fd_x = 4, fd_y = 4, fd_icon = ICON_FOOD, fd_color = 1\<rparr>], g_speedBoosts = [], g_serverHighScore = ([], 0)\<rparr>"

lemma demo_view_on_map: "on_map demo_view (Pathfinder_new 5 5)"
  by (simp add: on_map_def demo_view_def demo_player_def Pathfinder_new_def food_cells_def boost_cells_def
      player_cells_def pf_arena_def INT_MAX_def)

theorem rebuildMap_exact_witness:
  "\<exists>pf'. rebuildMap demo_view (Pathfinder_new 5 5) = Some (Inr pf') \<and> cell_get (1, 2) pf' = Inr (-1)"
proof -
  have "(1, 2) \<in> pf_arena (Pathfinder_new 5 5)" "(1, 2) \<in> set (player_cells demo_view)"
    by (simp_all add: pf_arena_def Pathfinder_new_def demo_view_def demo_player_def player_cells_def)
  with rebuildMap_exact [OF demo_view_on_map] show ?thesis by auto
qed

text \<open>
  C32: The bot's move is safe and best. On the rebuilt map the bot whose head is in the arena
  answers \<open>?\<close> exactly when every way on turns back, leaves the arena or hits a snake; otherwise
  it answers one of the other moves, and none of those leads to a cell nearer to a target.
\<close>

theorem next_move_safe_and_best:
  assumes "on_map gs pf" and "um_at (g_players gs) cid = Some p" and "pd_segments p = c # body"
  shows "\<exists>pf' k. rebuildMap gs pf = Some (Inr pf') \<and> calculateNextMove cid gs pf' = Inr k \<and>
     (let ok = good_moves gs pf (pd_direction p) c in
      if ok = {} then k = KEY_UNKNOWN
      else k \<in> ok \<and> (\<forall>k'\<in>ok. cost gs pf (towards k c) \<le> cost gs pf (towards k' c)))"
proof -
  have "(cid, p) \<in> set (g_players gs)" using assms(2) by (auto simp: um_at_def dest: map_of_SomeD)
  then have "c \<in> set (player_cells gs)"
    using assms(3) by (auto simp: player_cells_def intro!: bexI [of _ "(cid, p)"])
  then have "c \<in> pf_arena pf" using assms(1) unfolding on_map_def by blast
  moreover obtain pf' where pf': "rebuildMap gs pf = Some (Inr pf')" "same_size pf pf'"
    "holds_values pf' (cell_value (set (player_cells gs)) (steps_to_target gs pf))"
    using rebuildMap_total [OF assms(1)] by blast
  ultimately obtain k where "calculateNextMove cid gs pf' = Inr k"
     "let ok = good_moves gs pf (pd_direction p) c in
      if ok = {} then k = KEY_UNKNOWN
      else k \<in> ok \<and> (\<forall>k'\<in>ok. cost gs pf (towards k c) \<le> cost gs pf (towards k' c))"
    using calculateNextMove_best [OF pf'(3,2) assms] by blast
  with pf'(1) show ?thesis by blast
qed

theorem next_move_safe_and_best_witness:
  "\<exists>pf'. rebuildMap demo_view (Pathfinder_new 5 5) = Some (Inr pf') \<and>
     calculateNextMove 3 demo_view pf' = Inr PLAYER_KEY_RIGHT"
proof -
  have ok: "good_moves demo_view (Pathfinder_new 5 5) PLAYER_KEY_UP (1, 1) = {PLAYER_KEY_RIGHT}"
    unfolding good_moves_filter
    by (simp add: keys_def opposite_def towards_def open_cells_def pf_arena_def Pathfinder_new_def
        demo_view_def demo_player_def player_cells_def key_defs)
  have "um_at (g_players demo_view) 3 = Some demo_player" "pd_segments demo_player = (1, 1) # [(1, 2)]"
    "pd_direction demo_player = PLAYER_KEY_UP"
    by (simp_all add: demo_view_def demo_player_def um_at_def)
  with next_move_safe_and_best [OF demo_view_on_map this(1,2)] ok show ?thesis
    by (auto simp: Let_def)
qed

text \<open>
  Food outside the map crashes the bot. If the first food that is not in the arena lies
  beyond the map as well, \<open>rebuildMap\<close> throws \<open>out_of_range\<close>.
\<close>

theorem food_off_the_map_throws:
  assumes "0 \<le> pf_width pf" and "0 \<le> pf_height pf" and "food_cells gs = cs @ c # cs'" and "set cs \<subseteq> pf_arena pf"
    and "fst c \<notin> {0..pf_width pf} \<or> snd c \<notin> {0..pf_height pf}"
  shows "rebuildMap gs pf = Some (Inl CellOutOfRange)"
proof -
  let ?pf = "pf\<lparr>dijkstraMap := replicate (nat (pf_height pf + 1)) (replicate (nat (pf_width pf + 1)) INT_MAX)\<rparr>"
  have "rfold (\<lambda>c. cell_set c 0) (food_cells gs) ?pf = Inl CellOutOfRange"
    unfolding assms(3) by (rule write_cells_outside [OF blank_map [OF assms(1,2)]])
      (use assms(4,5) in \<open>simp_all add: pf_arena_def\<close>)
  then have "populateFoodAndPlayers gs ?pf = Inl CellOutOfRange"
    by (simp only: populateFoodAndPlayers_def rbind_Inl)
  then show ?thesis by (simp only: rebuildMap_def Let_def sum.case)
qed

theorem food_off_the_map_throws_witness: "rebuildMap demo_view (Pathfinder_new 3 3) = Some (Inl CellOutOfRange)"
  by (rule food_off_the_map_throws [where cs = "[]" and c = "(4, 4)" and cs' = "[]"])
    (simp_all add: Pathfinder_new_def demo_view_def food_cells_def)

end
