(* ===== verification/SnakeBot_Laws.thy ===== *)
theory SnakeBot_Laws
  imports SnakeBot Pathfinder_Laws
begin

text \<open>
  What the bot guarantees: it implements the contract of the shared message loop, its passes
  return and throw nothing on what the server sends, and to every game state with its snake it
  answers with a best safe move.
\<close>

section \<open>The message loop\<close>

definition notice :: "SnakeBot \<Rightarrow> SnakeBot" where
  "notice b = b\<lparr>gameStateHasChanged := True\<rparr>"

interpretation bot_client: game_client bot_message bot_handleServerWelcome notice
proof unfold_locales
  fix bs :: bytes and m :: MessageVariant and l :: "GameStateMsg option" and b :: SnakeBot
  assume "deserialise bs = Inr m" "variant_type m \<noteq> SERVER_WELCOME" "variant_type m \<noteq> GAME_STATE"
  with wf_msg_type [of m] deserialise_Inr [of bs m] show "bot_message bs (l, b) = Inl UnexpectedMessage"
    by (simp add: bot_message_def split: MessageType.splits)
next
  fix bs :: bytes and w and l :: "GameStateMsg option" and b :: SnakeBot
  assume "deserialise bs = Inr (VServerWelcome w)"
  with wf_msg_type [of "VServerWelcome w"] deserialise_Inr [of bs "VServerWelcome w"]
  show "bot_message bs (l, b) = Inr (l, bot_handleServerWelcome w b)"
    by (simp add: bot_message_def)
next
  fix bs :: bytes and g and l :: "GameStateMsg option" and b :: SnakeBot
  assume "deserialise bs = Inr (VGameState g)"
  with wf_msg_type [of "VGameState g"] deserialise_Inr [of bs "VGameState g"]
  show "bot_message bs (l, b) = Inr (Some g, notice b)"
    by (simp add: bot_message_def notice_def)
qed (simp add: bot_message_def)

lemma bot_sel:
  "b_clientId (bot_handleServerWelcome w b) = sint (clientId (sw_hdr w))" "\<not> awaitingJoin (bot_handleServerWelcome w b)"
  "(bot_handleServerWelcome w b)\<lparr>awaitingJoin := x, b_clientId := i, gameStateHasChanged := y\<rparr> =
     b\<lparr>awaitingJoin := x, b_clientId := i, gameStateHasChanged := y\<rparr>"
  "gameStateHasChanged (bot_handleServerWelcome w b) = gameStateHasChanged b"
  "b_clientId (notice b) = b_clientId b" "awaitingJoin (notice b) = awaitingJoin b" "gameStateHasChanged (notice b)"
  "(notice b)\<lparr>awaitingJoin := x, b_clientId := i, gameStateHasChanged := y\<rparr> =
     b\<lparr>awaitingJoin := x, b_clientId := i, gameStateHasChanged := y\<rparr>"
  by (simp_all add: bot_handleServerWelcome_def notice_def)

lemma bot_react:
  assumes "\<forall>m\<in>set ms. for_clients m"
  shows "bot_client.react ms b = b
     \<lparr>awaitingJoin := awaitingJoin b \<and> (\<forall>m\<in>set ms. variant_type m \<noteq> SERVER_WELCOME),
      b_clientId := fst (greeted ms (b_clientId b, False)),
      gameStateHasChanged := gameStateHasChanged b \<or> latest_state None ms \<noteq> None\<rparr>"
  using assms
proof (induction ms arbitrary: b)
  case (Cons m ms)
  have "latest_state None (m # ms) \<noteq> None \<longleftrightarrow> variant_type m = GAME_STATE \<or> latest_state None ms \<noteq> None"
    using latest_state_None [of "m # ms"] latest_state_None [of ms] by auto
  with Cons show ?case
    by (cases m) (auto simp: bot_sel for_clients_def fst_greeted)
qed simp

section \<open>The invariant of the bot\<close>

text \<open>The map is the one of the game state the bot shows, unless it has not seen any.\<close>

definition map_current :: "SnakeBot \<Rightarrow> bool" where
  "map_current b \<longleftrightarrow>
     (let gs = b_gameState b; pf = pathfinder b in
      on_map gs pf \<and> (\<forall>(i, p)\<in>set (g_players gs). pd_segments p \<noteq> []) \<and>
      holds_values pf (cell_value (set (player_cells gs)) (steps_to_target gs pf)))"

definition bot_inv :: "SnakeBot \<Rightarrow> bool" where
  "bot_inv b \<longleftrightarrow> 0 \<le> pf_width (pathfinder b) \<and> 0 \<le> pf_height (pathfinder b) \<and>
     pf_width (pathfinder b) * pf_height (pathfinder b) < INT_MAX \<and>
     (b_gameState b = GameState_new \<or> map_current b) \<and>
     (\<forall>f\<in>set (nc_sent (b_network b)). honest_frame f)"

text \<open>A game state message all of whose objects lie in the bot's arena.\<close>

definition cells_of_message :: "GameStateMsg \<Rightarrow> cell list" where
  "cells_of_message g = map (\<lambda>f. (sint (gf_x f), sint (gf_y f))) (gs_food g @ gs_speedBoosts g) @
     concat (map (\<lambda>p. map (\<lambda>(a, b). (sint a, sint b)) (gp_segments p)) (gs_players g))"

definition in_bot_arena :: "Pathfinder \<Rightarrow> MessageVariant \<Rightarrow> bool" where
  "in_bot_arena pf m \<longleftrightarrow> (case m of VGameState g \<Rightarrow> set (cells_of_message g) \<subseteq> pf_arena pf | _ \<Rightarrow> True)"

lemma fromProtocol_on_map:
  assumes "names_end g" and "fromProtocol ord g = Inr gs" and "set (cells_of_message g) \<subseteq> pf_arena pf"
    and "0 \<le> pf_width pf" and "0 \<le> pf_height pf" and "pf_width pf * pf_height pf < INT_MAX"
  shows "on_map gs pf"
proof -
  from fromProtocol_total [OF assms(1), of ord] assms(2) have
    "food_cells gs = map (\<lambda>f. (sint (gf_x f), sint (gf_y f))) (gs_food g)"
    "boost_cells gs = map (\<lambda>f. (sint (gf_x f), sint (gf_y f))) (gs_speedBoosts g)"
    by (auto simp: food_cells_def boost_cells_def o_def)
  then have "set (food_cells gs) \<subseteq> set (cells_of_message g)" "set (boost_cells gs) \<subseteq> set (cells_of_message g)"
    by (auto simp: cells_of_message_def)
  moreover have "set (player_cells gs) \<subseteq> set (cells_of_message g)"
    using fromProtocol_entry [OF assms(1,2)] by (fastforce simp: player_cells_def cells_of_message_def data_of_def)
  ultimately show ?thesis using assms(3-6) unfolding on_map_def by blast
qed

lemma buildArenaMap_total:
  assumes "on_map (b_gameState b) (pathfinder b)" and "\<forall>(i, p)\<in>set (g_players (b_gameState b)). pd_segments p \<noteq> []"
  shows "\<exists>pf. buildArenaMap b = Some (Inr (b\<lparr>pathfinder := pf\<rparr>)) \<and> same_size (pathfinder b) pf \<and>
     map_current (b\<lparr>pathfinder := pf\<rparr>)"
proof -
  let ?gs = "b_gameState b"
  from rebuildMap_total [OF assms(1)] obtain pf where
    pf: "rebuildMap ?gs (pathfinder b) = Some (Inr pf)" "same_size (pathfinder b) pf"
      "holds_values pf (cell_value (set (player_cells ?gs)) (steps_to_target ?gs (pathfinder b)))" by blast
  have "on_map ?gs pf" "steps_to_target ?gs pf = steps_to_target ?gs (pathfinder b)"
    using assms(1) pf(2) same_size_arena [OF pf(2)]
    by (simp_all add: on_map_def same_size_def steps_to_target_def targets_def open_cells_def)
  with pf assms(2) show ?thesis
    by (intro exI [of _ pf]) (simp add: buildArenaMap_def map_current_def Let_def)
qed

section \<open>A pass of the bot\<close>

lemma bot_invD:
  assumes "bot_inv b"
  shows "0 \<le> pf_width (pathfinder b)" "0 \<le> pf_height (pathfinder b)"
    "pf_width (pathfinder b) * pf_height (pathfinder b) < INT_MAX"
    "b_gameState b = GameState_new \<or> map_current b" "\<forall>f\<in>set (nc_sent (b_network b)). honest_frame f"
  using assms by (simp_all add: bot_inv_def)

lemma bot_inv_same:
  assumes "bot_inv b" and "pathfinder b' = pathfinder b" and "b_gameState b' = b_gameState b"
    and "nc_sent (b_network b') = nc_sent (b_network b)"
  shows "bot_inv b'"
  using assms by (simp add: bot_inv_def map_current_def)

lemma bot_inv_send:
  assumes "bot_inv b" and "honest m"
  shows "bot_inv (b\<lparr>b_network := (b_network b)\<lparr>nc_sent := nc_sent (b_network b) @ [make_frame (encode m)]\<rparr>\<rparr>)"
  using assms by (auto simp: bot_inv_def map_current_def honest_frame_def)

lemma serialise_honest: "honest m \<Longrightarrow> lift_frame (serialise m) = Inr (encode m)"
  by (simp add: honest_def wf_msg_def serialise_eq)

lemma sendToServer_total:
  "\<forall>frame. snd_res frame = int (length frame) \<Longrightarrow>
     sendToServer snd_res bs net = Inr (net\<lparr>nc_sent := nc_sent net @ [make_frame bs]\<rparr>)"
  by (simp add: sendToServer_def)

lemma honest_bot_join:
  "honest (VClientJoin \<lparr>cj_hdr = header_of CLIENT_JOIN i, cj_username = bot_username\<rparr>)"
  by (simp add: honest_def wf_msg_def header_of_def bot_username_def)

lemma honest_bot_input: "honest (VClientInput \<lparr>ci_hdr = header_of CLIENT_INPUT i, ci_input = k\<rparr>)"
  by (simp add: honest_def wf_msg_def header_of_def)

lemma createBot_total:
  assumes "\<forall>frame. snd_res frame = int (length frame)"
  shows "createBot snd_res b = Inr (b\<lparr>b_network := (b_network b)\<lparr>nc_sent := nc_sent (b_network b) @
     [make_frame (encode (VClientJoin \<lparr>cj_hdr = header_of CLIENT_JOIN (word_of_int (b_clientId b)),
        cj_username = bot_username\<rparr>))]\<rparr>, awaitingJoin := True\<rparr>)"
  by (simp add: createBot_def bot_joinGame_def serialise_honest [OF honest_bot_join] sendToServer_total [OF assms]
      del: serialise.simps)

lemma bot_receiveUpdates_total:
  assumes "bot_inv b" and "receiveFromServer r (b_network b) = Inr (map encode ms, net)"
    and "\<forall>m\<in>set ms. good_message m \<and> in_bot_arena (pathfinder b) m"
  shows "\<exists>b'. bot_receiveUpdates ord r b = Some (Inr b') \<and> bot_inv b' \<and> same_size (pathfinder b) (pathfinder b') \<and>
     b_clientId b' = fst (session ms (b_clientId b, False)) \<and>
     nc_sent (b_network b') = nc_sent (b_network b) \<and>
     gameStateHasChanged b' = (gameStateHasChanged b \<or> latest_state None ms \<noteq> None) \<and>
     awaitingJoin b' = (awaitingJoin b \<and> (\<forall>m\<in>set ms. variant_type m \<noteq> SERVER_WELCOME)) \<and>
     (case latest_state None ms of None \<Rightarrow> b_gameState b' = b_gameState b
      | Some g \<Rightarrow> fromProtocol ord g = Inr (b_gameState b') \<and> map_current b')"
proof -
  let ?i = "fst (greeted ms (b_clientId b, False))"
  obtain c where c: "c = b\<lparr>b_network := net, awaitingJoin := awaitingJoin b \<and> (\<forall>m\<in>set ms. variant_type m \<noteq> SERVER_WELCOME),
     b_clientId := ?i, gameStateHasChanged := gameStateHasChanged b \<or> latest_state None ms \<noteq> None\<rparr>" by blast
  have "\<forall>m\<in>set ms. for_clients m" using assms(3) by (simp add: good_message_def)
  then have loop: "rfold bot_message (map encode ms) (None, b\<lparr>b_network := net\<rparr>) = Inr (latest_state None ms, c)"
    using bot_client.batch [of ms None "b\<lparr>b_network := net\<rparr>"] bot_react [of ms "b\<lparr>b_network := net\<rparr>"] c by simp
  have sent: "nc_sent net = nc_sent (b_network b)" by (rule receiveFromServer_sent(2) [OF assms(2)])
  have inv: "bot_inv c" by (rule bot_inv_same [OF assms(1)]) (simp_all add: sent c)
  show ?thesis
  proof (cases "latest_state None ms")
    case None
    with loop assms(2) inv sent show ?thesis by (simp add: bot_receiveUpdates_def session_def c)
  next
    case (Some g)
    let ?P = "\<lambda>h. names_end h \<and> (\<forall>p\<in>set (gs_players h). gp_segments p \<noteq> []) \<and> set (cells_of_message h) \<subseteq> pf_arena (pathfinder b)"
    have "?P h" if "VGameState h \<in> set ms" for h
      using bspec [OF assms(3) that] by (simp add: good_message_def in_bot_arena_def)
    then have "\<forall>m\<in>set ms. \<forall>h. m = VGameState h \<longrightarrow> ?P h" by blast
    with latest_state_good [OF Some, of ?P] have g: "names_end g" "\<forall>p\<in>set (gs_players g). gp_segments p \<noteq> []"
      "set (cells_of_message g) \<subseteq> pf_arena (pathfinder b)" by auto
    from fromProtocol_total [OF g(1)] obtain gs where gs: "fromProtocol ord g = Inr gs" by blast
    let ?b1 = "c\<lparr>b_gameState := gs\<rparr>"
    let ?b2 = "?b1\<lparr>b_clientId := fst (session ms (b_clientId b, False))\<rparr>"
    have died: "(if b_clientId ?b1 \<noteq> -1 \<and> \<not> um_contains (g_players gs) (b_clientId ?b1)
        then ?b1\<lparr>b_clientId := -1\<rparr> else ?b1) = ?b2"
      using Some fromProtocol_keys [OF g(1) gs] c by (simp add: session_def um_contains_iff)
    have "on_map gs (pathfinder b)" by (rule fromProtocol_on_map [OF g(1) gs g(3) bot_invD(1-3) [OF assms(1)]])
    moreover have "\<forall>(i, p)\<in>set (g_players gs). pd_segments p \<noteq> []"
      using g(2) fromProtocol_entry [OF g(1) gs] by (fastforce simp: data_of_def)
    ultimately obtain pf where pf: "buildArenaMap ?b2 = Some (Inr (?b2\<lparr>pathfinder := pf\<rparr>))"
      "same_size (pathfinder b) pf" "map_current (?b2\<lparr>pathfinder := pf\<rparr>)"
      using buildArenaMap_total [of ?b2] by (auto simp: c)
    let ?b3 = "?b2\<lparr>pathfinder := pf\<rparr>"
    have run: "bot_receiveUpdates ord r b = Some (Inr ?b3)"
      using loop assms(2) Some gs pf(1)
      by (simp only: bot_receiveUpdates_def bot_handleGameStateMessage_def Let_def rbind_Inr prod.case
          sum.case option.case died)
    have "bot_inv ?b3"
      using pf(2,3) bot_invD [OF assms(1)] sent unfolding bot_inv_def by (simp add: same_size_def c)
    then show ?thesis
      using run pf(2,3) sent gs Some by (intro exI [of _ ?b3]) (simp add: c)
  qed
qed

lemma sendInput_best:
  assumes "bot_inv b" and "\<forall>frame. snd_res frame = int (length frame)" and "map_current b"
    and "um_at (g_players (b_gameState b)) (b_clientId b) = Some p"
  shows "\<exists>k c body. pd_segments p = c # body \<and>
     sendInput snd_res b = Inr (b\<lparr>b_network := (b_network b)\<lparr>nc_sent := nc_sent (b_network b) @ [make_frame (encode
       (VClientInput \<lparr>ci_hdr = header_of CLIENT_INPUT (word_of_int (b_clientId b)), ci_input = k\<rparr>))]\<rparr>\<rparr>) \<and>
     (let ok = good_moves (b_gameState b) (pathfinder b) (pd_direction p) c in
      if ok = {} then k = KEY_UNKNOWN
      else k \<in> ok \<and> (\<forall>k'\<in>ok. cost (b_gameState b) (pathfinder b) (towards k c) \<le> cost (b_gameState b) (pathfinder b) (towards k' c)))"
proof -
  have mem: "(b_clientId b, p) \<in> set (g_players (b_gameState b))"
    using assms(4) by (auto simp: um_at_def dest: map_of_SomeD)
  with assms(3) obtain c body where c: "pd_segments p = c # body"
    by (cases "pd_segments p") (auto simp: map_current_def Let_def)
  with mem have "c \<in> set (player_cells (b_gameState b))" by (force simp: player_cells_def)
  with assms(3) have arena: "c \<in> pf_arena (pathfinder b)" "on_map (b_gameState b) (pathfinder b)"
    "holds_values (pathfinder b) (cell_value (set (player_cells (b_gameState b))) (steps_to_target (b_gameState b) (pathfinder b)))"
    by (auto simp: map_current_def on_map_def Let_def)
  from calculateNextMove_best [OF arena(3) same_size_refl arena(2) assms(4) c arena(1)] obtain k where
    k: "calculateNextMove (b_clientId b) (b_gameState b) (pathfinder b) = Inr k"
    "let ok = good_moves (b_gameState b) (pathfinder b) (pd_direction p) c in
      if ok = {} then k = KEY_UNKNOWN
      else k \<in> ok \<and> (\<forall>k'\<in>ok. cost (b_gameState b) (pathfinder b) (towards k c) \<le> cost (b_gameState b) (pathfinder b) (towards k' c))"
    by blast
  have "um_contains (g_players (b_gameState b)) (b_clientId b)" using assms(4) by (simp add: um_contains_def)
  then have "sendInput snd_res b = Inr (b\<lparr>b_network := (b_network b)\<lparr>nc_sent := nc_sent (b_network b) @ [make_frame (encode
       (VClientInput \<lparr>ci_hdr = header_of CLIENT_INPUT (word_of_int (b_clientId b)), ci_input = k\<rparr>))]\<rparr>\<rparr>)"
    by (simp add: sendInput_def calculatePathingMove_def k(1) serialise_honest [OF honest_bot_input]
        sendToServer_total [OF assms(2)] del: serialise.simps)
  with c k(2) show ?thesis by blast
qed

text \<open>
  What the bot sends in answer to the game state it shows, after \<open>fs\<close> and up to \<open>fs'\<close>: if it has an
  id, the state has changed since its last answer and has its snake, exactly one input message
  with its id and a best safe move, and otherwise nothing.
\<close>

definition answers :: "SnakeBot \<Rightarrow> bool \<Rightarrow> bytes list \<Rightarrow> bytes list \<Rightarrow> bool" where
  "answers b changed fs fs' \<longleftrightarrow>
     (case um_at (g_players (b_gameState b)) (b_clientId b) of
        Some p \<Rightarrow>
          if b_clientId b \<noteq> -1 \<and> changed then
            \<exists>k c body. pd_segments p = c # body \<and>
              fs' = fs @ [make_frame (encode (VClientInput
                \<lparr>ci_hdr = header_of CLIENT_INPUT (word_of_int (b_clientId b)), ci_input = k\<rparr>))] \<and>
              (let ok = good_moves (b_gameState b) (pathfinder b) (pd_direction p) c in
               if ok = {} then k = KEY_UNKNOWN
               else k \<in> ok \<and> (\<forall>k'\<in>ok. cost (b_gameState b) (pathfinder b) (towards k c)
                                     \<le> cost (b_gameState b) (pathfinder b) (towards k' c)))
          else fs' = fs
      | None \<Rightarrow> fs' = fs)"

lemma bot_answer_total:
  assumes "bot_inv b" and "\<forall>frame. snd_res frame = int (length frame)"
  shows "\<exists>b'. bot_answer snd_res b = Inr b' \<and> bot_inv b' \<and> b_clientId b' = b_clientId b \<and>
     b_gameState b' = b_gameState b \<and> pathfinder b' = pathfinder b \<and>
     answers b (gameStateHasChanged b) (nc_sent (b_network b)) (nc_sent (b_network b'))"
proof (cases "b_clientId b \<noteq> -1 \<and> gameStateHasChanged b \<and> um_contains (g_players (b_gameState b)) (b_clientId b)")
  case True
  then obtain p where p: "um_at (g_players (b_gameState b)) (b_clientId b) = Some p" by (auto simp: um_contains_def)
  then have "map_current b" using bot_invD(4) [OF assms(1)] by (auto simp: GameState_new_def)
  from sendInput_best [OF assms this p] obtain k c body where
    k: "pd_segments p = c # body" "sendInput snd_res b = Inr (b\<lparr>b_network := (b_network b)\<lparr>nc_sent := nc_sent (b_network b) @ [make_frame (encode
       (VClientInput \<lparr>ci_hdr = header_of CLIENT_INPUT (word_of_int (b_clientId b)), ci_input = k\<rparr>))]\<rparr>\<rparr>)"
     "let ok = good_moves (b_gameState b) (pathfinder b) (pd_direction p) c in
      if ok = {} then k = KEY_UNKNOWN
      else k \<in> ok \<and> (\<forall>k'\<in>ok. cost (b_gameState b) (pathfinder b) (towards k c) \<le> cost (b_gameState b) (pathfinder b) (towards k' c))"
    by blast
  let ?b = "b\<lparr>b_network := (b_network b)\<lparr>nc_sent := nc_sent (b_network b) @ [make_frame (encode
       (VClientInput \<lparr>ci_hdr = header_of CLIENT_INPUT (word_of_int (b_clientId b)), ci_input = k\<rparr>))]\<rparr>,
       gameStateHasChanged := False\<rparr>"
  have "bot_answer snd_res b = Inr ?b" using True k(2) by (simp add: bot_answer_def)
  moreover have "bot_inv ?b"
    by (rule bot_inv_same [OF bot_inv_send [OF assms(1) honest_bot_input]]) simp_all
  moreover have "answers b (gameStateHasChanged b) (nc_sent (b_network b)) (nc_sent (b_network ?b))"
    using True k(1,3) unfolding answers_def p
    by (simp only: option.case if_True simp_thms) (intro exI [of _ k] exI [of _ c] exI [of _ body], simp)
  ultimately show ?thesis by (intro exI [of _ ?b]) simp
next
  case False
  have "\<exists>x. bot_answer snd_res b = Inr (b\<lparr>gameStateHasChanged := x\<rparr>)"
  proof (cases "b_clientId b = -1")
    case True
    then show ?thesis by (intro exI [of _ "gameStateHasChanged b"]) (simp add: bot_answer_def)
  next
    case id: False
    with False have "(if gameStateHasChanged b then sendInput snd_res b else Inr b) = Inr b"
      by (simp add: sendInput_def)
    with id show ?thesis by (intro exI [of _ False]) (simp add: bot_answer_def)
  qed
  then obtain x where "bot_answer snd_res b = Inr (b\<lparr>gameStateHasChanged := x\<rparr>)" by blast
  moreover have "bot_inv (b\<lparr>gameStateHasChanged := x\<rparr>)" by (rule bot_inv_same [OF assms(1)]) simp_all
  moreover have "answers b (gameStateHasChanged b) fs fs" for fs
    using False by (auto simp: answers_def um_contains_def split: option.split)
  ultimately show ?thesis by auto
qed

text \<open>What the bot sends first: a join message, if it has no id and is not waiting for one.\<close>

definition join_frames :: "SnakeBot \<Rightarrow> bytes list" where
  "join_frames b =
     (if b_clientId b = -1 \<and> \<not> awaitingJoin b
      then [make_frame (encode (VClientJoin
              \<lparr>cj_hdr = header_of CLIENT_JOIN (word_of_int (b_clientId b)), cj_username = bot_username\<rparr>))]
      else [])"

lemma bot_join_total:
  assumes "bot_inv b" and "\<forall>frame. snd_res frame = int (length frame)"
  shows "\<exists>b1. (if b_clientId b = -1 \<and> \<not> awaitingJoin b then createBot snd_res b else Inr b) = Inr b1 \<and>
    bot_inv b1 \<and> b_clientId b1 = b_clientId b \<and> b_gameState b1 = b_gameState b \<and> pathfinder b1 = pathfinder b \<and>
    gameStateHasChanged b1 = gameStateHasChanged b \<and>
    b_network b1 = (b_network b)\<lparr>nc_sent := nc_sent (b_network b) @ join_frames b\<rparr>"
proof (cases "b_clientId b = -1 \<and> \<not> awaitingJoin b")
  case True
  let ?m = "VClientJoin \<lparr>cj_hdr = header_of CLIENT_JOIN (word_of_int (b_clientId b)), cj_username = bot_username\<rparr>"
  let ?c = "b\<lparr>b_network := (b_network b)\<lparr>nc_sent := nc_sent (b_network b) @ [make_frame (encode ?m)]\<rparr>, awaitingJoin := True\<rparr>"
  have "bot_inv ?c" by (rule bot_inv_same [OF bot_inv_send [OF assms(1) honest_bot_join]]) simp_all
  moreover have "(if b_clientId b = -1 \<and> \<not> awaitingJoin b then createBot snd_res b else Inr b) = Inr ?c"
    using True createBot_total [OF assms(2), of b] by simp
  ultimately show ?thesis using True by (intro exI [of _ ?c]) (simp add: join_frames_def)
next
  case False
  then have "join_frames b = []" by (auto simp: join_frames_def)
  with False assms(1) show ?thesis by (intro exI [of _ b]) auto
qed

lemma bot_pass_total:
  assumes "bot_inv b" and "\<forall>frame. bi_send inp frame = int (length frame)"
    and "receiveFromServer (bi_recv inp) (b_network b) = Inr (map encode ms, net)"
    and "\<forall>m\<in>set ms. good_message m \<and> in_bot_arena (pathfinder b) m"
  shows "\<exists>b'. bot_pass ord inp b = Some (Inr b') \<and> bot_inv b' \<and> same_size (pathfinder b) (pathfinder b') \<and>
     b_clientId b' = fst (session ms (b_clientId b, False)) \<and>
     (case latest_state None ms of None \<Rightarrow> b_gameState b' = b_gameState b
      | Some g \<Rightarrow> fromProtocol ord g = Inr (b_gameState b')) \<and>
     answers b' (gameStateHasChanged b \<or> latest_state None ms \<noteq> None)
       (nc_sent (b_network b) @ join_frames b) (nc_sent (b_network b'))"
proof -
  let ?b = "b\<lparr>b_timer := Timer_tick (bi_clock inp) (b_timer b)\<rparr>"
  have inv: "bot_inv ?b" by (rule bot_inv_same [OF assms(1)]) simp_all
  have "join_frames ?b = join_frames b" by (simp add: join_frames_def)
  with bot_join_total [OF inv assms(2)] obtain b1 where
    b1: "(if b_clientId ?b = -1 \<and> \<not> awaitingJoin ?b then createBot (bi_send inp) ?b else Inr ?b) = Inr b1"
    "bot_inv b1" "b_clientId b1 = b_clientId b" "b_gameState b1 = b_gameState b" "pathfinder b1 = pathfinder b"
    "gameStateHasChanged b1 = gameStateHasChanged b"
    "b_network b1 = (b_network b)\<lparr>nc_sent := nc_sent (b_network b) @ join_frames b\<rparr>"
    by auto
  have "\<exists>net'. receiveFromServer (bi_recv inp) (b_network b1) = Inr (map encode ms, net')"
    using receiveFromServer_sent(1) [OF assms(3)] b1(7) by auto
  then obtain net' where rec: "receiveFromServer (bi_recv inp) (b_network b1) = Inr (map encode ms, net')" by blast
  have "\<forall>m\<in>set ms. good_message m \<and> in_bot_arena (pathfinder b1) m" using assms(4) b1(5) by simp
  from bot_receiveUpdates_total [OF b1(2) rec this, of ord] obtain b2 where
    b2: "bot_receiveUpdates ord (bi_recv inp) b1 = Some (Inr b2)" "bot_inv b2" "same_size (pathfinder b) (pathfinder b2)"
      "b_clientId b2 = fst (session ms (b_clientId b, False))"
      "gameStateHasChanged b2 = (gameStateHasChanged b \<or> latest_state None ms \<noteq> None)"
      "case latest_state None ms of None \<Rightarrow> b_gameState b2 = b_gameState b
        | Some g \<Rightarrow> fromProtocol ord g = Inr (b_gameState b2) \<and> map_current b2"
      "nc_sent (b_network b2) = nc_sent (b_network b) @ join_frames b"
    unfolding b1(3-7) by auto
  from bot_answer_total [OF b2(2) assms(2)] obtain b3 where
    b3: "bot_answer (bi_send inp) b2 = Inr b3" "bot_inv b3" "b_clientId b3 = b_clientId b2"
      "b_gameState b3 = b_gameState b2" "pathfinder b3 = pathfinder b2"
      "answers b2 (gameStateHasChanged b2) (nc_sent (b_network b2)) (nc_sent (b_network b3))"
    by blast
  have "bot_pass ord inp b = Some (Inr b3)" using b1(1) b2(1) b3(1) by (simp add: bot_pass_def Let_def)
  moreover have "case latest_state None ms of None \<Rightarrow> b_gameState b3 = b_gameState b
      | Some g \<Rightarrow> fromProtocol ord g = Inr (b_gameState b3)"
    using b2(6) b3(4) by (simp split: option.splits)
  moreover have "answers b2 = answers b3"
    by (simp only: answers_def [abs_def] b3(3-5))
  ultimately show ?thesis
    using b2(3-5,7) b3 by (intro exI [of _ b3]) simp
qed

section \<open>Properties\<close>

text \<open>
  C33: A pass of the bot returns and answers. If sends go through and the server's bytes parse
  into welcomes and game states whose objects lie in the bot's arena, the pass returns, throws
  nothing and keeps the invariant: the distance map belongs to the game state shown, and all the
  bot has ever sent are well-formed join and input messages. Its id follows the messages. What it
  sends in the pass is exactly this: first a join message, if it started without an id and was not
  waiting for one; then, if it now has an id, a state came (or none was answered before) and has
  its snake, one input message with its id and a best of the moves that neither turn back nor
  leave the arena nor hit a snake (\<open>?\<close> if there is none); and nothing else.
\<close>

theorem bot_pass_answers:
  assumes "bot_inv b" and "\<forall>frame. bi_send inp frame = int (length frame)"
    and "receiveFromServer (bi_recv inp) (b_network b) = Inr (map encode ms, net)"
    and "\<forall>m\<in>set ms. good_message m \<and> in_bot_arena (pathfinder b) m"
  shows "\<exists>b'. bot_pass ord inp b = Some (Inr b') \<and> bot_inv b' \<and> same_size (pathfinder b) (pathfinder b') \<and>
     b_clientId b' = fst (session ms (b_clientId b, False)) \<and>
     (case latest_state None ms of None \<Rightarrow> b_gameState b' = b_gameState b
      | Some g \<Rightarrow> fromProtocol ord g = Inr (b_gameState b')) \<and>
     answers b' (gameStateHasChanged b \<or> latest_state None ms \<noteq> None)
       (nc_sent (b_network b) @ join_frames b) (nc_sent (b_network b'))"
  by (rule bot_pass_total [OF assms])

text \<open>A bot that has joined reads its welcome and a state in which it has a snake of two cells.\<close>

definition bot_state :: GameStateMsg where
  "bot_state = \<lparr>gs_hdr = header_of GAME_STATE (-1), gs_highScore = 0, gs_highScoreUsername = replicate 16 0,
     gs_food = [\<lparr>gf_color = 1, gf_icon = ICON_FOOD, gf_x = 4, gf_y = 4\<rparr>], gs_speedBoosts = [],
     gs_players = [\<lparr>gp_clientId = 3, gp_color = 3, gp_direction = PLAYER_KEY_UP, gp_score = 2,
       gp_username = bot_username, gp_segments = [(1, 1), (1, 2)]\<rparr>]\<rparr>"

definition bot_messages :: "MessageVariant list" where
  "bot_messages = [VServerWelcome \<lparr>sw_hdr = header_of SERVER_WELCOME 3\<rparr>, VGameState bot_state]"

definition demo_bot :: SnakeBot where
  "demo_bot = SnakeBot_new 40 40 (Timer_new 5 5) (NetworkClient_new 4)"

definition demo_bot_input :: bot_input where
  "demo_bot_input = \<lparr>bi_clock = 6, bi_recv = RecvBytes (concat (map (make_frame \<circ> encode) bot_messages)),
     bi_send = \<lambda>f. int (length f)\<rparr>"

lemma demo_bot_ok:
  "bot_inv demo_bot" "\<forall>frame. bi_send demo_bot_input frame = int (length frame)"
  "receiveFromServer (bi_recv demo_bot_input) (b_network demo_bot) = Inr (map encode bot_messages, NetworkClient_new 4)"
  "\<forall>m\<in>set bot_messages. good_message m \<and> in_bot_arena (pathfinder demo_bot) m"
proof -
  have "\<forall>m\<in>set bot_messages. length (encode m) \<le> CLIENT_RECV_MAX_MESSAGE_SIZE"
    by (simp add: bot_messages_def bot_state_def encode_def encode_game_state_def encode_counted_def
        encode_player_def bot_username_def CLIENT_RECV_MAX_MESSAGE_SIZE_def)
  then show "receiveFromServer (bi_recv demo_bot_input) (b_network demo_bot) = Inr (map encode bot_messages, NetworkClient_new 4)"
    using receive_frames [of "NetworkClient_new 4" bot_messages]
    by (simp add: demo_bot_input_def demo_bot_def SnakeBot_new_def NetworkClient_new_def)
  show "\<forall>m\<in>set bot_messages. good_message m \<and> in_bot_arena (pathfinder demo_bot) m"
    by (simp add: bot_messages_def good_message_def for_clients_def wf_msg_def header_of_def bot_state_def
        game_state_ok_def player_ok_def list_fits_def names_end_def bot_username_def in_bot_arena_def
        cells_of_message_def pf_arena_def demo_bot_def SnakeBot_new_def Pathfinder_new_def)
qed (simp_all add: bot_inv_def demo_bot_def SnakeBot_new_def Pathfinder_new_def NetworkClient_new_def INT_MAX_def
    demo_bot_input_def)

theorem bot_pass_answers_witness:
  "\<exists>b'. bot_pass newest_first demo_bot_input demo_bot = Some (Inr b') \<and> b_clientId b' = 3 \<and> bot_inv b' \<and>
     length (nc_sent (b_network b')) = 2"
proof -
  have id: "fst (session bot_messages (b_clientId demo_bot, False)) = 3"
    and state: "latest_state None bot_messages = Some bot_state"
    by (simp_all add: session_def bot_messages_def bot_state_def header_of_def)
  have shown: "um_at (g_players gs) 3 \<noteq> None" if "fromProtocol newest_first bot_state = Inr gs" for gs
  proof -
    have "names_end bot_state" by (simp add: names_end_def bot_state_def bot_username_def)
    from fromProtocol_keys [OF this that] have "3 \<in> set (um_keys (g_players gs))" by (simp add: bot_state_def)
    then show ?thesis by (simp add: um_contains_iff [symmetric] um_contains_def)
  qed
  have one: "length fs' = length fs + 1"
    if "answers b' True fs fs'" "b_clientId b' = 3" "um_at (g_players (b_gameState b')) 3 \<noteq> None" for b' fs fs'
    using that by (auto simp: answers_def)
  have start: "nc_sent (b_network demo_bot) = []" "length (join_frames demo_bot) = 1"
    by (simp_all add: demo_bot_def SnakeBot_new_def NetworkClient_new_def join_frames_def)
  from bot_pass_answers [OF demo_bot_ok, of newest_first] obtain b' where
    b': "bot_pass newest_first demo_bot_input demo_bot = Some (Inr b')" "bot_inv b'" "b_clientId b' = 3"
      "fromProtocol newest_first bot_state = Inr (b_gameState b')"
      "answers b' True (nc_sent (b_network demo_bot) @ join_frames demo_bot) (nc_sent (b_network b'))"
    unfolding id state by auto
  with one [OF b'(5,3) shown [OF b'(4)]] start show ?thesis by auto
qed

end
