(* ===== verification/Client_Sends.thy ===== *)
theory Client_Sends
  imports SnakeClient_Laws SnakeBot_Laws
begin

text \<open>
  What a terminal client or a bot has sent when its run has come to some point, whatever bytes the
  server sent, whatever keys were pressed and whatever the calls of the kernel returned: only
  frames of well-formed join and input messages.
\<close>

section \<open>Sending\<close>

text \<open>From one connection to the next, only such frames were handed to \<open>send\<close>.\<close>

definition says :: "NetworkClient \<Rightarrow> NetworkClient \<Rightarrow> bool" where
  "says net net' \<longleftrightarrow> (\<exists>fs. nc_sent net' = nc_sent net @ fs \<and> (\<forall>f\<in>set fs. honest_frame f))"

lemma says_nothing: "nc_sent net' = nc_sent net \<Longrightarrow> says net net'"
  by (simp add: says_def)

lemma says_trans: "says net net' \<Longrightarrow> says net' net'' \<Longrightarrow> says net net''"
  unfolding says_def by (elim exE conjE, rule_tac x = "fs @ fsa" in exI) auto

lemma sendToServer_says:
  assumes "sendToServer snd_res (encode m) net = Inr net'" and "honest m"
  shows "says net net'"
proof -
  from assms(1) have "nc_sent net' = nc_sent net @ [make_frame (encode m)]"
    by (auto simp: sendToServer_def Let_def split: if_splits)
  moreover have "honest_frame (make_frame (encode m))" using assms(2) by (auto simp: honest_frame_def)
  ultimately show ?thesis by (auto simp: says_def)
qed

lemma receiveFromServer_says: "receiveFromServer r net = Inr (fs, net') \<Longrightarrow> says net net'"
  by (rule says_nothing) (rule receiveFromServer_sent(2))

section \<open>The terminal client\<close>

lemma send_message_says: "send_message snd_res m net = Inr net' \<Longrightarrow> honest m \<Longrightarrow> says net net'"
  by (auto simp: send_message_def rbind_eq_Inr serialise_honest intro: sendToServer_says)

lemma joinGame_says: "joinGame env snd_res c = Inr c' \<Longrightarrow> says (c_network c) (c_network c')"
  using honest_join by (auto simp: joinGame_def Let_def rbind_eq_Inr intro: send_message_says)

lemma handleInput_says: "handleInput env snd_res ch c = Inr c' \<Longrightarrow> says (c_network c) (c_network c')"
  by (auto simp: handleInput_def says_nothing intro: joinGame_says split: key.splits if_splits)

lemma sendPlayerInput_says: "sendPlayerInput snd_res c = Inr c' \<Longrightarrow> says (c_network c) (c_network c')"
  using honest_input by (auto simp: sendPlayerInput_def rbind_eq_Inr intro: send_message_says)

lemma client_message_network:
  assumes "client_message bs (l, c) = Inr (l', c')" shows "c_network c' = c_network c"
proof (cases "lift_frame (deserialise bs)")
  case (Inr msg)
  with assms show ?thesis
    by (cases msg; cases "mt_of (messageType (header msg))")
      (auto simp: client_message_def handleServerWelcome_def split: MessageType.splits)
qed (use assms in \<open>simp add: client_message_def\<close>)

lemma client_messages_network:
  "rfold client_message bss (l, c) = Inr (l', c') \<Longrightarrow> c_network c' = c_network c"
proof (induction bss arbitrary: l c)
  case (Cons bs bss)
  then show ?case by (auto simp: rbind_eq_Inr dest: client_message_network)
qed simp

lemma receiveUpdates_says: "receiveUpdates env r c = Inr c' \<Longrightarrow> says (c_network c) (c_network c')"
  by (auto simp: receiveUpdates_def handleGameStateMessage_def rbind_eq_Inr Let_def
      dest!: receiveFromServer_says client_messages_network split: option.splits if_splits)

lemma client_pass_says:
  assumes "client_pass env inp c = Inr (drawn, c')" shows "says (c_network c) (c_network c')"
proof -
  let ?c = "c\<lparr>c_timer := Timer_tick (in_clock inp) (c_timer c)\<rparr>"
  from assms obtain c1 c2 where
    1: "handleInput env (in_send inp) (in_key inp) ?c = Inr c1" and
    2: "(if playing c1 \<and> playerInput c1 \<noteq> 0 then sendPlayerInput (in_send inp) c1 else Inr c1) = Inr c2" and
    3: "receiveUpdates env (in_recv inp) c2 = Inr c'"
    by (auto simp: client_pass_def Let_def rbind_eq_Inr)
  have "says (c_network c1) (c_network c2)"
    using 2 by (auto simp: says_nothing intro: sendPlayerInput_says split: if_splits)
  then show ?thesis
    using handleInput_says [OF 1] receiveUpdates_says [OF 3] by (auto intro: says_trans)
qed

lemma client_loop_says: "client_loop env inps c = Inr c' \<Longrightarrow> says (c_network c) (c_network c')"
proof (induction inps arbitrary: c)
  case (Cons inp inps)
  then show ?case
    by (auto simp: says_nothing rbind_eq_Inr dest!: client_pass_says intro: says_trans split: if_splits)
qed (simp add: says_nothing)

lemma client_run_says: "client_run env snd_res inps c = Inr c' \<Longrightarrow> says (c_network c) (c_network c')"
  by (auto simp: client_run_def rbind_eq_Inr dest!: joinGame_says client_loop_says intro: says_trans)

section \<open>The bot\<close>

lemma createBot_says: "createBot snd_res b = Inr b' \<Longrightarrow> says (b_network b) (b_network b')"
  by (auto simp: createBot_def bot_joinGame_def rbind_eq_Inr serialise_honest [OF honest_bot_join]
      intro: sendToServer_says honest_bot_join simp del: serialise.simps)

lemma sendInput_says: "sendInput snd_res b = Inr b' \<Longrightarrow> says (b_network b) (b_network b')"
  by (auto simp: sendInput_def rbind_eq_Inr serialise_honest [OF honest_bot_input] says_nothing
      intro: sendToServer_says honest_bot_input simp del: serialise.simps split: if_splits)

lemma bot_message_network:
  assumes "bot_message bs (l, b) = Inr (l', b')" shows "b_network b' = b_network b"
proof (cases "lift_frame (deserialise bs)")
  case (Inr msg)
  with assms show ?thesis
    by (cases msg; cases "mt_of (messageType (header msg))")
      (auto simp: bot_message_def bot_handleServerWelcome_def split: MessageType.splits)
qed (use assms in \<open>simp add: bot_message_def\<close>)

lemma bot_messages_network:
  "rfold bot_message bss (l, b) = Inr (l', b') \<Longrightarrow> b_network b' = b_network b"
proof (induction bss arbitrary: l b)
  case (Cons bs bss)
  then show ?case by (auto simp: rbind_eq_Inr dest: bot_message_network)
qed simp

lemma buildArenaMap_network: "buildArenaMap b = Some (Inr b') \<Longrightarrow> b_network b' = b_network b"
proof -
  assume "buildArenaMap b = Some (Inr b')"
  then obtain r :: "client_error + Pathfinder" where "map_sum id (\<lambda>pf. b\<lparr>pathfinder := pf\<rparr>) r = Inr b'" unfolding buildArenaMap_def map_option_eq_Some by blast
  then show ?thesis by (cases r) auto
qed

lemma bot_receiveUpdates_says:
  "bot_receiveUpdates ord r b = Some (Inr b') \<Longrightarrow> says (b_network b) (b_network b')"
  by (auto simp: bot_receiveUpdates_def bot_handleGameStateMessage_def rbind_eq_Inr Let_def
      dest!: receiveFromServer_says bot_messages_network buildArenaMap_network split: sum.splits option.splits if_splits)

lemma bot_answer_says: "bot_answer snd_res b = Inr b' \<Longrightarrow> says (b_network b) (b_network b')"
  by (auto simp: bot_answer_def rbind_eq_Inr says_nothing intro: sendInput_says split: if_splits)

lemma bot_pass_says:
  assumes "bot_pass ord inp b = Some (Inr b')" shows "says (b_network b) (b_network b')"
proof -
  let ?b = "b\<lparr>b_timer := Timer_tick (bi_clock inp) (b_timer b)\<rparr>"
  from assms obtain b1 b2 where
    1: "(if b_clientId ?b = -1 \<and> \<not> awaitingJoin ?b then createBot (bi_send inp) ?b else Inr ?b) = Inr b1" and
    2: "bot_receiveUpdates ord (bi_recv inp) b1 = Some (Inr b2)" and 3: "bot_answer (bi_send inp) b2 = Inr b'"
    unfolding bot_pass_def Let_def by (auto simp: rbind_eq_Inr split: sum.splits)
  have "says (b_network ?b) (b_network b1)"
    using 1 by (auto simp: says_nothing dest!: createBot_says split: if_splits)
  then show ?thesis
    using bot_receiveUpdates_says [OF 2] bot_answer_says [OF 3] by (auto intro: says_trans)
qed

lemma bot_run_says: "bot_run ord inps b = Some (Inr b') \<Longrightarrow> says (b_network b) (b_network b')"
proof (induction inps arbitrary: b)
  case (Cons inp inps)
  then show ?case by (auto dest!: bot_pass_says intro: says_trans split: option.splits sum.splits)
qed (simp add: says_nothing)

section \<open>From the start\<close>

text \<open>A connection that has just been made has sent nothing.\<close>

lemma says_new: "says (NetworkClient_new fd) net \<Longrightarrow> \<forall>f\<in>set (nc_sent net). honest_frame f"
  by (auto simp: says_def NetworkClient_new_def)

lemma client_sends:
  "client_run env snd_res inps (SnakeClient_new w h t (NetworkClient_new fd)) = Inr c \<Longrightarrow>
     \<forall>f\<in>set (nc_sent (c_network c)). honest_frame f"
  by (rule says_new [of fd]) (auto simp: SnakeClient_new_def dest: client_run_says)

lemma bot_sends:
  "bot_run ord inps (SnakeBot_new w h t (NetworkClient_new fd)) = Some (Inr b) \<Longrightarrow>
     \<forall>f\<in>set (nc_sent (b_network b)). honest_frame f"
  by (rule says_new [of fd]) (auto simp: SnakeBot_new_def dest: bot_run_says)

end
