(* ===== verification/Client_Server.thy ===== *)
theory Client_Server
  imports Server_Properties Client_Sends
begin

text \<open>
  Server and clients together: the frame a server broadcasts shows every client the server's
  game state, nothing an unchanged client sends can make the server throw, and the move the bot
  chooses is a safe one on the server.
\<close>

section \<open>The game state on its way to a client\<close>

definition i32_ok :: "int \<Rightarrow> bool" where
  "i32_ok n \<longleftrightarrow> - (2 ^ 31) \<le> n \<and> n < 2 ^ 31"

lemma sint_i32 [simp]: "i32_ok n \<Longrightarrow> sint (word_of_int n :: i32) = n"
  by (simp add: i32_ok_def signed_of_int signed_take_bit_int_eq_self)

text \<open>The numbers of the game state fit the fields they are sent in.\<close>

definition fits_wire :: "'g SnakeServer \<Rightarrow> bool" where
  "fits_wire s \<longleftrightarrow> width s < 2 ^ 31 \<and> height s < 2 ^ 31 \<and> i32_ok (snd (serverHighScore s)) \<and>
     length (clientIdToPlayerMap s) < 2 ^ 32 \<and> length (foodMap s) < 2 ^ 32 \<and>
     (\<forall>(cid, p)\<in>set (clientIdToPlayerMap s). i32_ok cid \<and> i32_ok (score p) \<and> i32_ok (color p)) \<and>
     (\<forall>(c, f)\<in>set (foodMap s). i32_ok (f_color f)) \<and> (\<forall>(c, b)\<in>set (speedBoostMap s). i32_ok (sb_color b))"

text \<open>What a client that shows the state \<open>s\<close> of the server has.\<close>

definition player_view :: "int \<Rightarrow> Player \<Rightarrow> PlayerData" where
  "player_view cid p = \<lparr>pd_clientId = cid, pd_direction = direction p, pd_name = name p,
     pd_score = score p, pd_color = color p, pd_segments = segs (head p)\<rparr>"

definition shows_state :: "'g SnakeServer \<Rightarrow> GameState \<Rightarrow> bool" where
  "shows_state s gs \<longleftrightarrow>
     (\<forall>cid. um_at (g_players gs) cid = map_option (player_view cid) (um_at (clientIdToPlayerMap s) cid)) \<and>
     um_wf (g_players gs) \<and>
     g_food gs = map (\<lambda>(_, f). \<lparr>fd_x = f_x f, fd_y = f_y f, fd_icon = f_icon f, fd_color = f_color f\<rparr>) (foodMap s) \<and>
     g_speedBoosts gs = map (\<lambda>(_, b). \<lparr>bd_x = sb_x b, bd_y = sb_y b, bd_icon = sb_icon b, bd_color = sb_color b\<rparr>) (speedBoostMap s) \<and>
     g_serverHighScore gs = serverHighScore s"

lemma strncpy16_name:
  assumes "short_name nm"
  shows "0 \<in> set (strncpy16 nm)" "takeWhile (\<lambda>c. c \<noteq> 0) (strncpy16 nm) = nm" "length (strncpy16 nm) = 16"
proof -
  have nm: "takeWhile (\<lambda>c. c \<noteq> 0) nm = nm" using assms by (auto simp: short_name_def takeWhile_eq_all_conv)
  obtain k where k: "16 - length nm = Suc k" using assms by (cases "16 - length nm") (auto simp: short_name_def)
  have "strncpy16 nm = nm @ replicate (16 - length nm) 0"
    using assms by (simp add: strncpy16_def nm short_name_def)
  then have eq: "strncpy16 nm = nm @ 0 # replicate k 0" by (simp add: k)
  then show "0 \<in> set (strncpy16 nm)" by simp
  show "takeWhile (\<lambda>c. c \<noteq> 0) (strncpy16 nm) = nm"
    using assms unfolding eq by (simp add: takeWhile_append2 short_name_def) (auto simp: takeWhile_append nm)
  show "length (strncpy16 nm) = 16" by (simp add: strncpy16_def)
qed

lemma map_of_rev_distinct: "distinct (map fst xs) \<Longrightarrow> map_of (rev xs) = map_of xs"
proof (induction xs)
  case (Cons x xs)
  then have "map_of xs (fst x) = None" by (simp add: map_of_eq_None_iff)
  with Cons show ?case by (auto simp: map_add_def fun_eq_iff split: option.splits)
qed simp

lemma engine_inv_player:
  assumes "engine_inv s" and "(cid, p) \<in> set (clientIdToPlayerMap s)"
  shows "player_wf p" "settled (arena s) p"
proof -
  have "um_at (clientIdToPlayerMap s) cid = Some p"
    using assms um_at_in_set [OF engine_inv_players_wf [OF assms(1)]] by simp
  with assms(1) show "player_wf p" "settled (arena s) p"
    by (auto simp: engine_inv_def engine_wf_def)
qed

lemma arena_i32: "fits_wire s \<Longrightarrow> c \<in> arena s \<Longrightarrow> i32_ok (fst c) \<and> i32_ok (snd c)"
  by (cases c) (auto simp: fits_wire_def i32_ok_def)

abbreviation sent_player :: "int \<times> Player \<Rightarrow> GSPlayer" where
  "sent_player \<equiv> \<lambda>(cid, p). \<lparr>gp_clientId = word_of_int cid, gp_color = word_of_int (color p),
     gp_direction = direction p, gp_score = word_of_int (score p), gp_username = strncpy16 (name p),
     gp_segments = map (\<lambda>(x, y). (word_of_int x, word_of_int y)) (getSegments (head p) [])\<rparr>"

lemma sent_segments:
  assumes "set cs \<subseteq> arena s" and "fits_wire s"
  shows "map (\<lambda>(a, b). (sint a, sint b)) (map (\<lambda>(x, y). (word_of_int x :: i32, word_of_int y :: i32)) cs) = cs"
  using assms arena_i32 [OF assms(2)] by (induction cs) fastforce+

lemma data_of_sent:
  assumes "engine_inv s" and "fits_wire s" and "(cid, p) \<in> set (clientIdToPlayerMap s)"
  shows "data_of (sent_player (cid, p)) = player_view cid p" "sint (gp_clientId (sent_player (cid, p))) = cid"
    "0 \<in> set (gp_username (sent_player (cid, p)))" "player_ok (sent_player (cid, p))"
proof -
  from engine_inv_player [OF assms(1,3)] have p: "short_name (name p)" "set (segs (head p)) \<subseteq> arena s"
    "score p = int (length (segs (head p)))" by (auto simp: player_wf_def settled_segs)
  have r: "i32_ok cid" "i32_ok (score p)" "i32_ok (color p)" using assms(2,3) by (auto simp: fits_wire_def)
  from r(2) p(3) have "length (segs (head p)) < 2 ^ 32" by (simp add: i32_ok_def)
  moreover have "sint (word_of_int cid :: i32) = cid" "sint (word_of_int (score p) :: i32) = score p"
    "sint (word_of_int (color p) :: i32) = color p" using r by simp_all
  ultimately show "data_of (sent_player (cid, p)) = player_view cid p" "sint (gp_clientId (sent_player (cid, p))) = cid"
    "0 \<in> set (gp_username (sent_player (cid, p)))" "player_ok (sent_player (cid, p))"
    using sent_segments [OF p(2) assms(2)] strncpy16_name [OF p(1)]
    by (simp_all add: data_of_def player_view_def player_ok_def list_fits_def)
qed

lemma engine_inv_food:
  assumes "engine_inv s"
  shows "(c, f) \<in> set (foodMap s) \<Longrightarrow> c \<in> arena s \<and> (f_x f, f_y f) = c"
    "(c, b) \<in> set (speedBoostMap s) \<Longrightarrow> c \<in> arena s \<and> (sb_x b, sb_y b) = c"
proof -
  from engine_invD [OF assms] have f: "\<forall>c f. um_at (foodMap s) c = Some f \<longrightarrow> c \<in> arena s \<and> (f_x f, f_y f) = c"
    and b: "\<forall>c b. um_at (speedBoostMap s) c = Some b \<longrightarrow> c \<in> arena s \<and> (sb_x b, sb_y b) = c"
    unfolding engine_wf_def by blast+
  show "(c, f) \<in> set (foodMap s) \<Longrightarrow> c \<in> arena s \<and> (f_x f, f_y f) = c"
    using f um_at_in_set [OF engine_wfD(2) [OF engine_invD [OF assms]]] by blast
  show "(c, b) \<in> set (speedBoostMap s) \<Longrightarrow> c \<in> arena s \<and> (sb_x b, sb_y b) = c"
    using b um_at_in_set [OF engine_wfD(3) [OF engine_invD [OF assms]]] by blast
qed

abbreviation view_message :: "'g SnakeServer \<Rightarrow> Header \<Rightarrow> MessageVariant" where
  "view_message s h \<equiv> VGameState (buildGameState s\<lparr>gs_hdr := h\<rparr>)"

lemma names_end_sent:
  assumes "engine_inv s" and "fits_wire s"
  shows "names_end (buildGameState s\<lparr>gs_hdr := h\<rparr>)"
proof -
  have "short_name (fst (serverHighScore s))" using engine_invD [OF assms(1)] by (simp add: engine_wf_def)
  with strncpy16_name data_of_sent(3) [OF assms] show ?thesis
    by (fastforce simp: names_end_def buildGameState_def)
qed

lemma wf_view_message:
  assumes "engine_inv s" and "fits_wire s" and "messageType h = mt_code GAME_STATE"
  shows "wf_msg (view_message s h)"
proof -
  have "short_name (fst (serverHighScore s))" "length (speedBoostMap s) \<le> 1"
    using engine_invD [OF assms(1)] by (simp_all add: engine_wf_def)
  moreover have "\<forall>p\<in>set (gs_players (buildGameState s)). player_ok p"
    using data_of_sent(4) [OF assms(1,2)] by (fastforce simp: buildGameState_def)
  ultimately show ?thesis
    using assms(2,3) strncpy16_name by (simp add: wf_msg_def game_state_ok_def list_fits_def fits_wire_def)
      (simp add: buildGameState_def)
qed

lemma fromProtocol_shows:
  assumes "engine_inv s" and "fits_wire s"
  shows "\<exists>gs. fromProtocol ord (buildGameState s\<lparr>gs_hdr := h\<rparr>) = Inr gs \<and> shows_state s gs"
proof -
  let ?g = "buildGameState s\<lparr>gs_hdr := h\<rparr>"
  from fromProtocol_total [OF names_end_sent [OF assms], of ord h] obtain gs where gs:
    "fromProtocol ord ?g = Inr gs" "um_wf (g_players gs)"
    "um_at (g_players gs) = map_of (rev (map (\<lambda>p. (sint (gp_clientId p), data_of p)) (gs_players ?g)))"
    "g_food gs = map (\<lambda>f. \<lparr>fd_x = sint (gf_x f), fd_y = sint (gf_y f), fd_icon = gf_icon f, fd_color = sint (gf_color f)\<rparr>) (gs_food ?g)"
    "g_speedBoosts gs = map (\<lambda>f. \<lparr>bd_x = sint (gf_x f), bd_y = sint (gf_y f), bd_icon = gf_icon f, bd_color = sint (gf_color f)\<rparr>) (gs_speedBoosts ?g)"
    "g_serverHighScore gs = (takeWhile (\<lambda>c. c \<noteq> 0) (gs_highScoreUsername ?g), sint (gs_highScore ?g))"
    by blast
  have "map (\<lambda>p. (sint (gp_clientId p), data_of p)) (gs_players ?g) =
      map (\<lambda>(cid, p). (cid, player_view cid p)) (clientIdToPlayerMap s)"
    using data_of_sent(1,2) [OF assms] by (auto simp: buildGameState_def split: prod.splits)
  moreover have "distinct (map fst (map (\<lambda>(cid, p). (cid, player_view cid p)) (clientIdToPlayerMap s)))"
    using engine_inv_players_wf [OF assms(1)] by (simp add: um_wf_def um_keys_def o_def case_prod_unfold)
  ultimately have at: "um_at (g_players gs) cid = map_option (player_view cid) (um_at (clientIdToPlayerMap s) cid)" for cid
    unfolding gs(3) by (simp only: map_of_rev_distinct) (simp add: um_at_map_values [unfolded um_at_def] um_at_def)
  have cells: "i32_ok (f_x f) \<and> i32_ok (f_y f)" if "(c, f) \<in> set (foodMap s)" for c f
    using engine_inv_food(1) [OF assms(1) that] arena_i32 [OF assms(2)] by fastforce
  have cells': "i32_ok (sb_x b) \<and> i32_ok (sb_y b)" if "(c, b) \<in> set (speedBoostMap s)" for c b
    using engine_inv_food(2) [OF assms(1) that] arena_i32 [OF assms(2)] by fastforce
  have food: "g_food gs = map (\<lambda>(_, f). \<lparr>fd_x = f_x f, fd_y = f_y f, fd_icon = f_icon f, fd_color = f_color f\<rparr>) (foodMap s)"
    unfolding gs(4) using assms(2) cells by (auto simp: buildGameState_def fits_wire_def)
  have boosts: "g_speedBoosts gs = map (\<lambda>(_, b). \<lparr>bd_x = sb_x b, bd_y = sb_y b, bd_icon = sb_icon b, bd_color = sb_color b\<rparr>) (speedBoostMap s)"
    unfolding gs(5) using assms(2) cells' by (auto simp: buildGameState_def fits_wire_def)
  have "g_serverHighScore gs = serverHighScore s"
    using gs(6) assms(2) strncpy16_name(2) engine_invD [OF assms(1)]
    by (simp add: buildGameState_def fits_wire_def engine_wf_def)
  with gs(1,2) at food boosts show ?thesis by (auto simp: shows_state_def)
qed

section \<open>A broadcast reaches every client\<close>

lemma broadcastGameState_sends:
  assumes "server_inv s" and "sends_ok snd_res" and "broadcastGameState env snd_res s = Inr s'"
  shows "sentFrames (network s') = sentFrames (network s) @
     map (\<lambda>(fd, cid). (fd, make_frame (encode (view_message s (stamp s (header_of GAME_STATE (-1))))))) (fdToClientIdMap (network s))"
proof -
  let ?m = "header_update (stamp s) (VGameState (buildGameState s))"
  have m: "?m = view_message s (stamp s (header_of GAME_STATE (-1)))" by (simp add: buildGameState_def)
  have "log_message ?m (s\<lparr>currentSequence := currentSequence s + 1\<rparr>) = Inr (encode ?m,
      (s\<lparr>currentSequence := currentSequence s + 1\<rparr>)\<lparr>msgLog := log_write (msgLog (s\<lparr>currentSequence := currentSequence s + 1\<rparr>)) (encode ?m)\<rparr>)"
    by (rule log_message_total) simp
  with assms server_invD(4) [OF assms(1)]
  have "network s' = net_broadcast (net_ord env) snd_res (encode ?m) (network s)"
    by (auto simp: broadcastGameState_def stampMessage_def isInReplay_def simp del: header_update.simps)
  then show ?thesis unfolding m net_broadcast_ok [OF assms(2)] by (simp add: case_prod_unfold)
qed

lemma good_view_message:
  assumes "engine_inv s" and "fits_wire s" and "messageType h = mt_code GAME_STATE"
  shows "good_message (view_message s h)"
  using wf_view_message [OF assms] names_end_sent [OF assms(1,2)]
  by (auto simp: good_message_def for_clients_def) (auto simp: buildGameState_def)

lemma view_in_bot_arena:
  assumes "engine_inv s" and "fits_wire s" and "pf_width pf = width s" and "pf_height pf = height s"
  shows "in_bot_arena pf (view_message s h)"
proof -
  have "pf_arena pf = arena s" using assms(3,4) by (auto simp: pf_arena_def arena_def)
  moreover have "map (\<lambda>f. (sint (gf_x f), sint (gf_y f))) (gs_food (buildGameState s)) = map fst (foodMap s)"
    using engine_inv_food(1) [OF assms(1)] arena_i32 [OF assms(2)] by (fastforce simp: buildGameState_def)
  moreover have "map (\<lambda>f. (sint (gf_x f), sint (gf_y f))) (gs_speedBoosts (buildGameState s)) = map fst (speedBoostMap s)"
    using engine_inv_food(2) [OF assms(1)] arena_i32 [OF assms(2)] by (fastforce simp: buildGameState_def)
  moreover have "map (\<lambda>p. map (\<lambda>(a, b). (sint a, sint b)) (gp_segments p)) (gs_players (buildGameState s)) =
      map (\<lambda>(cid, p). segs (head p)) (clientIdToPlayerMap s)"
  proof -
    have "map (\<lambda>p. map (\<lambda>(a, b). (sint a, sint b)) (gp_segments p)) (gs_players (buildGameState s)) =
        map (\<lambda>e. pd_segments (data_of (sent_player e))) (clientIdToPlayerMap s)"
      by (simp add: buildGameState_def data_of_def)
    also have "\<dots> = map (\<lambda>(cid, p). segs (head p)) (clientIdToPlayerMap s)"
    proof (rule map_cong [OF refl])
      fix e assume e: "e \<in> set (clientIdToPlayerMap s)"
      obtain cid p where cp: "e = (cid, p)" by (cases e)
      from data_of_sent(1) [OF assms(1,2), of cid p] e
      show "pd_segments (data_of (sent_player e)) = (case e of (cid, p) \<Rightarrow> segs (head p))"
        by (simp add: cp player_view_def)
    qed
    finally show ?thesis .
  qed
  moreover have "set (map fst (foodMap s)) \<union> set (map fst (speedBoostMap s)) \<union>
      set (concat (map (\<lambda>(cid, p). segs (head p)) (clientIdToPlayerMap s))) \<subseteq> arena s"
    using engine_inv_food [OF assms(1)] settled_segs [OF engine_inv_player(2) [OF assms(1)]] by fastforce
  ultimately show ?thesis by (simp add: in_bot_arena_def cells_of_message_def)
qed

lemma receiveUpdates_one_frame:
  assumes "good_message m" and "length (encode m) \<le> CLIENT_RECV_MAX_MESSAGE_SIZE"
    and "messageBuffer (c_network c) @ chunk = make_frame (encode m)" and "client_inv c"
  shows "\<exists>c'. receiveUpdates env (RecvBytes chunk) c = Inr c' \<and> client_inv c' \<and>
     (case m of VGameState g \<Rightarrow> fromProtocol (map_ord env) g = Inr (gameState c') | _ \<Rightarrow> True)"
proof -
  have "receiveFromServer (RecvBytes chunk) (c_network c) =
      Inr (map encode [m], (c_network c)\<lparr>messageBuffer := []\<rparr>)"
    using parse_loop_frames [of "[encode m]" CLIENT_RECV_MAX_MESSAGE_SIZE "[]"] assms(2,3)
    by (simp add: client_parseReceivedPacket_def parse_loop_nil CLIENT_RECV_MAX_MESSAGE_SIZE_def)
  from receiveUpdates_total [OF assms(4) this, of env] assms(1) show ?thesis
    by (cases m) auto
qed

section \<open>What clients send and the server accepts\<close>

lemma honest_frame_ok:
  assumes "honest m" and "fdsToDisconnect net = []"
  shows "frame_ok net (cid, encode m)" "length (encode m) \<le> SERVER_RECV_MAX_MESSAGE_SIZE"
proof -
  have d: "deserialise (encode m) = Inr m" using assms(1) by (intro deserialise_encode) (simp add: honest_def)
  then show "frame_ok net (cid, encode m)"
    using assms by (auto simp: frame_ok_def honest_def)
  show "length (encode m) \<le> SERVER_RECV_MAX_MESSAGE_SIZE"
    using assms(1) by (cases m) (auto simp: honest_def encode_def wf_msg_def SERVER_RECV_MAX_MESSAGE_SIZE_def)
qed

lemma honest_stream:
  assumes "\<forall>f\<in>set fs. honest_frame f"
  shows "\<exists>ms. fs = map (make_frame \<circ> encode) ms \<and> (\<forall>m\<in>set ms. honest m) \<and>
     parse_loop SERVER_RECV_MAX_MESSAGE_SIZE (concat fs) = (map encode ms, [], False)"
proof -
  from assms have "\<exists>ms. fs = map (make_frame \<circ> encode) ms \<and> (\<forall>m\<in>set ms. honest m)"
  proof (induction fs)
    case (Cons f fs)
    from Cons.prems obtain m where "f = make_frame (encode m)" "honest m" by (auto simp: honest_frame_def)
    moreover have "\<forall>f\<in>set fs. honest_frame f" using Cons.prems by simp
    then obtain ms where "fs = map (make_frame \<circ> encode) ms" "\<forall>m\<in>set ms. honest m" using Cons.IH by blast
    ultimately show ?case by (intro exI [of _ "m # ms"]) simp
  qed simp
  then obtain ms where ms: "fs = map (make_frame \<circ> encode) ms" "\<forall>m\<in>set ms. honest m" by blast
  have "\<forall>bs\<in>set (map encode ms). length bs \<le> SERVER_RECV_MAX_MESSAGE_SIZE"
    using ms(2) honest_frame_ok(2) [where net = "NetworkServer_new 0"] by (auto simp: NetworkServer_new_def)
  from parse_loop_frames [OF this, of "[]"] ms show ?thesis
    by (intro exI [of _ ms]) (simp add: parse_loop_nil SERVER_RECV_MAX_MESSAGE_SIZE_def)
qed

section \<open>The bot's move on the server\<close>

lemma shows_state_mem:
  assumes "shows_state s gs" and "um_wf (clientIdToPlayerMap s)"
  shows "(cid, d) \<in> set (g_players gs) \<longleftrightarrow> (\<exists>p. (cid, p) \<in> set (clientIdToPlayerMap s) \<and> d = player_view cid p)"
  using assms um_at_in_set [of "g_players gs" cid d] um_at_in_set [OF assms(2), of cid]
  by (auto simp: shows_state_def)

lemma shows_state_cells:
  assumes "shows_state s gs" and "um_wf (clientIdToPlayerMap s)"
  shows "set (player_cells gs) = (\<Union>(cid, p)\<in>set (clientIdToPlayerMap s). set (segs (head p)))"
proof -
  note mem = shows_state_mem [OF assms]
  have "c \<in> set (player_cells gs) \<longleftrightarrow> (\<exists>cid d. (cid, d) \<in> set (g_players gs) \<and> c \<in> set (pd_segments d))" for c
    by (force simp: player_cells_def)
  moreover have "(\<exists>cid d. (cid, d) \<in> set (g_players gs) \<and> c \<in> set (pd_segments d)) \<longleftrightarrow>
      (\<exists>cid p. (cid, p) \<in> set (clientIdToPlayerMap s) \<and> c \<in> set (segs (head p)))" for c
  proof -
    have "pd_segments (player_view cid p) = segs (head p)" for cid p by (simp add: player_view_def)
    then show ?thesis unfolding mem by metis
  qed
  ultimately have "c \<in> set (player_cells gs) \<longleftrightarrow>
      (\<exists>cid p. (cid, p) \<in> set (clientIdToPlayerMap s) \<and> c \<in> set (segs (head p)))" for c by simp
  then show ?thesis by (intro set_eqI) (simp add: split_beta, force)
qed

lemma pf_arena_eq: "pf_width pf = width s \<Longrightarrow> pf_height pf = height s \<Longrightarrow> pf_arena pf = arena s"
  by (auto simp: pf_arena_def arena_def)

lemma shows_state_on_map:
  assumes "shows_state s gs" and "engine_inv s" and "pf_width pf = width s" and "pf_height pf = height s"
    and "width s * height s < INT_MAX"
  shows "on_map gs pf"
proof -
  note arena = pf_arena_eq [OF assms(3,4)]
  have "set (food_cells gs) \<union> set (boost_cells gs) \<subseteq> arena s"
    using assms(1) engine_inv_food [OF assms(2)] by (fastforce simp: shows_state_def food_cells_def boost_cells_def)
  moreover have "set (player_cells gs) \<subseteq> arena s"
    unfolding shows_state_cells [OF assms(1) engine_inv_players_wf [OF assms(2)]]
    using settled_segs [OF engine_inv_player(2) [OF assms(2)]] by blast
  ultimately show ?thesis
    using assms(3-5) engine_wfD(4,5) [OF engine_invD [OF assms(2)]] by (simp add: on_map_def arena)
qed

lemma head_cell_step:
  assumes "due s p"
  shows "head_cell (step_player s p) = towards (nextDirection p) (head_cell p)"
  using assms by (auto simp: step_player_def head_cell_def move_def vector_def towards_def Let_def)

lemma steer_towards:
  assumes "k \<in> set keys" and "direction p \<noteq> opposite k"
  shows "nextDirection (steer k p) = k"
  using assms by (auto simp: keys_def opposite_def steer_def key_defs)

lemma good_moves_server:
  assumes "shows_state s gs" and "engine_inv s" and "pf_width pf = width s" and "pf_height pf = height s"
  shows "good_moves gs pf d c = {k \<in> set keys. d \<noteq> opposite k \<and> towards k c \<in> arena s \<and>
     (\<forall>(cid, q)\<in>set (clientIdToPlayerMap s). towards k c \<notin> set (segs (head q)))}"
  unfolding good_moves_def open_cells_def pf_arena_eq [OF assms(3,4)]
    shows_state_cells [OF assms(1) engine_inv_players_wf [OF assms(2)]] by auto

lemma step_player_segs:
  "set (body (step_player s p)) \<subseteq> set (segs (head p))"
  "\<not> due s p \<Longrightarrow> head_cell (step_player s p) = head_cell p"
proof -
  have tl: "set (tl xs) \<subseteq> set xs" for xs :: "cell list" by (cases xs) auto
  show "set (body (step_player s p)) \<subseteq> set (segs (head p))"
    using tl by (auto simp: step_player_def expire_def Let_def segs_move split: prod.splits dest: in_set_butlastD)
  show "\<not> due s p \<Longrightarrow> head_cell (step_player s p) = head_cell p"
    by (simp add: step_player_def expire_def due_def head_cell_def Let_def split: prod.splits)
qed

text \<open>A player that alone is due and moves to a free cell survives the collision check.\<close>

lemma safe_step_survives:
  assumes "um_wf (clientIdToPlayerMap s)" and "um_at (clientIdToPlayerMap s) cid = Some p" and "due s p"
    and others: "\<forall>(cid', q)\<in>set (clientIdToPlayerMap s). cid' \<noteq> cid \<longrightarrow> \<not> due s q"
    and free: "towards (nextDirection p) (head_cell p) \<in> arena s"
      "\<forall>(cid', q)\<in>set (clientIdToPlayerMap s). towards (nextDirection p) (head_cell p) \<notin> set (segs (head q))"
  shows "\<not> dies (updated s) (cid, step_player s p)"
proof -
  let ?c = "towards (nextDirection p) (head_cell p)"
  note c = head_cell_step [OF assms(3)]
  have "?c \<notin> set (bodies (clientIdToPlayerMap (updated s)))"
    using free(2) step_player_segs(1) by (fastforce simp: updated_entries step_entry_def bodies_def)
  moreover have "cid' = cid \<and> q = p" if "(cid', q) \<in> set (clientIdToPlayerMap s)" "head_cell (step_player s q) = ?c" for cid' q
  proof (cases "cid' = cid")
    case True
    with that(1) assms(2) um_at_in_set [OF assms(1), of cid q] show ?thesis by simp
  next
    case False
    with others that(1) have "\<not> due s q" by blast
    from step_player_segs(2) [OF this] that(2) have "?c = hd (segs (head q))" by (simp add: head_cell_def [of q])
    then have "?c \<in> set (segs (head q))" by (simp only: list.set_sel(1) [OF segs_nonempty])
    with free(2) that(1) show ?thesis by blast
  qed
  ultimately show ?thesis
    using free(1) by (auto simp: dies_def Let_def c updated_entries step_entry_def) (metis less_irrefl)
qed

lemma survives_check:
  assumes "engine_inv s" and "segments_of s < 2 ^ 16" and "um_at (clientIdToPlayerMap s) cid = Some p" and "due s p"
    and "\<not> dies (updated s) (cid, step_player s p)"
  shows "\<exists>s1 s2. updateSnakes s = Inr (True, s1) \<and> checkCollisions env s1 = Inr s2 \<and> um_contains (clientIdToPlayerMap s2) cid"
proof -
  from checkCollisions_inv [OF updated_moving [OF assms(1)] updated_counted [OF assms(1,2)], of env] obtain t where
    t: "checkCollisions env (updated s) = Inr t" "dropped (dead_bodies (updated s)) (collided (updated s)) t" by blast
  have mem: "(cid, p) \<in> set (clientIdToPlayerMap s)"
    using assms(3) by (auto simp: um_at_def dest: map_of_SomeD)
  then have "(cid, step_player s p) \<in> set (filter (\<lambda>e. \<not> dies (updated s) e) (clientIdToPlayerMap (updated s)))"
    using assms(5) by (force simp: updated_entries step_entry_def)
  then have "cid \<in> set (um_keys (survivors (updated s)))" by (force simp: survivors_def um_keys_def)
  then have "um_contains (clientIdToPlayerMap t) cid"
    using dropped_sel(1) [OF t(2)] by (simp add: collided_def um_contains_iff)
  moreover have "updateSnakes s = Inr (True, updated s)"
    using updateSnakes_eq [OF assms(1)] mem assms(4) by auto
  ultimately show ?thesis using t(1) by blast
qed

text \<open>The server follows the advice \<open>k\<close>.\<close>

lemma steered_survives:
  assumes "engine_inv s" and "segments_of s < 2 ^ 16" and "um_at (clientIdToPlayerMap s) cid = Some p" and "i32_ok cid"
    and "k \<in> set keys" and "direction p \<noteq> opposite k" and "towards k (head_cell p) \<in> arena s"
    and "\<forall>(cid, q)\<in>set (clientIdToPlayerMap s). towards k (head_cell p) \<notin> set (segs (head q))"
  defines "s' \<equiv> handleClientInput \<lparr>ci_hdr = header_of CLIENT_INPUT (word_of_int cid), ci_input = k\<rparr> s"
  shows "um_at (clientIdToPlayerMap s') cid = Some (p\<lparr>nextDirection := k\<rparr>) \<and>
    (due s p \<and> (\<forall>(cid', q)\<in>set (clientIdToPlayerMap s). cid' \<noteq> cid \<longrightarrow> \<not> due s q) \<longrightarrow>
      (\<exists>s1 s2. updateSnakes s' = Inr (True, s1) \<and> checkCollisions env s1 = Inr s2 \<and>
        um_contains (clientIdToPlayerMap s2) cid))"
proof -
  have s': "s' = s\<lparr>clientIdToPlayerMap := um_modify cid (steer k) (clientIdToPlayerMap s)\<rparr>"
    using assms(3,4) by (simp add: s'_def handleClientInput_def Let_def header_of_def um_contains_def modify_player_def)
  have st: "steer k p = p\<lparr>nextDirection := k\<rparr>"
    using assms(5,6) by (auto simp: keys_def opposite_def steer_def key_defs)
  have at: "um_at (clientIdToPlayerMap s') cid = Some (p\<lparr>nextDirection := k\<rparr>)"
    using assms(3) by (simp add: s' um_at_modify st)
  have frame: "arena s' = arena s" "due s' = due s" by (auto simp: s' arena_def due_def)
  have keep: "head (steer k q) = head q" "nextMoveTime (steer k q) = nextMoveTime q" for q
    by (simp_all add: steer_def)
  have mem: "\<exists>q. (cid', q) \<in> set (clientIdToPlayerMap s) \<and> head q' = head q \<and> nextMoveTime q' = nextMoveTime q"
    if "(cid', q') \<in> set (clientIdToPlayerMap s')" for cid' q'
    using that keep by (auto simp: s' um_modify_def split: if_splits)
  have inv: "engine_inv s'" "um_wf (clientIdToPlayerMap s')" "segments_of s' < 2 ^ 16"
    using assms(1,2) engine_inv_players_wf
    by (simp_all add: s'_def handleClientInput_inv handleClientInput_frame engine_inv_players_wf)
  have "\<exists>s1 s2. updateSnakes s' = Inr (True, s1) \<and> checkCollisions env s1 = Inr s2 \<and> um_contains (clientIdToPlayerMap s2) cid"
    if "due s p" "\<forall>(cid', q)\<in>set (clientIdToPlayerMap s). cid' \<noteq> cid \<longrightarrow> \<not> due s q"
  proof -
    have due: "due s' (p\<lparr>nextDirection := k\<rparr>)" using that(1) by (simp add: frame due_def)
    have "\<not> dies (updated s') (cid, step_player s' (p\<lparr>nextDirection := k\<rparr>))"
    proof (rule safe_step_survives [OF inv(2) at due])
      show "\<forall>(cid', q)\<in>set (clientIdToPlayerMap s'). cid' \<noteq> cid \<longrightarrow> \<not> due s' q"
        using that(2) mem by (fastforce simp: frame due_def)
      show "towards (nextDirection (p\<lparr>nextDirection := k\<rparr>)) (head_cell (p\<lparr>nextDirection := k\<rparr>)) \<in> arena s'"
        using assms(7) by (simp add: frame head_cell_def)
      show "\<forall>(cid', q)\<in>set (clientIdToPlayerMap s').
          towards (nextDirection (p\<lparr>nextDirection := k\<rparr>)) (head_cell (p\<lparr>nextDirection := k\<rparr>)) \<notin> set (segs (head q))"
        using assms(8) mem by (fastforce simp: head_cell_def)
    qed
    from survives_check [OF inv(1,3) at due this] show ?thesis .
  qed
  with at show ?thesis by blast
qed

section \<open>Properties\<close>

text \<open>
  C28: Every client shows the server's state. When a live server broadcasts, it sends one and the
  same frame to every connection; and if that frame is within the client's limit, a terminal
  client that receives it, or the rest of it after what its buffer already holds, throws nothing
  and then shows the players of the server with their names, scores, colours, directions and
  segments, its food, its boosts and its high score.
\<close>

theorem broadcast_shown_by_clients:
  assumes "server_inv s" and "fits_wire s" and "sends_ok snd_res" and "broadcastGameState env snd_res s = Inr s'"
  shows "\<exists>bs. sentFrames (network s') = sentFrames (network s) @ map (\<lambda>(fd, cid). (fd, make_frame bs)) (fdToClientIdMap (network s)) \<and>
     (\<forall>cenv c chunk. length bs \<le> CLIENT_RECV_MAX_MESSAGE_SIZE \<and> client_inv c \<and>
        messageBuffer (c_network c) @ chunk = make_frame bs \<longrightarrow>
        (\<exists>c'. receiveUpdates cenv (RecvBytes chunk) c = Inr c' \<and> shows_state s (gameState c')))"
proof -
  let ?h = "stamp s (header_of GAME_STATE (-1))"
  let ?m = "view_message s ?h"
  note inv = server_invD(1) [OF assms(1)]
  have good: "good_message ?m" by (rule good_view_message [OF inv assms(2)]) (simp add: header_of_def)
  have "\<exists>c'. receiveUpdates cenv (RecvBytes chunk) c = Inr c' \<and> shows_state s (gameState c')"
    if "length (encode ?m) \<le> CLIENT_RECV_MAX_MESSAGE_SIZE" "client_inv c"
      "messageBuffer (c_network c) @ chunk = make_frame (encode ?m)" for cenv c chunk
    using receiveUpdates_one_frame [OF good that(1,3,2), of cenv] fromProtocol_shows [OF inv assms(2), of "map_ord cenv" ?h]
    by auto
  then show ?thesis
    using broadcastGameState_sends [OF assms(1,3,4)] by (intro exI [of _ "encode ?m"]) auto
qed

lemma demo_state_fits: "fits_wire demo_state"
  by (simp add: fits_wire_def demo_state_simps i32_ok_def snake_def node2_def new_node_def)

theorem broadcast_shown_by_clients_witness:
  "\<exists>s' frame. broadcastGameState demo_env (\<lambda>_ frame. int (length frame)) demo_state = Inr s' \<and>
     sentFrames (network s') = [(8, frame), (7, frame)]"
proof -
  have ok: "sends_ok (\<lambda>_ frame. int (length frame))" by (simp add: sends_ok_def send_failed_def)
  from broadcastGameState_total [OF demo_state_inv ok, of demo_env] obtain s' where
    s': "broadcastGameState demo_env (\<lambda>_ frame. int (length frame)) demo_state = Inr s'" by blast
  from broadcast_shown_by_clients [OF demo_state_inv demo_state_fits ok s'] s' show ?thesis
    by (auto simp: demo_state_simps two_clients_def)
qed

text \<open>
  C38: How large a broadcast is. The message has 56 bytes, 13 for each food and boost, 33 for each
  player and 8 for each of its segments. In the 40 by 40 arena it is within the client's limit
  whenever players and segments take at most 11899 bytes. A larger message than the limit ends
  the client with an exception as soon as a call of \<open>recv\<close>, of at most the size of its buffer,
  completes the four bytes of its length.
\<close>

theorem broadcast_size:
  assumes "engine_inv s" and "fits_wire s" and "width s = 40" and "height s = 40"
    and "messageType h = mt_code GAME_STATE"
  shows "length (encode (view_message s h)) = 56 + 13 * (length (foodMap s) + length (speedBoostMap s)) +
       (\<Sum>(cid, p)\<leftarrow>clientIdToPlayerMap s. 33 + 8 * length (segs (head p))) \<and>
     ((\<Sum>(cid, p)\<leftarrow>clientIdToPlayerMap s. 33 + 8 * length (segs (head p))) \<le> 11899 \<longrightarrow>
       length (encode (view_message s h)) \<le> CLIENT_RECV_MAX_MESSAGE_SIZE) \<and>
     (CLIENT_RECV_MAX_MESSAGE_SIZE < length (encode (view_message s h)) \<and> length (encode (view_message s h)) < 2 ^ 32 \<longrightarrow>
       (\<forall>c k chunk. messageBuffer c @ chunk = take k (make_frame (encode (view_message s h))) \<and> 4 \<le> k \<and>
          length chunk \<le> CLIENT_RECV_BUFFER_SIZE \<longrightarrow> receiveFromServer (RecvBytes chunk) c = Inl FrameTooBig))"
proof -
  let ?bs = "encode (view_message s h)"
  have "game_state_ok (buildGameState s\<lparr>gs_hdr := h\<rparr>)"
    using wf_view_message [OF assms(1,2,5)] by (simp add: wf_msg_def)
  then have len: "length ?bs = 56 + 13 * (length (foodMap s) + length (speedBoostMap s)) +
       (\<Sum>(cid, p)\<leftarrow>clientIdToPlayerMap s. 33 + 8 * length (segs (head p)))"
  proof -
    let ?g = "buildGameState s\<lparr>gs_hdr := h\<rparr>"
    assume ok: "game_state_ok ?g"
    have "length (gs_food ?g) = length (foodMap s)" "length (gs_speedBoosts ?g) = length (speedBoostMap s)"
      "(\<Sum>p\<leftarrow>gs_players ?g. 33 + 8 * length (gp_segments p)) =
        (\<Sum>(cid, p)\<leftarrow>clientIdToPlayerMap s. 33 + 8 * length (segs (head p)))"
      by (simp_all add: buildGameState_def o_def case_prod_unfold)
    moreover have "length (encode_game_state ?g) = 32 + 13 * length (gs_food ?g) + 13 * length (gs_speedBoosts ?g) +
        (\<Sum>p\<leftarrow>gs_players ?g. 33 + 8 * length (gp_segments p))"
      by (rule length_encode_game_state) (use ok in \<open>auto simp: game_state_ok_def player_ok_def\<close>)
    moreover have "length ?bs = 24 + length (encode_game_state ?g)" by (simp add: encode_def)
    ultimately show ?thesis by (simp only:) simp
  qed
  have "length (foodMap s) = card (set (um_keys (foodMap s)))"
    using engine_wfD(2) [OF engine_invD [OF assms(1)]] by (simp add: um_wf_def distinct_card)
  also have "\<dots> \<le> card ({1..40} \<times> {1..40} :: cell set)"
    using engine_inv_food(1) [OF assms(1)] assms(3,4)
    by (intro card_mono) (auto simp: um_keys_def arena_def)
  finally have "length (foodMap s) \<le> 1600" by (simp add: card_cartesian_product)
  moreover have "length (speedBoostMap s) \<le> 1" using engine_invD [OF assms(1)] by (simp add: engine_wf_def)
  moreover have "receiveFromServer (RecvBytes chunk) c = Inl FrameTooBig"
    if "CLIENT_RECV_MAX_MESSAGE_SIZE < length ?bs" "length ?bs < 2 ^ 32"
      and "messageBuffer c @ chunk = take k (make_frame ?bs)" "4 \<le> k" for c k chunk
  proof -
    have "frame_len (make_frame ?bs @ []) = length ?bs" using that(2) by (rule frame_len_make_frame)
    then have "frame_len (take k (make_frame ?bs)) = length ?bs" using that(4) by (simp add: min_def)
    then have "parse_loop CLIENT_RECV_MAX_MESSAGE_SIZE (take k (make_frame ?bs)) = ([], take k (make_frame ?bs), True)"
      using that(1,4) by (intro parse_loop_oversized) (simp_all add: make_frame_def)
    then show ?thesis by (simp add: client_parseReceivedPacket_def that(3))
  qed
  ultimately show ?thesis using len by (simp add: CLIENT_RECV_MAX_MESSAGE_SIZE_def)
qed

theorem broadcast_size_witness:
  "length (encode (view_message demo_state (header_of GAME_STATE (-1)))) = 146"
  using broadcast_size [OF server_invD(1) [OF demo_state_inv] demo_state_fits, of "header_of GAME_STATE (-1)"]
  by (simp add: demo_state_simps header_of_def NetworkClient_new_def snake_def node2_def new_node_def)

text \<open>
  C35: An unchanged client cannot stop the server. Let a terminal client or a bot run from its
  start, whatever bytes it receives, whatever keys are pressed and whatever the calls of the kernel
  return. At every point it comes to, everything it has sent parses on the server, without an
  oversized length, into one frame for each message, and each is decoded without an exception
  into an input or a join message, and a join has a terminated user name.
\<close>

theorem clients_are_understood:
  assumes "client_run cenv snd_res inps (SnakeClient_new w h t (NetworkClient_new fd)) = Inr c \<and> fs = nc_sent (c_network c) \<or>
     bot_run ord binps (SnakeBot_new w h t (NetworkClient_new fd)) = Some (Inr b) \<and> fs = nc_sent (b_network b)"
  shows "\<exists>frames ms. parse_loop SERVER_RECV_MAX_MESSAGE_SIZE (concat fs) = (frames, [], False) \<and>
     decode_frames (map (\<lambda>f. (cid, f)) frames) = Inr ms \<and> length ms = length fs \<and>
     (\<forall>m\<in>set ms. (variant_type m = CLIENT_INPUT \<or> variant_type m = CLIENT_JOIN) \<and> clientId (header m) = word_of_int cid \<and>
        (\<forall>j. m = VClientJoin j \<longrightarrow> 0 \<in> set (cj_username j)))"
proof -
  have "\<forall>f\<in>set fs. honest_frame f" using assms client_sends bot_sends by blast
  from honest_stream [OF this] obtain ms where
    ms: "fs = map (make_frame \<circ> encode) ms" "\<forall>m\<in>set ms. honest m"
      "parse_loop SERVER_RECV_MAX_MESSAGE_SIZE (concat fs) = (map encode ms, [], False)" by blast
  let ?got = "\<lambda>m. header_update (\<lambda>h. h\<lparr>clientId := word_of_int cid\<rparr>) m"
  have "receive_message (cid, encode m) = ?got m" if "m \<in> set ms" for m
    using ms(2) that by (simp add: receive_message_def deserialise_for_def deserialise_encode honest_def)
  then have "map receive_message (map (\<lambda>f. (cid, f)) (map encode ms)) = map ?got ms" by simp
  moreover have "\<forall>cf\<in>set (map (\<lambda>f. (cid, f)) (map encode ms)). frame_ok (NetworkServer_new 0) cf"
    using ms(2) honest_frame_ok(1) by (auto simp: NetworkServer_new_def)
  ultimately have "decode_frames (map (\<lambda>f. (cid, f)) (map encode ms)) = Inr (map ?got ms)"
    by (simp add: decode_frames_total)
  moreover have "(variant_type (?got m) = CLIENT_INPUT \<or> variant_type (?got m) = CLIENT_JOIN) \<and>
      clientId (header (?got m)) = word_of_int cid \<and> (\<forall>j. ?got m = VClientJoin j \<longrightarrow> 0 \<in> set (cj_username j))"
    if "m \<in> set ms" for m
    using ms(2) that by (cases m) (auto simp: honest_def)
  ultimately show ?thesis
    using ms(1,3) by (intro exI [of _ "map encode ms"] exI [of _ "map ?got ms"]) auto
qed

lemma demo_client_pass:
  "\<exists>c1 drawn c. joinGame demo_client_env (\<lambda>f. int (length f)) demo_client = Inr c1 \<and>
     client_pass demo_client_env demo_input c1 = Inr (drawn, c) \<and> length (nc_sent (c_network c1)) = 1"
proof -
  have "\<exists>c1. joinGame demo_client_env (\<lambda>f. int (length f)) demo_client = Inr c1 \<and>
      talked demo_client c1 \<and> length (nc_sent (c_network c1)) = 1"
  proof -
    obtain m where "honest m" "joinGame demo_client_env (\<lambda>f. int (length f)) demo_client =
        rbind (send_message (\<lambda>f. int (length f)) m (c_network demo_client)) (\<lambda>net. Inr (demo_client\<lparr>c_network := net\<rparr>))"
      using honest_join unfolding joinGame_def Let_def by blast
    with talked_send [of m demo_client "playerInput demo_client"] show ?thesis
      by (simp add: send_message_total) (simp add: demo_client_def SnakeClient_new_def NetworkClient_new_def)
  qed
  then obtain c1 where c1: "joinGame demo_client_env (\<lambda>f. int (length f)) demo_client = Inr c1"
    "talked demo_client c1" "length (nc_sent (c_network c1)) = 1" by blast
  from talked_keeps [OF c1(2) demo_client_ok(1,3)] obtain net' where
    k: "client_inv c1" "receiveFromServer (in_recv demo_input) (c_network c1) = Inr (map encode demo_messages, net')" by blast
  from client_pass_total [OF k(1) demo_client_ok(2) k(2) demo_client_ok(4), of demo_client_env] c1 show ?thesis by blast
qed

theorem clients_are_understood_witness:
  "\<exists>c frames ms. client_run demo_client_env (\<lambda>f. int (length f)) [demo_input] demo_client = Inr c \<and>
     nc_sent (c_network c) \<noteq> [] \<and>
     parse_loop SERVER_RECV_MAX_MESSAGE_SIZE (concat (nc_sent (c_network c))) = (frames, [], False) \<and>
     decode_frames (map (\<lambda>f. (1, f)) frames) = Inr ms \<and> length ms = length (nc_sent (c_network c))"
proof -
  from demo_client_pass obtain c1 drawn c where
    c: "joinGame demo_client_env (\<lambda>f. int (length f)) demo_client = Inr c1"
      "client_pass demo_client_env demo_input c1 = Inr (drawn, c)" "length (nc_sent (c_network c1)) = 1" by blast
  then have "running c1" by (auto simp: joinGame_def Let_def rbind_eq_Inr demo_client_def SnakeClient_new_def)
  with c have run: "client_run demo_client_env (\<lambda>f. int (length f)) [demo_input] demo_client = Inr c"
    by (simp add: client_run_def)
  moreover have "nc_sent (c_network c) \<noteq> []"
    using client_pass_says [OF c(2)] c(3) by (auto simp: says_def)
  ultimately show ?thesis
    using clients_are_understood [of demo_client_env "\<lambda>f. int (length f)" "[demo_input]" 40 40 "Timer_new 5 5" 4 c
        "nc_sent (c_network c)" newest_first "[]" demo_bot 1]
    unfolding demo_client_def [symmetric] by blast
qed

text \<open>
  C30: The bot plays safely on the server. When the bot decides on the state the server has
  broadcast, it throws nothing, and if it answers \<open>?\<close> then every way on turns back, leaves the
  arena or hits a snake. Otherwise the server, on receiving the answer, makes it the bot's next
  direction; and if the bot's snake is the only one due to move, it moves, passes the collision
  check and stays in the game.
\<close>

theorem bot_move_is_safe_on_server:
  assumes "engine_inv s" and "width s * height s < INT_MAX" and "segments_of s < 2 ^ 16" and "shows_state s gs"
    and "pf_width pf = width s" and "pf_height pf = height s"
    and "um_at (clientIdToPlayerMap s) cid = Some p" and "i32_ok cid"
  shows "\<exists>pf' k. rebuildMap gs pf = Some (Inr pf') \<and> calculateNextMove cid gs pf' = Inr k \<and>
    (let s' = handleClientInput \<lparr>ci_hdr = header_of CLIENT_INPUT (word_of_int cid), ci_input = k\<rparr> s in
     if k = KEY_UNKNOWN
     then \<forall>k'\<in>set keys. direction p = opposite k' \<or> towards k' (head_cell p) \<notin> arena s \<or>
       (\<exists>(cid', q)\<in>set (clientIdToPlayerMap s). towards k' (head_cell p) \<in> set (segs (head q)))
     else um_at (clientIdToPlayerMap s') cid = Some (p\<lparr>nextDirection := k\<rparr>) \<and>
       (due s p \<and> (\<forall>(cid', q)\<in>set (clientIdToPlayerMap s). cid' \<noteq> cid \<longrightarrow> \<not> due s q) \<longrightarrow>
         (\<exists>s1 s2. updateSnakes s' = Inr (True, s1) \<and> checkCollisions env s1 = Inr s2 \<and>
           um_contains (clientIdToPlayerMap s2) cid)))"
proof -
  have om: "on_map gs pf" by (rule shows_state_on_map [OF assms(4,1,5,6,2)])
  let ?d = "player_view cid p"
  have d: "um_at (g_players gs) cid = Some ?d" using assms(4,7) by (simp add: shows_state_def)
  have sg: "pd_segments ?d = head_cell p # tl (segs (head p))" "pd_direction ?d = direction p"
    by (simp_all add: player_view_def head_cell_def flip: hd_segs)
  have pl: "player_wf p" "settled (arena s) p" using engine_inv_player [OF assms(1)] assms(7)
    by (auto simp: um_at_def dest: map_of_SomeD)
  have "head_cell p \<in> set (segs (head p))"
    using list.set_sel(1) [OF segs_nonempty, of "head p"] by (simp add: head_cell_def)
  then have hd: "head_cell p \<in> pf_arena pf"
    using settled_segs [OF pl(2)] pf_arena_eq [OF assms(5,6)] by auto
  from rebuildMap_total [OF om] obtain pf' where pf': "rebuildMap gs pf = Some (Inr pf')" "same_size pf pf'"
    "holds_values pf' (cell_value (set (player_cells gs)) (steps_to_target gs pf))" by blast
  let ?ok = "good_moves gs pf (direction p) (head_cell p)"
  from calculateNextMove_best [OF pf'(3,2) om d sg(1) hd] obtain k where
    k: "calculateNextMove cid gs pf' = Inr k" "if ?ok = {} then k = KEY_UNKNOWN else k \<in> ?ok"
    unfolding Let_def sg(2) by metis
  note ok = good_moves_server [OF assms(4,1,5,6), of "direction p" "head_cell p"]
  show ?thesis
  proof (cases "?ok = {}")
    case True
    with k(2) have "k = KEY_UNKNOWN" by simp
    with pf'(1) k(1) True ok show ?thesis by (intro exI [of _ pf'] exI [of _ k]) (auto simp: Let_def split_beta)
  next
    case False
    with k(2) have "k \<in> ?ok" by simp
    then have in_ok: "k \<in> set keys" "direction p \<noteq> opposite k" "towards k (head_cell p) \<in> arena s"
      "\<forall>(cid, q)\<in>set (clientIdToPlayerMap s). towards k (head_cell p) \<notin> set (segs (head q))"
      unfolding ok by simp_all
    then have "k \<noteq> KEY_UNKNOWN" by (auto simp: keys_def key_defs)
    moreover note steered_survives [OF assms(1,3,7,8) in_ok, of env]
    ultimately show ?thesis using pf'(1) k(1) by (intro exI [of _ pf'] exI [of _ k]) (simp add: Let_def)
  qed
qed

theorem bot_move_is_safe_on_server_witness:
  "\<exists>gs pf'. fromProtocol newest_first (buildGameState demo_state) = Inr gs \<and>
     rebuildMap gs (Pathfinder_new 40 40) = Some (Inr pf')"
proof -
  obtain gs where gs: "fromProtocol newest_first (buildGameState demo_state) = Inr gs" "shows_state demo_state gs"
    using fromProtocol_shows [OF server_invD(1) [OF demo_state_inv] demo_state_fits, of newest_first "gs_hdr (buildGameState demo_state)"]
    by auto
  have "um_at (clientIdToPlayerMap demo_state) 1 = Some (snake node2 0)" "i32_ok 1"
    by (simp_all add: demo_state_simps um_at_def i32_ok_def)
  moreover have "width demo_state * height demo_state < INT_MAX" "pf_width (Pathfinder_new 40 40) = width demo_state"
    "pf_height (Pathfinder_new 40 40) = height demo_state" "segments_of demo_state < 2 ^ 16"
    by (simp_all add: demo_state_simps INT_MAX_def Pathfinder_new_def bodies_def snake_def node2_def new_node_def)
  ultimately show ?thesis
    using bot_move_is_safe_on_server [OF demo_state_engine _ _ gs(2), of "Pathfinder_new 40 40" 1 "snake node2 0"] gs(1)
    by blast
qed

end
