(* ===== verification/Replay_Frame.thy ===== *)
theory Replay_Frame
  imports Server_Pass
begin

text \<open>
  What the engine does not look at: its operations commute with \<open>host\<close>, which exchanges the parts
  of a server that a replay has otherwise than the live run it repeats (network, log, the log that
  is read, the statistics of the timer); the same for restocking food, which depends on the food
  and the generator only. Then the players of two servers that differ in boosts that have run out
  but not been taken away yet (\<open>caught_up\<close>), and the phases of a pass on two such servers.
\<close>

section \<open>The host of the engine\<close>

definition host :: "NetworkServer \<Rightarrow> int \<Rightarrow> int \<Rightarrow> bytes \<Rightarrow> MessageLogReader option \<Rightarrow> 'g SnakeServer \<Rightarrow> 'g SnakeServer" where
  "host n a b l rf s = s\<lparr>timer := (timer s)\<lparr>previousStatTick := a, engineLoopCounter := b\<rparr>,
     msgLog := l, replayFile := rf, network := n\<rparr>"

lemma host_sel [simp]:
  "width (host n a b l rf s) = width s" "height (host n a b l rf s) = height s"
  "currentSequence (host n a b l rf s) = currentSequence s" "gen (host n a b l rf s) = gen s"
  "clientIdToPlayerMap (host n a b l rf s) = clientIdToPlayerMap s" "foodMap (host n a b l rf s) = foodMap s"
  "speedBoostMap (host n a b l rf s) = speedBoostMap s" "serverHighScore (host n a b l rf s) = serverHighScore s"
  "occupiedCellsBodies (host n a b l rf s) = occupiedCellsBodies s"
  "movementFrequencyMs (host n a b l rf s) = movementFrequencyMs s"
  "boostedMovementFrequencyMs (host n a b l rf s) = boostedMovementFrequencyMs s"
  "boostDurationMs (host n a b l rf s) = boostDurationMs s"
  "currentTick (timer (host n a b l rf s)) = currentTick (timer s)"
  "currentTickAsNanos (timer (host n a b l rf s)) = currentTickAsNanos (timer s)"
  by (simp_all add: host_def currentTick_def currentTickAsNanos_def)

lemma host_update [simp]:
  "(host n a b l rf s)\<lparr>gen := g\<rparr> = host n a b l rf (s\<lparr>gen := g\<rparr>)"
  "(host n a b l rf s)\<lparr>clientIdToPlayerMap := m\<rparr> = host n a b l rf (s\<lparr>clientIdToPlayerMap := m\<rparr>)"
  "(host n a b l rf s)\<lparr>foodMap := fm\<rparr> = host n a b l rf (s\<lparr>foodMap := fm\<rparr>)"
  "(host n a b l rf s)\<lparr>speedBoostMap := bm\<rparr> = host n a b l rf (s\<lparr>speedBoostMap := bm\<rparr>)"
  "(host n a b l rf s)\<lparr>serverHighScore := hs\<rparr> = host n a b l rf (s\<lparr>serverHighScore := hs\<rparr>)"
  "(host n a b l rf s)\<lparr>occupiedCellsBodies := oc\<rparr> = host n a b l rf (s\<lparr>occupiedCellsBodies := oc\<rparr>)"
  "(host n a b l rf s)\<lparr>currentSequence := c\<rparr> = host n a b l rf (s\<lparr>currentSequence := c\<rparr>)"
  by (simp_all add: host_def)

lemma map_sum_rbind: "map_sum id h (rbind x f) = rbind x (\<lambda>y. map_sum id h (f y))"
  by (cases x) simp_all

lemma rbind_map_sum: "rbind (map_sum id h x) f = rbind x (\<lambda>y. f (h y))"
  by (cases x) simp_all

lemma map_sum_if: "map_sum f g (if b then x else y) = (if b then map_sum f g x else map_sum f g y)"
  by simp

lemma rbind_if: "rbind (if b then x else y) f = (if b then rbind x f else rbind y f)"
  by simp

lemma rfold_commutes:
  assumes "\<And>x s. f x (h s) = map_sum id h (f x s)"
  shows "rfold f xs (h s) = map_sum id h (rfold f xs s)"
  by (induction xs arbitrary: s) (simp_all add: assms rbind_map_sum map_sum_rbind)

lemma player_at_host [simp]: "player_at cid (host n a b l rf s) = player_at cid s"
  by (simp add: player_at_def)

lemma modify_player_host [simp]: "modify_player cid f (host n a b l rf s) = host n a b l rf (modify_player cid f s)"
  by (simp add: modify_player_def)

lemma feed_boost_host:
  "feedPlayer c cid (host n a b l rf s) = host n a b l rf (feedPlayer c cid s)"
  "boostPlayer c cid (host n a b l rf s) = host n a b l rf (boostPlayer c cid s)"
  by (simp_all add: feedPlayer_def boostPlayer_def modify_player_def)

lemma first_host: "firstPlayerInCell (host n a b l rf s) = firstPlayerInCell s"
  by (simp add: firstPlayerInCell_def arrival_of_def [abs_def] fun_eq_iff)

lemma track_host: "track_high_score cid (host n a b l rf s) = map_sum id (host n a b l rf) (track_high_score cid s)"
  by (auto simp: track_high_score_def map_sum_rbind intro!: rbind_cong)

lemma check_player_host:
  "check_player cid (d, host n a b l rf s) = map_sum id (apsnd (host n a b l rf)) (check_player cid (d, s))"
proof -
  have occ: "occupied_at (host n a b l rf s) c = occupied_at s c" for c
    by (simp add: occupied_at_def cell_index_def Let_def)
  have heads: "getPlayerHeadsInCell c (host n a b l rf s) = getPlayerHeadsInCell c s" for c
    by (simp add: getPlayerHeadsInCell_def)
  show ?thesis
    unfolding check_player_def Let_def prod.case map_sum_rbind player_at_host
    by (simp add: occ heads first_host feed_boost_host track_host map_sum_rbind rbind_map_sum rbind_assoc
        map_sum_if rbind_if split del: if_split cong: if_cong)
qed

lemma placeFoodAt_host: "placeFoodAt env x y col (host n a b l rf s) = host n a b l rf (placeFoodAt env x y col s)"
  by (simp add: placeFoodAt_def)

lemma drop_food_host: "drop_food env col c (host n a b l rf s) = host n a b l rf (drop_food env col c s)"
  by (simp add: drop_food_def placeFoodAt_host Let_def split: prod.split)

lemma destroyPlayer_host:
  "destroyPlayer env cid (host n a b l rf s) = map_sum id (host n a b l rf) (destroyPlayer env cid s)"
proof -
  have "fold (drop_food env col) cs (host n a b l rf s) = host n a b l rf (fold (drop_food env col) cs s)" for col cs
    by (induction cs arbitrary: s) (simp_all add: drop_food_host)
  then show ?thesis by (simp add: destroyPlayer_def Let_def map_sum_rbind)
qed

lemma checkCollisions_host:
  "checkCollisions env (host n a b l rf s) = map_sum id (host n a b l rf) (checkCollisions env s)"
proof -
  let ?h = "host n a b l rf"
  have "rfold check_player ks (apsnd ?h ([], s)) = map_sum id (apsnd ?h) (rfold check_player ks ([], s))" for ks
    by (rule rfold_commutes) (metis check_player_host apsnd_conv surj_pair)
  moreover have "destroyPlayers env ds (?h t) = map_sum id ?h (destroyPlayers env ds t)" for ds t
    unfolding destroyPlayers_def by (rule rfold_commutes) (rule destroyPlayer_host)
  ultimately show ?thesis
    by (simp add: checkCollisions_def map_sum_rbind rbind_map_sum case_prod_unfold cong: if_cong)
      (simp add: if_distrib [of "map_sum id _"] cong: if_cong)
qed

lemma placeSpeedBoost_host: "placeSpeedBoost env (host n a b l rf s) = host n a b l rf (placeSpeedBoost env s)"
  by (simp add: placeSpeedBoost_def Let_def split: prod.split)

lemma buildGameState_host [simp]: "buildGameState (host n a b l rf s) = buildGameState s"
  by (simp add: buildGameState_def)

section \<open>Restocking food\<close>

text \<open>It depends on food, generator and size of the arena only, and is done once.\<close>

lemma replaceFood_same:
  assumes "replaceFood env s = Some u"
    and "width r = width s" and "height r = height s" and "gen r = gen s" and "foodMap r = foodMap s"
  shows "replaceFood env r = Some (r\<lparr>gen := gen u, foodMap := foodMap u\<rparr>)"
proof -
  have "\<forall>r. width r = width s \<and> height r = height s \<and> gen r = gen s \<and> foodMap r = foodMap s \<longrightarrow>
      replaceFood env r = Some (r\<lparr>gen := gen u, foodMap := foodMap u\<rparr>)"
  proof (rule replaceFood.raw_induct [rotated, OF assms(1)], intro allI impI, elim conjE)
    fix rf env u and s r :: "'a SnakeServer"
    assume IH: "\<And>env s u. rf env s = Some u \<Longrightarrow> \<forall>r. width r = width s \<and> height r = height s \<and> gen r = gen s \<and>
        foodMap r = foodMap s \<longrightarrow> replaceFood env r = Some (r\<lparr>gen := gen u, foodMap := foodMap u\<rparr>)"
      and u: "(if length (um_keys (foodMap s)) < MIN_FOOD_IN_ARENA then rf env (placeFood env s) else Some s) = Some u"
      and same: "width r = width s" "height r = height s" "gen r = gen s" "foodMap r = foodMap s"
    show "replaceFood env r = Some (r\<lparr>gen := gen u, foodMap := foodMap u\<rparr>)"
    proof (cases "length (um_keys (foodMap s)) < MIN_FOOD_IN_ARENA")
      case True
      let ?t = "placeFood env r"
      have t: "width ?t = width (placeFood env s)" "height ?t = height (placeFood env s)"
        "gen ?t = gen (placeFood env s)" "foodMap ?t = foodMap (placeFood env s)"
        and r: "?t\<lparr>gen := g, foodMap := fm\<rparr> = r\<lparr>gen := g, foodMap := fm\<rparr>" for g fm
        using same by (simp_all add: placeFood_draw placeFoodAt_def split: prod.splits)
      from IH [of env "placeFood env s" u] u True t
      have "replaceFood env ?t = Some (?t\<lparr>gen := gen u, foodMap := foodMap u\<rparr>)" by simp
      with True same(4) show ?thesis by (simp add: replaceFood.simps [of env r] r)
    next
      case False
      with u same show ?thesis by (auto simp: replaceFood.simps [of env r])
    qed
  qed
  with assms(2-5) show ?thesis by blast
qed

lemma replaceFood_done: "replaceFood env s = Some u \<Longrightarrow> replaceFood env u = Some u"
proof -
  assume "replaceFood env s = Some u"
  then have "\<not> length (um_keys (foodMap u)) < MIN_FOOD_IN_ARENA"
    by (rule replaceFood.raw_induct [rotated]) (auto split: if_splits)
  then show ?thesis by (simp add: replaceFood.simps [of env u])
qed

section \<open>Players whose boosts have run out\<close>

definition expire_at :: "int \<Rightarrow> int \<Rightarrow> Player \<Rightarrow> Player" where
  "expire_at f now p = (if boosted p \<and> boostExpireTime p \<le> now
     then p\<lparr>boosted := False, p_movementFrequencyMs := f\<rparr> else p)"

definition caught_up :: "int \<Rightarrow> int \<Rightarrow> (int, Player) umap \<Rightarrow> (int, Player) umap" where
  "caught_up f now m = map (\<lambda>(cid, p). (cid, expire_at f now p)) m"

lemma expire_at_sel [simp]:
  "head (expire_at f now p) = head p" "direction (expire_at f now p) = direction p"
  "nextDirection (expire_at f now p) = nextDirection p" "name (expire_at f now p) = name p"
  "score (expire_at f now p) = score p" "color (expire_at f now p) = color p"
  "nextMoveTime (expire_at f now p) = nextMoveTime p"
  by (simp_all add: expire_at_def)

lemma expire_at_later: "now \<le> now' \<Longrightarrow> expire_at f now' (expire_at f now p) = expire_at f now' p"
  by (simp add: expire_at_def)

lemma caught_up_later: "now \<le> now' \<Longrightarrow> caught_up f now' (caught_up f now m) = caught_up f now' m"
  by (simp add: caught_up_def expire_at_later case_prod_unfold)

lemma caught_up_entries [simp]:
  "um_keys (caught_up f now m) = um_keys m"
  "um_at (caught_up f now m) cid = map_option (expire_at f now) (um_at m cid)"
  "um_wf (caught_up f now m) = um_wf m" "um_contains (caught_up f now m) = um_contains m"
  by (simp_all add: caught_up_def um_keys_def um_wf_def um_contains_def fun_eq_iff comp_def case_prod_unfold
      um_at_map_values [where f = "\<lambda>_. expire_at f now", unfolded case_prod_unfold])

text \<open>Steering, leaving and joining do not care.\<close>

lemma caught_up_handlers:
  "caught_up f now (um_modify cid (steer k) m) = um_modify cid (steer k) (caught_up f now m)"
  "caught_up f now (um_erase cid m) = um_erase cid (caught_up f now m)"
  "\<not> boosted p \<Longrightarrow> caught_up f now (um_emplace ord cid p m) = um_emplace ord cid p (caught_up f now m)"
proof -
  have "expire_at f now (steer k p) = steer k (expire_at f now p)" for p
    by (simp add: expire_at_def steer_def)
  then show "caught_up f now (um_modify cid (steer k) m) = um_modify cid (steer k) (caught_up f now m)"
    by (simp add: caught_up_def um_modify_def case_prod_unfold)
  show "caught_up f now (um_erase cid m) = um_erase cid (caught_up f now m)"
    by (simp add: caught_up_def um_erase_def filter_map comp_def case_prod_unfold)
  show "caught_up f now (um_emplace ord cid p m) = um_emplace ord cid p (caught_up f now m)" if "\<not> boosted p"
  proof (cases "um_contains m cid")
    case False
    have "expire_at f now p = p" using that by (simp add: expire_at_def)
    moreover have "expire_at f now (the (um_at m k)) = the (map_option (expire_at f now) (um_at m k))"
      if "k \<in> set (um_keys m)" for k
      using that um_contains_iff [of m k] by (auto simp: um_contains_def)
    moreover have "cid \<notin> set (um_keys m)" using False by (simp add: um_contains_iff)
    ultimately show ?thesis using False
      by (auto simp: um_emplace_def um_insert_new_def caught_up_def [of f now "map _ _"] um_at_def [symmetric] fun_upd_apply)
  qed (simp add: um_emplace_def)
qed

section \<open>A live server and the replaying one within a pass\<close>

text \<open>
  \<open>twins\<close>: the live server \<open>u\<close> and the replaying one \<open>v\<close> are in the same place of a pass. They agree
  but for the host, the counters (which are about to be filled again) and boosts that have run out.
  Since the logs were \<open>pl\<close> and \<open>pr\<close>, both have written the same. \<open>mirror\<close>: they agree but for the
  host.
\<close>

definition twins :: "bytes \<Rightarrow> bytes \<Rightarrow> NetworkServer \<Rightarrow> MessageLogReader \<Rightarrow> 'g SnakeServer \<Rightarrow> 'g SnakeServer \<Rightarrow> bool" where
  "twins pl pr n rd u v \<longleftrightarrow> replayFile u = None \<and>
     (\<exists>a b x m oc. v = host n a b (pr @ x) (Some rd) (u\<lparr>clientIdToPlayerMap := m, occupiedCellsBodies := oc\<rparr>) \<and>
        msgLog u = pl @ x \<and> length oc = length (occupiedCellsBodies u) \<and>
        caught_up (movementFrequencyMs u) (currentTick (timer u)) m =
        caught_up (movementFrequencyMs u) (currentTick (timer u)) (clientIdToPlayerMap u))"

definition mirror :: "bytes \<Rightarrow> bytes \<Rightarrow> NetworkServer \<Rightarrow> MessageLogReader \<Rightarrow> 'g SnakeServer \<Rightarrow> 'g SnakeServer \<Rightarrow> bool" where
  "mirror pl pr n rd u v \<longleftrightarrow> replayFile u = None \<and>
     (\<exists>a b x. v = host n a b (pr @ x) (Some rd) u \<and> msgLog u = pl @ x)"

lemma twinsE:
  assumes "twins pl pr n rd u v"
  obtains a b x m oc where "v = host n a b (pr @ x) (Some rd) (u\<lparr>clientIdToPlayerMap := m, occupiedCellsBodies := oc\<rparr>)"
    "msgLog u = pl @ x" "length oc = length (occupiedCellsBodies u)" "replayFile u = None"
    "caught_up (movementFrequencyMs u) (currentTick (timer u)) m =
     caught_up (movementFrequencyMs u) (currentTick (timer u)) (clientIdToPlayerMap u)"
  using assms unfolding twins_def by blast

lemma twinsI:
  assumes "v = host n a b (pr @ x) (Some rd) (u\<lparr>clientIdToPlayerMap := m, occupiedCellsBodies := oc\<rparr>)"
    and "msgLog u = pl @ x" and "length oc = length (occupiedCellsBodies u)" and "replayFile u = None"
    and "caught_up (movementFrequencyMs u) (currentTick (timer u)) m =
     caught_up (movementFrequencyMs u) (currentTick (timer u)) (clientIdToPlayerMap u)"
  shows "twins pl pr n rd u v"
  using assms unfolding twins_def by blast

lemma twins_sel:
  assumes "twins pl pr n rd u v"
  shows "currentSequence v = currentSequence u" "stamp v = stamp u" "isInReplay v" "\<not> isInReplay u"
    "width v = width u" "height v = height u" "gen v = gen u" "new_player v = new_player u"
    "um_contains (clientIdToPlayerMap v) = um_contains (clientIdToPlayerMap u)"
proof -
  from assms obtain a b x m oc where
    v: "v = host n a b (pr @ x) (Some rd) (u\<lparr>clientIdToPlayerMap := m, occupiedCellsBodies := oc\<rparr>)"
    "replayFile u = None" and m: "caught_up (movementFrequencyMs u) (currentTick (timer u)) m =
     caught_up (movementFrequencyMs u) (currentTick (timer u)) (clientIdToPlayerMap u)"
    by (rule twinsE)
  from v show "currentSequence v = currentSequence u" "stamp v = stamp u" "isInReplay v" "\<not> isInReplay u"
    "width v = width u" "height v = height u" "gen v = gen u" "new_player v = new_player u"
    by (simp_all add: stamp_def [abs_def] new_player_def [abs_def] isInReplay_def) (simp add: host_def)
  show "um_contains (clientIdToPlayerMap v) = um_contains (clientIdToPlayerMap u)"
    using arg_cong [OF m, of um_contains] v(1) by simp
qed

text \<open>Changes that both make.\<close>

lemma twins_players:
  assumes "twins pl pr n rd u v"
    and "\<And>f now m. caught_up f now (g m) = g (caught_up f now m)"
  shows "twins pl pr n rd (u\<lparr>clientIdToPlayerMap := g (clientIdToPlayerMap u)\<rparr>)
    (v\<lparr>clientIdToPlayerMap := g (clientIdToPlayerMap v)\<rparr>)"
proof -
  from assms(1) obtain a b x m oc where
    v: "v = host n a b (pr @ x) (Some rd) (u\<lparr>clientIdToPlayerMap := m, occupiedCellsBodies := oc\<rparr>)"
    "msgLog u = pl @ x" "length oc = length (occupiedCellsBodies u)" "replayFile u = None"
    "caught_up (movementFrequencyMs u) (currentTick (timer u)) m =
     caught_up (movementFrequencyMs u) (currentTick (timer u)) (clientIdToPlayerMap u)"
    by (rule twinsE)
  then show ?thesis
    by (intro twinsI [where a = a and b = b and x = x and m = "g m" and oc = oc]) (simp_all add: assms(2), simp add: host_def)
qed

lemma twins_currentSequence:
  assumes "twins pl pr n rd u v" shows "twins pl pr n rd (u\<lparr>currentSequence := c\<rparr>) (v\<lparr>currentSequence := c\<rparr>)"
  using assms
proof (rule twinsE)
  fix a b x m oc
  assume "v = host n a b (pr @ x) (Some rd) (u\<lparr>clientIdToPlayerMap := m, occupiedCellsBodies := oc\<rparr>)"
    "msgLog u = pl @ x" "length oc = length (occupiedCellsBodies u)" "replayFile u = None"
    "caught_up (movementFrequencyMs u) (currentTick (timer u)) m =
     caught_up (movementFrequencyMs u) (currentTick (timer u)) (clientIdToPlayerMap u)"
  then show ?thesis
    by (intro twinsI [where a = a and b = b and x = x and m = m and oc = oc]) (simp_all, simp add: host_def)
qed

lemma twins_gen:
  assumes "twins pl pr n rd u v" shows "twins pl pr n rd (u\<lparr>gen := g\<rparr>) (v\<lparr>gen := g\<rparr>)"
  using assms
proof (rule twinsE)
  fix a b x m oc
  assume "v = host n a b (pr @ x) (Some rd) (u\<lparr>clientIdToPlayerMap := m, occupiedCellsBodies := oc\<rparr>)"
    "msgLog u = pl @ x" "length oc = length (occupiedCellsBodies u)" "replayFile u = None"
    "caught_up (movementFrequencyMs u) (currentTick (timer u)) m =
     caught_up (movementFrequencyMs u) (currentTick (timer u)) (clientIdToPlayerMap u)"
  then show ?thesis
    by (intro twinsI [where a = a and b = b and x = x and m = m and oc = oc]) (simp_all, simp add: host_def)
qed

lemma twins_network [simp]: "twins pl pr n rd (u\<lparr>network := net\<rparr>) v = twins pl pr n rd u v"
  by (simp add: twins_def host_def)

lemma log_write_append: "log_write (a @ b) bs = a @ log_write b bs"
  by (simp add: log_write_def Let_def)

lemma twins_log:
  assumes "twins pl pr n rd u v" and "log_message m u = Inr (bs, u')"
  shows "\<exists>v'. log_message m v = Inr (bs, v') \<and> twins pl pr n rd u' v'"
proof -
  from assms(1) obtain a b x mp oc where
    v: "v = host n a b (pr @ x) (Some rd) (u\<lparr>clientIdToPlayerMap := mp, occupiedCellsBodies := oc\<rparr>)"
    "msgLog u = pl @ x" "length oc = length (occupiedCellsBodies u)" "replayFile u = None"
    "caught_up (movementFrequencyMs u) (currentTick (timer u)) mp =
     caught_up (movementFrequencyMs u) (currentTick (timer u)) (clientIdToPlayerMap u)"
    by (rule twinsE)
  from assms(2) have ser: "serialise m = Inr bs" and u': "u' = u\<lparr>msgLog := log_write (msgLog u) bs\<rparr>"
    by (cases "serialise m"; auto simp: log_message_def)+
  let ?v = "v\<lparr>msgLog := log_write (msgLog v) bs\<rparr>"
  have "msgLog v = pr @ x" using v(1) by (simp add: host_def)
  then have "twins pl pr n rd u' ?v"
    using v(2-5) unfolding u' v(1)
    by (intro twinsI [where a = a and b = b and x = "log_write x bs" and m = mp and oc = oc])
      (simp_all add: log_write_append host_def)
  with ser show ?thesis by (simp add: log_message_def)
qed

lemma stamp_again:
  assumes "unstamped m' = unstamped m" shows "header_update (stamp s) m' = header_update (stamp s) m"
proof -
  have "header_update (stamp s) m = header_update (stamp s) (unstamped m)" for m
    by (cases m) (simp_all add: unstamped_def stamp_def)
  with assms show ?thesis by metis
qed

lemma twins_stamp:
  assumes "twins pl pr n rd u v" and "stampMessage m u = (sm, u1)" and "log_message sm u1 = Inr (bs, u2)"
    and "unstamped m' = unstamped m"
  shows "\<exists>v1 v2. stampMessage m' v = (sm, v1) \<and> log_message sm v1 = Inr (bs, v2) \<and> twins pl pr n rd u2 v2"
proof -
  from assms(2) have u1: "sm = header_update (stamp u) m" "u1 = u\<lparr>currentSequence := currentSequence u + 1\<rparr>"
    by (auto simp: stampMessage_def)
  let ?v1 = "v\<lparr>currentSequence := currentSequence v + 1\<rparr>"
  have "stampMessage m' v = (sm, ?v1)"
    using stamp_again [OF assms(4)] by (simp add: stampMessage_def u1(1) twins_sel(2) [OF assms(1)])
  moreover have "twins pl pr n rd u1 ?v1"
    unfolding u1(2) twins_sel(1) [OF assms(1)] using assms(1) by (rule twins_currentSequence)
  ultimately show ?thesis using twins_log [OF _ assms(3)] by blast
qed

text \<open>Handlers and dispatch.\<close>

lemma handlers_twins:
  assumes "twins pl pr n rd u v"
  shows "twins pl pr n rd (handleClientInput i u) (handleClientInput i v)"
    "twins pl pr n rd (handleClientDisconnect d u) (handleClientDisconnect d v)"
  using assms
    twins_players [OF assms, where g = "um_modify (client_of (ci_hdr i)) (steer (ci_input i))"]
    twins_players [OF assms, where g = "um_erase (client_of (cd_hdr d))"]
  by (simp_all add: handleClientInput_def handleClientDisconnect_def Let_def twins_sel(9) [OF assms] caught_up_handlers)

lemma createNewPlayer_twins:
  assumes "twins pl pr n rd u v" and "createNewPlayer env j u = Inr u'"
  shows "\<exists>v'. createNewPlayer env j v = Inr v' \<and> twins pl pr n rd u' v'"
proof -
  let ?cid = "client_of (cj_hdr j)"
  obtain x g1 where d1: "draw (rng env) (1 + 5) (width u - 1 - 5) (gen u) = (x, g1)"
    by (cases "draw (rng env) (1 + 5) (width u - 1 - 5) (gen u)")
  obtain y g2 where d2: "draw (rng env) (1 + 5) (height u - 1 - 5) g1 = (y, g2)"
    by (cases "draw (rng env) (1 + 5) (height u - 1 - 5) g1")
  from assms(2) obtain nm where nm: "c_string (cj_username j) = Inr nm"
    by (auto simp: createNewPlayer_def rbind_eq_Inr Let_def split: prod.splits)
  let ?new = "\<lambda>m. um_emplace (player_ord env) ?cid (new_player u ?cid x y nm) m"
  have "twins pl pr n rd ((u\<lparr>gen := g2\<rparr>)\<lparr>clientIdToPlayerMap := ?new (clientIdToPlayerMap (u\<lparr>gen := g2\<rparr>))\<rparr>)
      ((v\<lparr>gen := g2\<rparr>)\<lparr>clientIdToPlayerMap := ?new (clientIdToPlayerMap (v\<lparr>gen := g2\<rparr>))\<rparr>)"
    by (rule twins_players [OF twins_gen [OF assms(1)]])
      (rule caught_up_handlers(3), simp add: new_player_def)
  moreover have "u' = u\<lparr>gen := g2, clientIdToPlayerMap := ?new (clientIdToPlayerMap u)\<rparr>"
    using assms(2) by (simp only: createNewPlayer_def Let_def d1 d2 nm prod.case rbind_Inr sum.inject)
  moreover have "createNewPlayer env j v = Inr (v\<lparr>gen := g2, clientIdToPlayerMap := ?new (clientIdToPlayerMap v)\<rparr>)"
    by (simp only: createNewPlayer_def Let_def twins_sel [OF assms(1)] d1 d2 nm prod.case rbind_Inr)
  ultimately show ?thesis by simp
qed

lemma handleClientJoin_twins:
  assumes "twins pl pr n rd u v" and "handleClientJoin env snd_res j u = Inr u'"
  shows "\<exists>v'. handleClientJoin env snd_res' j v = Inr v' \<and> twins pl pr n rd u' v'"
proof -
  let ?w = "VServerWelcome \<lparr>sw_hdr = header_of SERVER_WELCOME (clientId (cj_hdr j))\<rparr>"
  from assms(2) obtain u1 where u1: "createNewPlayer env j u = Inr u1"
    by (auto simp: handleClientJoin_def rbind_eq_Inr)
  from createNewPlayer_twins [OF assms(1) u1] obtain v1 where
    v1: "createNewPlayer env j v = Inr v1" "twins pl pr n rd u1 v1" by blast
  obtain w u2 where w: "stampMessage ?w u1 = (w, u2)" by (cases "stampMessage ?w u1")
  with assms(2) u1 obtain bs u3 where u3: "log_message w u2 = Inr (bs, u3)"
    and u': "u' = u3 \<or> (\<exists>net. u' = u3\<lparr>network := net\<rparr>)"
    by (auto simp: handleClientJoin_def rbind_eq_Inr split: if_splits)
  from twins_stamp [OF v1(2) w u3 refl] obtain v2 v3 where
    v3: "stampMessage ?w v1 = (w, v2)" "log_message w v2 = Inr (bs, v3)" "twins pl pr n rd u3 v3" by blast
  have "handleClientJoin env snd_res' j v = Inr v3"
    using v1(1) v3 twins_sel(3) [OF v3(3)] by (simp add: handleClientJoin_def)
  moreover have "twins pl pr n rd u' v3" using u' v3(3) by auto
  ultimately show ?thesis by blast
qed

lemma dispatch_twins:
  assumes "twins pl pr n rd u v" and "dispatch env snd_res m (b, u) = Inr (b', u')" and "unstamped m' = unstamped m"
  shows "\<exists>v'. dispatch env snd_res' m' (b, v) = Inr (b', v') \<and> twins pl pr n rd u' v'"
proof -
  let ?body = "\<lambda>snd_res sm s. case mt_of (messageType (header sm)) of
          Some CLIENT_JOIN \<Rightarrow>
            (case sm of VClientJoin j \<Rightarrow> rbind (handleClientJoin env snd_res j s) (\<lambda>s. Inr (True, s))
             | _ \<Rightarrow> Inl BadVariantAccess)
        | Some CLIENT_INPUT \<Rightarrow>
            (case sm of VClientInput i \<Rightarrow> Inr (b, handleClientInput i s)
             | _ \<Rightarrow> Inl BadVariantAccess)
        | Some CLIENT_DISCONNECT \<Rightarrow>
            (case sm of VClientDisconnect d \<Rightarrow> Inr (True, handleClientDisconnect d s)
             | _ \<Rightarrow> Inl BadVariantAccess)
        | _ \<Rightarrow> Inr (b, s)"
  have dispatch: "dispatch env snd_res m (b, s) = (let (sm, s) = stampMessage m s in
      rbind (log_message sm s) (\<lambda>(_, s). ?body snd_res sm s))" for snd_res m s
    by (simp add: dispatch_def Let_def)
  obtain sm u1 where st: "stampMessage m u = (sm, u1)" by (cases "stampMessage m u")
  with assms(2) obtain bs u2 where lg: "log_message sm u1 = Inr (bs, u2)" and body: "?body snd_res sm u2 = Inr (b', u')"
    unfolding dispatch by (auto simp: rbind_eq_Inr)
  from twins_stamp [OF assms(1) st lg assms(3)] obtain v1 v2 where
    v: "stampMessage m' v = (sm, v1)" "log_message sm v1 = Inr (bs, v2)" "twins pl pr n rd u2 v2" by blast
  have "\<exists>v'. ?body snd_res' sm v2 = Inr (b', v') \<and> twins pl pr n rd u' v'"
    using body v(3) handlers_twins [OF v(3)] handleClientJoin_twins [OF v(3), where snd_res = snd_res and snd_res' = snd_res']
    by (auto simp: rbind_eq_Inr split: option.splits MessageType.splits MessageVariant.splits)
  with v(1,2) show ?thesis unfolding dispatch by simp
qed

lemma dispatch_all_twins:
  assumes "twins pl pr n rd u v" and "rfold (dispatch env snd_res) ms (b, u) = Inr (b', u')"
    and "map unstamped ms' = map unstamped ms"
  shows "\<exists>v'. rfold (dispatch env snd_res') ms' (b, v) = Inr (b', v') \<and> twins pl pr n rd u' v'"
  using assms
proof (induction ms arbitrary: ms' b u v)
  case (Cons m ms)
  from Cons.prems(3) obtain m' ns where ms': "ms' = m' # ns" "unstamped m' = unstamped m" "map unstamped ns = map unstamped ms"
    by auto
  from Cons.prems(2) obtain b1 u1 where u1: "dispatch env snd_res m (b, u) = Inr (b1, u1)"
    "rfold (dispatch env snd_res) ms (b1, u1) = Inr (b', u')" by (auto simp: rbind_eq_Inr)
  from dispatch_twins [OF Cons.prems(1) u1(1) ms'(2), of snd_res'] obtain v1 where
    "dispatch env snd_res' m' (b, v) = Inr (b1, v1)" "twins pl pr n rd u1 v1" by blast
  with Cons.IH [OF _ u1(2) ms'(3)] ms'(1) show ?case by auto
qed auto

section \<open>Moving and broadcasting\<close>

lemma engine_inv_host [simp]: "engine_inv (host n a b l rf s) = engine_inv s"
  by (simp add: engine_inv_def engine_wf_def arena_def)

lemma engine_inv_counters: "length oc = length (occupiedCellsBodies s) \<Longrightarrow> engine_inv (s\<lparr>occupiedCellsBodies := oc\<rparr>) = engine_inv s"
  by (simp add: engine_inv_def engine_wf_def arena_def)

lemma engine_inv_caught_up:
  "engine_inv (s\<lparr>clientIdToPlayerMap := caught_up f now m\<rparr>) = engine_inv (s\<lparr>clientIdToPlayerMap := m\<rparr>)"
proof -
  have all: "(\<forall>cid p. map_option (expire_at f now) (um_at m cid) = Some p \<longrightarrow> Q p) \<longleftrightarrow>
      (\<forall>cid p. um_at m cid = Some p \<longrightarrow> Q (expire_at f now p))" for Q
    by auto
  show ?thesis
    by (simp add: engine_inv_def engine_wf_def arena_def all player_wf_def settled_def del: map_option_eq_Some)
qed

lemma twins_engine_inv:
  assumes "twins pl pr n rd u v" and "engine_inv u" shows "engine_inv v"
  using assms(1)
proof (rule twinsE)
  fix a b x m oc
  assume v: "v = host n a b (pr @ x) (Some rd) (u\<lparr>clientIdToPlayerMap := m, occupiedCellsBodies := oc\<rparr>)"
    "length oc = length (occupiedCellsBodies u)"
    "caught_up (movementFrequencyMs u) (currentTick (timer u)) m =
     caught_up (movementFrequencyMs u) (currentTick (timer u)) (clientIdToPlayerMap u)"
  then have "engine_inv (u\<lparr>clientIdToPlayerMap := m\<rparr>) = engine_inv (u\<lparr>clientIdToPlayerMap := clientIdToPlayerMap u\<rparr>)"
    by (metis engine_inv_caught_up)
  with assms(2) v(1,2) engine_inv_counters [of oc "u\<lparr>clientIdToPlayerMap := m\<rparr>"] show ?thesis by simp
qed

lemma mirrorI:
  "v = host n a b (pr @ x) (Some rd) u \<Longrightarrow> msgLog u = pl @ x \<Longrightarrow> replayFile u = None \<Longrightarrow> mirror pl pr n rd u v"
  unfolding mirror_def by blast

lemma mirror_twins: "mirror pl pr n rd u v \<Longrightarrow> twins pl pr n rd u v"
  unfolding mirror_def
  by (elim conjE exE) (rule twinsI [where m = "clientIdToPlayerMap u" and oc = "occupiedCellsBodies u"], simp_all)

text \<open>After \<open>updateSnakes\<close> the boosts have been taken away and the counters been filled on both sides.\<close>

lemma updated_twins:
  assumes "twins pl pr n rd u v"
  shows "mirror pl pr n rd (updated u) (updated v)"
    "(\<exists>(cid, p)\<in>set (clientIdToPlayerMap v). due v p) \<longleftrightarrow> (\<exists>(cid, p)\<in>set (clientIdToPlayerMap u). due u p)"
proof -
  from assms obtain a b x m oc where
    v: "v = host n a b (pr @ x) (Some rd) (u\<lparr>clientIdToPlayerMap := m, occupiedCellsBodies := oc\<rparr>)"
    "msgLog u = pl @ x" "length oc = length (occupiedCellsBodies u)" "replayFile u = None"
    and m: "caught_up (movementFrequencyMs u) (currentTick (timer u)) m =
     caught_up (movementFrequencyMs u) (currentTick (timer u)) (clientIdToPlayerMap u)"
    by (rule twinsE)
  let ?up = "caught_up (movementFrequencyMs u) (currentTick (timer u))"
  have step: "step_player v = step_player u" and bump: "bump v = bump u" and due: "due v = due u"
    by (simp_all add: v(1) step_player_def expire_def due_def bump_def cell_index_def fun_eq_iff Let_def split: prod.split)
  have "step_player u (expire_at (movementFrequencyMs u) (currentTick (timer u)) p) = step_player u p" for p
    by (simp add: step_player_def expire_def expire_at_def due_def Let_def)
  then have up: "map (step_entry u) (?up m) = map (step_entry u) m" for m
    by (simp add: caught_up_def step_entry_def case_prod_unfold)
  from step have entry: "step_entry v = step_entry u" by (simp add: step_entry_def fun_eq_iff)
  have vm: "clientIdToPlayerMap v = m" by (simp add: v(1))
  have "map (step_entry v) (clientIdToPlayerMap v) = map (step_entry u) (clientIdToPlayerMap u)"
    unfolding entry vm using up [of m] up [of "clientIdToPlayerMap u"] by (simp add: m)
  moreover have "length (occupiedCellsBodies v) = length (occupiedCellsBodies u)" by (simp add: v(1,3))
  ultimately have "updated v = host n a b (pr @ x) (Some rd) (updated u)"
    by (simp add: updated_def Let_def bump) (simp add: v(1) host_def)
  with v(2,4) show "mirror pl pr n rd (updated u) (updated v)"
    by (auto simp: mirror_def updated_def Let_def)
  have up_due: "(\<exists>(cid, p)\<in>set (?up m). due u p) \<longleftrightarrow> (\<exists>(cid, p)\<in>set m. due u p)" for m
    by (force simp: caught_up_def due_def)
  show "(\<exists>(cid, p)\<in>set (clientIdToPlayerMap v). due v p) \<longleftrightarrow> (\<exists>(cid, p)\<in>set (clientIdToPlayerMap u). due u p)"
    unfolding due vm using up_due [of m] up_due [of "clientIdToPlayerMap u"] by (simp add: m)
qed

lemma move_phase_twins:
  assumes "twins pl pr n rd u v" and "engine_inv u" and "move_phase env (b, u) = Inr (b', u')"
  shows "\<exists>v'. move_phase env (b, v) = Inr (b', v') \<and> mirror pl pr n rd u' v'"
proof -
  let ?moved = "\<exists>(cid, p)\<in>set (clientIdToPlayerMap u). due u p"
  have u: "updateSnakes u = Inr (?moved, updated u)" by (rule updateSnakes_eq [OF assms(2)])
  have v: "updateSnakes v = Inr (?moved, updated v)"
    using updateSnakes_eq [OF twins_engine_inv [OF assms(1,2)]] unfolding updated_twins(2) [OF assms(1)] .
  from updated_twins(1) [OF assms(1)] obtain a b0 x where
    h: "updated v = host n a b0 (pr @ x) (Some rd) (updated u)" "msgLog (updated u) = pl @ x" "replayFile (updated u) = None"
    unfolding mirror_def by blast
  show ?thesis
  proof (cases ?moved)
    case True
    with assms(3) u obtain t where t: "checkCollisions env (updated u) = Inr t" "b'" "u' = placeSpeedBoost env t"
      by (auto simp: move_phase_def rbind_eq_Inr)
    have "checkCollisions env (updated v) = Inr (host n a b0 (pr @ x) (Some rd) t)"
      using t(1) by (simp add: h(1) checkCollisions_host)
    with True v t(2,3) have "move_phase env (b, v) = Inr (b', host n a b0 (pr @ x) (Some rd) u')"
      by (simp add: move_phase_def placeSpeedBoost_host)
    moreover have "io u' = io (updated u)" using io_checkCollisions [OF t(1)] t(3) by simp
    ultimately show ?thesis using h(2,3) unfolding mirror_def io_def by auto
  next
    case False
    with assms(3) u v updated_twins(1) [OF assms(1)] show ?thesis by (auto simp: move_phase_def)
  qed
qed

lemma broadcast_mirror:
  assumes "mirror pl pr n rd u v" and "broadcastGameState env snd_res u = Inr u'"
  shows "\<exists>v'. broadcastGameState env snd_res' v = Inr v' \<and> mirror pl pr n rd u' v'"
proof -
  from assms(1) obtain a b x where v: "v = host n a b (pr @ x) (Some rd) u" "msgLog u = pl @ x" "replayFile u = None"
    unfolding mirror_def by blast
  let ?m = "header_update (stamp u) (VGameState (buildGameState u))"
  let ?seq = "currentSequence u + 1"
  have st: "stamp v = stamp u" by (simp add: v(1) stamp_def fun_eq_iff)
  from assms(2) obtain bs where bs: "serialise ?m = Inr bs"
    and "\<exists>net. u' = u\<lparr>currentSequence := ?seq, msgLog := log_write (msgLog u) bs, network := net\<rparr>"
    using v(3) by (cases "serialise ?m")
      (auto simp: broadcastGameState_def stampMessage_def log_message_def isInReplay_def simp del: serialise.simps header_update.simps)
  then obtain net where u': "u' = u\<lparr>currentSequence := ?seq, msgLog := log_write (msgLog u) bs, network := net\<rparr>" by blast
  let ?v = "v\<lparr>currentSequence := ?seq, msgLog := log_write (pr @ x) bs\<rparr>"
  have "broadcastGameState env snd_res' v = Inr ?v"
    using bs st by (simp add: broadcastGameState_def stampMessage_def log_message_def isInReplay_def v(1)
        del: serialise.simps header_update.simps) (simp add: host_def)
  moreover have "mirror pl pr n rd u' ?v"
    using v(2,3) unfolding u' v(1)
    by (intro mirrorI [where a = a and b = b and x = "log_write x bs"]) (simp_all add: host_def log_write_append)
  ultimately show ?thesis by blast
qed

lemma after_food_twins:
  assumes "twins pl pr n rd u v" and "after_food env snd_res ms u = Inr u'" and "map unstamped ms' = map unstamped ms"
    and "\<And>b t. rfold (dispatch env snd_res) ms (False, u) = Inr (b, t) \<Longrightarrow> engine_inv t"
  shows "\<exists>v'. after_food env snd_res' ms' v = Inr v' \<and> mirror pl pr n rd u' v'"
proof -
  from assms(2) obtain b t b' w where t: "rfold (dispatch env snd_res) ms (False, u) = Inr (b, t)"
    and w: "move_phase env (b, t) = Inr (b', w)"
    and u': "if b' then broadcastGameState env snd_res w = Inr u' else u' = w"
    by (auto simp: after_food_def rbind_eq_Inr split: prod.splits if_splits)
  from dispatch_all_twins [OF assms(1) t assms(3), of snd_res'] obtain t' where
    t': "rfold (dispatch env snd_res') ms' (False, v) = Inr (b, t')" "twins pl pr n rd t t'" by blast
  from move_phase_twins [OF t'(2) assms(4) [OF t] w] obtain w' where
    w': "move_phase env (b, t') = Inr (b', w')" "mirror pl pr n rd w w'" by blast
  show ?thesis
  proof (cases b')
    case True
    with u' broadcast_mirror [OF w'(2), of env snd_res u' snd_res'] t'(1) w'(1) show ?thesis
      by (auto simp: after_food_def)
  next
    case False
    with u' t'(1) w' show ?thesis by (auto simp: after_food_def)
  qed
qed

end
