(* ===== verification/Replay.thy ===== *)
theory Replay
  imports Server_Properties Replay_Frame
begin

text \<open>
  Replaying a log: a server that reads the log of a live run writes the same log again and ends in
  the same state. Passes in which nothing happened leave no trace in the log and are not repeated;
  what they did (restocking food, ending boosts) the replaying server does in the next pass that
  is repeated, which is the relation \<open>lags\<close>.
\<close>

section \<open>Live passes\<close>

text \<open>No client sends what only a server sends: a replay would drop it, though the run logged it.\<close>

primrec inputs_only :: "'g env \<Rightarrow> 'g SnakeServer \<Rightarrow> tick_input list \<Rightarrow> bool" where
  "inputs_only env s [] \<longleftrightarrow> True"
| "inputs_only env s (inp # inps) \<longleftrightarrow>
     (\<forall>ms t. pollMessages env inp s = Inr (Some ms, t) \<longrightarrow> (\<forall>m\<in>set ms. is_input_message m)) \<and>
     (\<forall>s'. run_pass env inp s = Some (Inr (True, s')) \<longrightarrow> inputs_only env s' inps)"

text \<open>
  Such a message takes a sequence number and a record of the log in the run, and neither in the
  replay, where \<open>pollMessages\<close> leaves it out: from there on all sequence numbers differ.
\<close>

lemma output_message_not_replayed:
  assumes "messageType (header m) = mt_code SERVER_WELCOME \<or> messageType (header m) = mt_code GAME_STATE"
    and "serialise (header_update (stamp s) m) = Inr bs"
  shows "dispatch env snd_res m (b, s) =
       Inr (b, s\<lparr>currentSequence := currentSequence s + 1, msgLog := log_write (msgLog s) bs\<rparr>) \<and>
     filter is_input_message [m] = []"
proof -
  have "messageType (header (header_update (stamp s) m)) = messageType (header m)"
    by (cases m) (simp_all add: stamp_def)
  with assms show ?thesis
    by (auto simp: dispatch_def stampMessage_def log_message_def is_input_message_def mt_of_def
        simp del: serialise.simps header_update.simps split: option.split MessageType.split)
qed

text \<open>\<open>live_step env s inp out s'\<close>: what a live pass did and that it logged \<open>out\<close>.\<close>

definition live_step :: "'g env \<Rightarrow> 'g SnakeServer \<Rightarrow> tick_input \<Rightarrow> MessageVariant list \<Rightarrow> 'g SnakeServer \<Rightarrow> bool" where
  "live_step env s inp out s' \<longleftrightarrow>
     (\<exists>net ms u. replaceFood env (s\<lparr>timer := Timer_tick (clock inp) (timer s), network := net\<rparr>) = Some u \<and>
        restocked (s\<lparr>timer := Timer_tick (clock inp) (timer s), network := net\<rparr>) u \<and>
        after_food env (send_result inp) ms u = Inr s' \<and> inputs_of out = map unstamped ms \<and>
        (\<forall>b t. rfold (dispatch env (send_result inp)) ms (False, u) = Inr (b, t) \<longrightarrow> engine_inv t) \<and>
        (out = [] \<longrightarrow> s' = updated u \<and> \<not> (\<exists>(cid, p)\<in>set (clientIdToPlayerMap u). due u p))) \<and>
     replayFile s = None \<and> replayFile s' = None \<and> at_tick (clock inp) out \<and> written (msgLog s) out (msgLog s')"

lemma silent_pass:
  assumes "after_food env snd_res [] u = Inr s'" and "logged u [] s'" and "engine_inv u"
  shows "s' = updated u \<and> \<not> (\<exists>(cid, p)\<in>set (clientIdToPlayerMap u). due u p)"
proof -
  let ?moved = "\<exists>(cid, p)\<in>set (clientIdToPlayerMap u). due u p"
  have up: "updateSnakes u = Inr (?moved, updated u)" by (rule updateSnakes_eq [OF assms(3)])
  have "\<not> ?moved"
  proof
    assume moved: ?moved
    then have "?moved = True" by simp
    with assms(1) up obtain t where t: "checkCollisions env (updated u) = Inr t"
      and s': "broadcastGameState env snd_res (placeSpeedBoost env t) = Inr s'"
      by (auto simp: after_food_def move_phase_def rbind_eq_Inr)
    have "io (placeSpeedBoost env t) = io u"
      using io_checkCollisions [OF t] io_updateSnakes [OF up] by simp
    then have "currentSequence s' = currentSequence u + 1"
      using s' by (auto simp: broadcastGameState_def stampMessage_def log_message_def rbind_eq_Inr io_def split: if_splits)
    moreover have "currentSequence s' = currentSequence u" using assms(2) by (simp add: logged_def)
    ultimately show False by simp
  qed
  then have "?moved = False" by simp
  with assms(1) up have "s' = updated u" by (simp add: after_food_def move_phase_def)
  with \<open>\<not> ?moved\<close> show ?thesis by blast
qed

lemma live_pass:
  assumes inv: "server_inv s" and ok: "tick_ok env s inp" and fair: "draws_escape env (width s) (height s)"
    and inputs: "\<forall>ms t. pollMessages env inp s = Inr (Some ms, t) \<longrightarrow> (\<forall>m\<in>set ms. is_input_message m)"
  shows "\<exists>out s'. run_pass env inp s = Some (Inr (True, s')) \<and> live_step env s inp out s' \<and> server_inv s' \<and>
     width s' = width s \<and> height s' = height s"
proof -
  from pass_phases [OF inv ok fair] obtain ms net u s' where
    t: "pollMessages env inp s = Inr (Some ms, s\<lparr>timer := Timer_tick (clock inp) (timer s), network := net\<rparr>)"
      "\<forall>m\<in>set ms. shaped m" and
    u: "replaceFood env (s\<lparr>timer := Timer_tick (clock inp) (timer s), network := net\<rparr>) = Some u"
      "restocked (s\<lparr>timer := Timer_tick (clock inp) (timer s), network := net\<rparr>) u" "engine_inv u" and
    af: "after_food env (send_result inp) ms u = Inr s'" and
    mid: "\<forall>b v. rfold (dispatch env (send_result inp)) ms (False, u) = Inr (b, v) \<longrightarrow> engine_inv v" and
    s': "run_pass env inp s = Some (Inr (True, s'))" "server_inv s'" "width s' = width s" "height s' = height s"
    unfolding Let_def by blast
  note same = restocked_sel [OF u(2)]
  from after_food_logged [OF af t(2)] obtain out where out: "logged u out s'" "inputs_of out = inputs_of ms" by blast
  have "filter is_input_message ms = ms" using inputs t(1) by simp
  then have io: "inputs_of out = map unstamped ms" using out(2) by (simp add: inputs_of_def)
  have silent: "s' = updated u \<and> \<not> (\<exists>(cid, p)\<in>set (clientIdToPlayerMap u). due u p)" if "out = []"
  proof -
    from io that have "ms = []" by simp
    with silent_pass [of env "send_result inp" u s'] af out(1) u(3) that show ?thesis by simp
  qed
  have "logged (s\<lparr>timer := Timer_tick (clock inp) (timer s)\<rparr>) out s'"
    using out(1) same by (simp add: logged_def)
  from loggedD [OF this] have "at_tick (clock inp) out" "written (msgLog s) out (msgLog s')" by blast+
  then have "live_step env s inp out s'"
    using u(1,2) af io mid silent server_invD(4) [OF inv] server_invD(4) [OF s'(2)]
    unfolding live_step_def by blast
  with s' show ?thesis by blast
qed

fun live_steps :: "'g env \<Rightarrow> 'g SnakeServer \<Rightarrow> tick_input list \<Rightarrow> MessageVariant list list \<Rightarrow> 'g SnakeServer \<Rightarrow> bool" where
  "live_steps env s [] [] s' \<longleftrightarrow> s' = s"
| "live_steps env s (inp # inps) (out # outs) s' \<longleftrightarrow> (\<exists>t. live_step env s inp out t \<and> live_steps env t inps outs s')"
| "live_steps env s _ _ s' \<longleftrightarrow> False"

lemma live_run:
  assumes "server_inv s" and "ticks_ok env s inps" and "draws_escape env (width s) (height s)" and "inputs_only env s inps"
  shows "\<exists>outs s'. run_loop env inps s = Some (Inr s') \<and> live_steps env s inps outs s' \<and> server_inv s' \<and>
     width s' = width s \<and> height s' = height s"
  using assms
proof (induction inps arbitrary: s)
  case Nil
  then show ?case by (intro exI [of _ "[]"]) simp
next
  case (Cons inp inps)
  have inputs: "\<forall>ms t. pollMessages env inp s = Inr (Some ms, t) \<longrightarrow> (\<forall>m\<in>set ms. is_input_message m)"
    using Cons.prems(4) by simp
  have "tick_ok env s inp" using Cons.prems(2) by simp
  from live_pass [OF Cons.prems(1) this Cons.prems(3) inputs] obtain out t where
    t: "run_pass env inp s = Some (Inr (True, t))" "live_step env s inp out t" "server_inv t" "width t = width s" "height t = height s"
    by blast
  from Cons.IH [of t] Cons.prems(2-4) t obtain outs s' where
    "run_loop env inps t = Some (Inr s')" "live_steps env t inps outs s'" "server_inv s'" "width s' = width t" "height s' = height t"
    by auto
  with t show ?case by (intro exI [of _ "out # outs"] exI [of _ s']) auto
qed

lemma live_steps_log:
  "live_steps env s inps outs s' \<Longrightarrow> list_all2 (\<lambda>inp ms. at_tick (clock inp) ms) inps outs \<and> written (msgLog s) (concat outs) (msgLog s')"
proof (induction env s inps outs s' rule: live_steps.induct)
  case (2 env s inp inps out outs s')
  then obtain t where "live_step env s inp out t" "live_steps env t inps outs s'" by auto
  with 2 show ?case by (auto simp: live_step_def intro: written_append)
qed (simp_all add: written_def)

end
