(* ===== verification/Sockets.thy ===== *)
theory Sockets
  imports NetworkServer NetworkClient
begin

text \<open>
  Setting connections up: the constructors and destructors of \<open>NetworkServer.cpp\<close> and
  \<open>NetworkClient.cpp\<close> and the address the clients take from their environment. What the system
  calls return is an argument; their effect is on the table of descriptors of the process. An
  operation that throws leaves a table behind too, so results are pairs.
\<close>

section \<open>The descriptors of a process\<close>

record descriptors =
  open_fds :: "int set"
  nonblocking :: "int set"
  watched :: "(int \<times> int) set" \<comment> \<open>an epoll instance and a descriptor it was told to watch\<close>

definition open_fd :: "int \<Rightarrow> descriptors \<Rightarrow> descriptors" where
  "open_fd fd k = k\<lparr>open_fds := insert fd (open_fds k)\<rparr>"

definition close_fd :: "int \<Rightarrow> descriptors \<Rightarrow> descriptors" where
  "close_fd fd k = \<lparr>open_fds = open_fds k - {fd}, nonblocking = nonblocking k - {fd},
     watched = Set.filter (\<lambda>(ep, d). ep \<noteq> fd \<and> d \<noteq> fd) (watched k)\<rparr>"

text \<open>Sequencing when an exception leaves its state behind.\<close>

definition after_ok :: "('e + 'a) \<times> 's \<Rightarrow> ('a \<Rightarrow> 's \<Rightarrow> ('e + 'b) \<times> 's) \<Rightarrow> ('e + 'b) \<times> 's" where
  "after_ok r f = (case r of (Inl e, k) \<Rightarrow> (Inl e, k) | (Inr x, k) \<Rightarrow> f x k)"

lemma after_ok_simps [simp]: "after_ok (Inl e, k) f = (Inl e, k)" "after_ok (Inr x, k) f = f x k"
  by (simp_all add: after_ok_def)

datatype setup_error =
    SocketFailed
  | BindFailed
  | ListenFailed
  | EpollCreateFailed
  | RegisterFailed
  | GetFlagsFailed
  | SetFlagsFailed
  | InvalidAddress
  | ConnectFailed

section \<open>Both classes: \<open>setNonBlocking\<close>\<close>

text \<open>\<open>getfl\<close> and \<open>setfl\<close> are the results of the two calls of \<open>fcntl\<close>.\<close>

definition setNonBlocking :: "int \<Rightarrow> int \<Rightarrow> int \<Rightarrow> descriptors \<Rightarrow> (setup_error + unit) \<times> descriptors" where
  "setNonBlocking getfl setfl fd k =
     (if getfl = -1 then (Inl GetFlagsFailed, k)
      else if setfl = -1 then (Inl SetFlagsFailed, k)
      else (Inr (), k\<lparr>nonblocking := insert fd (nonblocking k)\<rparr>))"

section \<open>\<open>NetworkServer\<close>\<close>

record server_calls =
  s_socket :: int
  s_bind :: "16 word \<Rightarrow> int" \<comment> \<open>depends on the port, in 16 bits as \<open>htons\<close> takes it\<close>
  s_listen :: int
  s_getfl :: int
  s_setfl :: int
  s_epoll_create :: int
  s_epoll_ctl :: int

definition registerFdWithEpoll :: "int \<Rightarrow> int \<Rightarrow> int \<Rightarrow> descriptors \<Rightarrow> (setup_error + unit) \<times> descriptors" where
  "registerFdWithEpoll epoll_ctl epollFd fd k =
     (if epoll_ctl = -1 then (Inl RegisterFailed, close_fd fd (close_fd epollFd k))
      else (Inr (), k\<lparr>watched := insert (epollFd, fd) (watched k)\<rparr>))"

definition startServer :: "server_calls \<Rightarrow> int \<Rightarrow> descriptors \<Rightarrow> (setup_error + (int \<times> int)) \<times> descriptors" where
  "startServer sys port k =
     (let fd = s_socket sys in
      if fd = -1 then (Inl SocketFailed, k)
      else let k = open_fd fd k in
      if s_bind sys (word_of_int port) < 0 then (Inl BindFailed, close_fd fd k)
      else if s_listen sys < 0 then (Inl ListenFailed, close_fd fd k)
      else after_ok (setNonBlocking (s_getfl sys) (s_setfl sys) fd k) (\<lambda>_ k.
        let epollFd = s_epoll_create sys in
        if epollFd = -1 then (Inl EpollCreateFailed, close_fd fd k)
        else after_ok (registerFdWithEpoll (s_epoll_ctl sys) epollFd fd (open_fd epollFd k)) (\<lambda>_ k.
          (Inr (fd, epollFd), k))))"

definition NetworkServer_create :: "server_calls \<Rightarrow> int \<Rightarrow> descriptors \<Rightarrow> (setup_error + NetworkServer) \<times> descriptors" where
  "NetworkServer_create sys port k =
     after_ok (startServer sys port k) (\<lambda>(fd, epollFd) k. (Inr (NetworkServer_new fd), k))"

section \<open>\<open>NetworkClient\<close>\<close>

text \<open>\<open>atoi\<close>: digits after white space and a sign, up to the first other character.\<close>

definition atoi :: "bytes \<Rightarrow> int" where
  "atoi s =
     (let s = dropWhile (\<lambda>c. c = 0x20 \<or> 9 \<le> c \<and> c \<le> 13) s;
          negative = (s \<noteq> [] \<and> hd s = 0x2D);
          s = (if s \<noteq> [] \<and> (hd s = 0x2B \<or> hd s = 0x2D) then tl s else s);
          n = fold (\<lambda>c n. 10 * n + (uint c - 0x30)) (takeWhile (\<lambda>c. 0x30 \<le> c \<and> c \<le> 0x39) s) 0
      in if negative then - n else n)"

text \<open>The argument is what \<open>getenv\<close> returned.\<close>

definition getServerIp :: "bytes option \<Rightarrow> bytes" where
  "getServerIp ip = (case ip of None \<Rightarrow> ascii ''127.0.0.1'' | Some s \<Rightarrow> s)"

definition getServerPort :: "bytes option \<Rightarrow> int" where
  "getServerPort port = (case port of None \<Rightarrow> SERVER_PORT | Some s \<Rightarrow> atoi s)"

record client_calls =
  c_socket :: int
  c_inet_pton :: "bytes \<Rightarrow> int"
  c_connect :: "bytes \<Rightarrow> 16 word \<Rightarrow> int"
  c_getfl :: int
  c_setfl :: int

definition connectToServer :: "client_calls \<Rightarrow> bytes \<Rightarrow> int \<Rightarrow> descriptors \<Rightarrow> (setup_error + int) \<times> descriptors" where
  "connectToServer sys host port k =
     (let fd = c_socket sys in
      if fd = -1 then (Inl SocketFailed, k)
      else let k = open_fd fd k in
      if c_inet_pton sys host \<le> 0 then (Inl InvalidAddress, close_fd fd k)
      else if c_connect sys host (word_of_int port) < 0 then (Inl ConnectFailed, close_fd fd k)
      else after_ok (setNonBlocking (c_getfl sys) (c_setfl sys) fd k) (\<lambda>_ k. (Inr fd, k)))"

definition NetworkClient_create :: "client_calls \<Rightarrow> bytes \<Rightarrow> int \<Rightarrow> descriptors \<Rightarrow> (setup_error + NetworkClient) \<times> descriptors" where
  "NetworkClient_create sys host port k =
     after_ok (connectToServer sys host port k) (\<lambda>fd k. (Inr (NetworkClient_new fd), k))"

definition NetworkClient_destroy :: "NetworkClient \<Rightarrow> descriptors \<Rightarrow> descriptors" where
  "NetworkClient_destroy c k = (if nc_serverFd c \<noteq> -1 then close_fd (nc_serverFd c) k else k)"

section \<open>What the constructors leave behind\<close>

text \<open>A new descriptor is one that was not open; one that is not open has no attributes.\<close>

definition table_ok :: "descriptors \<Rightarrow> bool" where
  "table_ok k \<longleftrightarrow> nonblocking k \<subseteq> open_fds k \<and> (\<forall>(ep, fd)\<in>watched k. ep \<in> open_fds k \<and> fd \<in> open_fds k)"

definition fresh_fd :: "int \<Rightarrow> descriptors \<Rightarrow> bool" where
  "fresh_fd fd k \<longleftrightarrow> fd \<noteq> -1 \<and> fd \<notin> open_fds k"

named_theorems fd_ops
lemmas [fd_ops] = open_fd_def close_fd_def setNonBlocking_def registerFdWithEpoll_def Let_def

lemma close_open: "table_ok k \<Longrightarrow> fresh_fd fd k \<Longrightarrow> close_fd fd (open_fd fd k) = k"
  by (cases k) (auto simp: fd_ops table_ok_def fresh_fd_def)

text \<open>
  A server that has started listens on a descriptor that does not block and that its epoll
  instance watches. One that has not started has left the table as it was, but for one case: when
  \<open>fcntl\<close> fails the exception is thrown with the socket still open.
\<close>

definition leaks :: "setup_error \<Rightarrow> bool" where
  "leaks e \<longleftrightarrow> e = GetFlagsFailed \<or> e = SetFlagsFailed"

lemma startServer_started:
  assumes "startServer sys port k = (Inr (fd, epollFd), k')"
  shows "k' = \<lparr>open_fds = {fd, epollFd} \<union> open_fds k, nonblocking = insert fd (nonblocking k),
     watched = insert (epollFd, fd) (watched k)\<rparr> \<and> fd \<noteq> -1 \<and> epollFd \<noteq> -1"
  using assms by (cases k) (auto simp: startServer_def fd_ops split: if_splits)

lemma startServer_throws:
  assumes "startServer sys port k = (Inl e, k')" and "table_ok k"
    and "s_socket sys \<noteq> -1 \<Longrightarrow> fresh_fd (s_socket sys) k"
    and "s_epoll_create sys \<noteq> -1 \<Longrightarrow> fresh_fd (s_epoll_create sys) (open_fd (s_socket sys) k)"
  shows "k' = (if leaks e then open_fd (s_socket sys) k else k)"
  using assms
  by (cases k) (auto simp: startServer_def fd_ops leaks_def table_ok_def fresh_fd_def split: if_splits)

lemma connectToServer_connected:
  assumes "connectToServer sys host port k = (Inr fd, k')"
  shows "k' = k\<lparr>open_fds := insert fd (open_fds k), nonblocking := insert fd (nonblocking k)\<rparr> \<and> fd \<noteq> -1"
  using assms by (cases k) (auto simp: connectToServer_def fd_ops split: if_splits)

lemma connectToServer_throws:
  assumes "connectToServer sys host port k = (Inl e, k')" and "table_ok k"
    and "c_socket sys \<noteq> -1 \<Longrightarrow> fresh_fd (c_socket sys) k"
  shows "k' = (if leaks e then open_fd (c_socket sys) k else k)"
  using assms close_open [of k "c_socket sys"]
  by (auto simp: connectToServer_def setNonBlocking_def Let_def leaks_def split: if_splits)

text \<open>A client that connected and is destroyed has closed what it opened.\<close>

lemma client_closes:
  assumes "NetworkClient_create sys host port k = (Inr c, k')" and "table_ok k"
    and "c_socket sys \<noteq> -1 \<Longrightarrow> fresh_fd (c_socket sys) k"
  shows "NetworkClient_destroy c k' = k"
proof -
  from assms(1) have conn: "connectToServer sys host port k = (Inr (nc_serverFd c), k')"
    by (auto simp: NetworkClient_create_def after_ok_def NetworkClient_new_def split: prod.splits sum.splits)
  then have "nc_serverFd c = c_socket sys"
    by (auto simp: connectToServer_def setNonBlocking_def Let_def split: if_splits)
  with connectToServer_connected [OF conn] assms(2,3) show ?thesis
    by (cases k) (auto simp: NetworkClient_destroy_def close_fd_def table_ok_def fresh_fd_def)
qed

text \<open>A port is cut to 16 bits.\<close>

lemma port_wraps: "connectToServer sys host (port + 65536) = connectToServer sys host port"
proof -
  have "(word_of_int (port + 65536) :: 16 word) = word_of_int port" by simp
  then show ?thesis by (simp only: connectToServer_def [abs_def])
qed

section \<open>The constructor of the server\<close>

text \<open>
  Setting the server up. If the constructor succeeds, the server has an open listening socket
  that does not block and is watched by an open epoll instance. If a system call fails, it throws
  and has closed what it opened, with one exception: when \<open>fcntl\<close> fails the socket stays open.
\<close>

theorem server_setup_exact:
  assumes "table_ok k" and "s_socket sys \<noteq> -1 \<longrightarrow> fresh_fd (s_socket sys) k"
    and "s_epoll_create sys \<noteq> -1 \<longrightarrow> fresh_fd (s_epoll_create sys) (open_fd (s_socket sys) k)"
  shows "case NetworkServer_create sys port k of
      (Inr net, k') \<Rightarrow> serverFd net \<in> open_fds k' \<and> serverFd net \<in> nonblocking k' \<and>
        (\<exists>ep. ep \<in> open_fds k' \<and> (ep, serverFd net) \<in> watched k')
    | (Inl e, k') \<Rightarrow> k' = (if e = GetFlagsFailed \<or> e = SetFlagsFailed then open_fd (s_socket sys) k else k)"
proof (cases "startServer sys port k")
  case (Pair r k')
  show ?thesis
  proof (cases r)
    case (Inl e)
    with Pair startServer_throws [of sys port k e k'] assms show ?thesis
      by (simp add: NetworkServer_create_def leaks_def)
  next
    case (Inr x)
    obtain fd ep where "x = (fd, ep)" by (cases x)
    with Pair Inr startServer_started [of sys port k fd ep k'] show ?thesis
      by (auto simp: NetworkServer_create_def NetworkServer_new_def)
  qed
qed

definition no_fds :: descriptors where
  "no_fds = \<lparr>open_fds = {}, nonblocking = {}, watched = {}\<rparr>"

definition refused_calls :: server_calls where
  "refused_calls = \<lparr>s_socket = 3, s_bind = (\<lambda>port. if port = 8170 then -1 else 0), s_listen = 0, s_getfl = 2, s_setfl = 0,
     s_epoll_create = 4, s_epoll_ctl = 0\<rparr>"

theorem server_setup_exact_witness:
  "NetworkServer_create refused_calls SERVER_PORT no_fds = (Inl BindFailed, no_fds)"
proof -
  have "fst (NetworkServer_create refused_calls SERVER_PORT no_fds) = Inl BindFailed"
    by (simp add: NetworkServer_create_def startServer_def refused_calls_def SERVER_PORT_def Let_def)
  then obtain k' where "NetworkServer_create refused_calls SERVER_PORT no_fds = (Inl BindFailed, k')"
    by (metis prod.collapse)
  with server_setup_exact [of no_fds refused_calls SERVER_PORT] show ?thesis
    by (simp add: table_ok_def fresh_fd_def no_fds_def refused_calls_def open_fd_def)
qed

end
