(* ===== verification/Server_Start.thy ===== *)
theory Server_Start
  imports Sockets SnakeServer
begin

text \<open>
  \<open>src/snake_server/main.cpp\<close> with the constructor chain it runs: choosing between a live run and a
  replay, reading the configuration, opening the log and the socket, and the loop. A replayed log
  is read as a whole before the new log is opened; \<open>main\<close> opens it first but keeps it open, so a
  replay of the file \<open>snake_server.bin\<close>, which the new log overwrites, is not covered.
\<close>

section \<open>The world the process starts in\<close>

record server_world =
  replay_env :: "bytes option" \<comment> \<open>\<open>getenv("SNAKE_REPLAY")\<close>\<close>
  read_file :: "bytes \<Rightarrow> bytes option" \<comment> \<open>the contents of a file that can be opened\<close>
  random_device :: u32
  log_opens :: bool \<comment> \<open>whether \<open>snake_server.bin\<close> can be opened for writing\<close>
  start_clock :: "int \<times> int" \<comment> \<open>the clock readings of the constructor of \<open>Timer\<close>\<close>
  server_calls_of :: server_calls
  passes :: "tick_input list"

datatype start_error =
    NoReplayFile
  | NoLogFile
  | NoNetwork setup_error
  | ServerThrows server_error

section \<open>\<open>main\<close>\<close>

text \<open>The constructor of \<open>MessageLogWriter\<close>: a file that is opened is emptied.\<close>

definition MessageLogWriter_new :: "bool \<Rightarrow> start_error + bytes" where
  "MessageLogWriter_new opened = (if \<not> opened then Inl NoLogFile else Inr [])"

definition replay_path :: "server_world \<Rightarrow> bytes option" where
  "replay_path w = (case replay_env w of None \<Rightarrow> None | Some p \<Rightarrow> if p = [] then None else Some p)"

definition open_replay :: "server_world \<Rightarrow> start_error + (MessageVariant option \<times> MessageLogReader option)" where
  "open_replay w =
     (case replay_path w of
        None \<Rightarrow> Inr (None, None)
      | Some p \<Rightarrow> (case read_file w p of
          None \<Rightarrow> Inl NoReplayFile
        | Some file \<Rightarrow>
            rbind (map_sum ServerThrows id (lift_log (log_first (MessageLogReader_new file))))
              (\<lambda>(firstMessage, reader). Inr (firstMessage, Some reader))))"

definition server_start :: "'g env \<Rightarrow> server_world \<Rightarrow> descriptors \<Rightarrow> start_error + 'g SnakeServer" where
  "server_start env w k =
     rbind (open_replay w) (\<lambda>(firstMessage, reader).
     rbind (map_sum ServerThrows id (initServerConfig (random_device w) firstMessage)) (\<lambda>cfg.
     let t = Timer_new (fst (start_clock w)) (snd (start_clock w)) in
     rbind (MessageLogWriter_new (log_opens w)) (\<lambda>log.
     rbind (map_sum NoNetwork id (fst (NetworkServer_create (server_calls_of w) (cfg_port cfg) k))) (\<lambda>net.
       Inr ((SnakeServer_new env cfg reader t net)\<lparr>msgLog := log\<rparr>)))))"

lemma SnakeServer_new_log [simp]: "(SnakeServer_new env cfg reader t net)\<lparr>msgLog := []\<rparr> = SnakeServer_new env cfg reader t net"
  by (simp add: SnakeServer_new_def)

definition server_main :: "'g env \<Rightarrow> server_world \<Rightarrow> descriptors \<Rightarrow> (start_error + 'g SnakeServer) option" where
  "server_main env w k =
     (case server_start env w k of
        Inl e \<Rightarrow> Some (Inl e)
      | Inr s \<Rightarrow> map_option (map_sum ServerThrows id) (run_server env (passes w) s))"

lemma map_sum_Inr: "map_sum f id r = Inr x \<longleftrightarrow> r = Inr x"
  by (cases r) simp_all

lemma server_main_Inr:
  "server_main env w k = Some (Inr s') \<longleftrightarrow>
     (\<exists>s. server_start env w k = Inr s \<and> run_server env (passes w) s = Some (Inr s'))"
  by (auto simp: server_main_def map_sum_Inr split: sum.splits)

text \<open>A live server starts with its random seed, an empty arena and a network without clients.\<close>

definition live_config :: "u32 \<Rightarrow> ServerConfig" where
  "live_config sd = \<lparr>cfg_port = SERVER_PORT, cfg_width = ARENA_WIDTH, cfg_height = ARENA_HEIGHT,
     cfg_seed = sd, cfg_movementFrequencyMs = MOVEMENT_FREQUENCY_MS,
     cfg_boostedMovementFrequencyMs = BOOSTED_MOVEMENT_FREQUENCY_MS,
     cfg_boostDurationMs = SPEED_BOOST_DURATION_MS\<rparr>"

lemma initServerConfig_live: "initServerConfig dev None = Inr (live_config dev)"
  by (simp add: initServerConfig_def live_config_def)

lemma initServerConfig_replay:
  "messageType (sc_hdr c) = mt_code SERVER_CONFIG \<Longrightarrow>
   initServerConfig dev (Some (VServerConfig c)) = Inr (live_config (sc_seed c))"
  by (simp add: initServerConfig_def live_config_def)

lemma server_start_eq:
  assumes "open_replay w = Inr (m, reader)" and "initServerConfig (random_device w) m = Inr (live_config sd)"
    and "log_opens w" and "startServer (server_calls_of w) SERVER_PORT k = (Inr (fd, ep), k')"
  shows "server_start env w k = Inr (SnakeServer_new env (live_config sd) reader
     (Timer_new (fst (start_clock w)) (snd (start_clock w))) (NetworkServer_new fd))"
  using assms by (simp add: server_start_def NetworkServer_create_def MessageLogWriter_new_def live_config_def)

lemma server_start_live:
  assumes "server_start env w k = Inr s" and "replay_path w = None"
  shows "\<exists>tm fd. s = SnakeServer_new env (live_config (random_device w)) None tm (NetworkServer_new fd)"
  using assms
  by (auto simp: server_start_def open_replay_def initServerConfig_live NetworkServer_create_def after_ok_def
      MessageLogWriter_new_def Let_def rbind_eq_Inr split: if_splits sum.splits prod.splits)

text \<open>Starting fails when, and as, the first of its steps fails.\<close>

lemma server_start_throws:
  "open_replay w = Inl e \<Longrightarrow> server_main env w k = Some (Inl e)"
  "open_replay w = Inr (None, r) \<Longrightarrow> \<not> log_opens w \<Longrightarrow> server_main env w k = Some (Inl NoLogFile)"
  "open_replay w = Inr (None, r) \<Longrightarrow> log_opens w \<Longrightarrow> fst (startServer (server_calls_of w) SERVER_PORT k) = Inl e' \<Longrightarrow>
     server_main env w k = Some (Inl (NoNetwork e'))"
  by (auto simp: server_main_def server_start_def initServerConfig_live live_config_def NetworkServer_create_def
      MessageLogWriter_new_def after_ok_def split: prod.splits sum.splits)

end
