(* ===== verification/Replay_Run.thy ===== *)
theory Replay_Run
  imports Replay Server_Start
begin

text \<open>
  The replaying server. \<open>lags\<close> relates a live server after some pass with the server that replays
  its log and has repeated the passes that wrote something; a silent live pass keeps it, a pass
  that wrote is repeated. At the end of the log both have written the same and are in the same game.
\<close>

section \<open>The relation between the two servers\<close>

definition lags :: "'g env \<Rightarrow> bytes \<Rightarrow> bytes \<Rightarrow> NetworkServer \<Rightarrow> MessageLogReader \<Rightarrow> int \<Rightarrow> 'g SnakeServer \<Rightarrow> 'g SnakeServer \<Rightarrow> bool" where
  "lags env pl pr n rd now s r \<longleftrightarrow> replayFile s = None \<and>
     (\<exists>tm g fm m oc x. r = s\<lparr>timer := tm, msgLog := pr @ x, replayFile := Some rd, network := n,
          gen := g, foodMap := fm, clientIdToPlayerMap := m, occupiedCellsBodies := oc\<rparr> \<and>
        msgLog s = pl @ x \<and> length oc = length (occupiedCellsBodies s) \<and>
        (\<forall>t\<ge>now. caught_up (movementFrequencyMs s) t m = caught_up (movementFrequencyMs s) t (clientIdToPlayerMap s))) \<and>
     (\<forall>u. replaceFood env s = Some u \<longrightarrow> replaceFood env r = Some (r\<lparr>gen := gen u, foodMap := foodMap u\<rparr>))"

lemma lagsE:
  assumes "lags env pl pr n rd now s r"
  obtains tm g fm m oc x where "r = s\<lparr>timer := tm, msgLog := pr @ x, replayFile := Some rd, network := n,
          gen := g, foodMap := fm, clientIdToPlayerMap := m, occupiedCellsBodies := oc\<rparr>"
    "msgLog s = pl @ x" "length oc = length (occupiedCellsBodies s)"
    "\<And>t. t \<ge> now \<Longrightarrow> caught_up (movementFrequencyMs s) t m = caught_up (movementFrequencyMs s) t (clientIdToPlayerMap s)"
    "replayFile s = None"
    "\<And>u. replaceFood env s = Some u \<Longrightarrow> replaceFood env r = Some (r\<lparr>gen := gen u, foodMap := foodMap u\<rparr>)"
  using assms unfolding lags_def by blast

lemma lagsI:
  assumes "r = s\<lparr>timer := tm, msgLog := pr @ x, replayFile := Some rd, network := n,
          gen := g, foodMap := fm, clientIdToPlayerMap := m, occupiedCellsBodies := oc\<rparr>"
    and "msgLog s = pl @ x" and "length oc = length (occupiedCellsBodies s)"
    and "\<And>t. t \<ge> now \<Longrightarrow> caught_up (movementFrequencyMs s) t m = caught_up (movementFrequencyMs s) t (clientIdToPlayerMap s)"
    and "replayFile s = None"
    and "\<And>u. replaceFood env s = Some u \<Longrightarrow> replaceFood env r = Some (r\<lparr>gen := gen u, foodMap := foodMap u\<rparr>)"
  shows "lags env pl pr n rd now s r"
  using assms unfolding lags_def by blast

lemma mirror_lags:
  assumes "mirror pl pr n rd s r" shows "lags env pl pr n rd now s r"
proof -
  from assms obtain a b x where r: "r = host n a b (pr @ x) (Some rd) s" "msgLog s = pl @ x" "replayFile s = None"
    unfolding mirror_def by blast
  then show ?thesis
    by (intro lagsI [where x = x and tm = "timer r" and g = "gen s" and fm = "foodMap s"
          and m = "clientIdToPlayerMap s" and oc = "occupiedCellsBodies s"] replaceFood_same)
      (simp_all, simp add: host_def)
qed

text \<open>Restocking food does not depend on clock and network.\<close>

lemma lags_food:
  assumes "lags env pl pr n rd now s r" and "replaceFood env (s\<lparr>timer := tm, network := net\<rparr>) = Some u"
  shows "replaceFood env r = Some (r\<lparr>gen := gen u, foodMap := foodMap u\<rparr>)"
proof -
  have "replaceFood env s = Some (s\<lparr>gen := gen u, foodMap := foodMap u\<rparr>)"
    by (rule replaceFood_same [OF assms(2)]) simp_all
  with assms(1) show ?thesis by (elim lagsE) force
qed

section \<open>A silent pass\<close>

lemma caught_up_step:
  assumes "\<not> (\<exists>(cid, p)\<in>set m. due u p)" and "currentTick (timer u) \<le> t"
  shows "caught_up (movementFrequencyMs u) t (map (step_entry u) m) = caught_up (movementFrequencyMs u) t m"
proof -
  have "expire_at (movementFrequencyMs u) t (step_player u p) = expire_at (movementFrequencyMs u) t p"
    if "(cid, p) \<in> set m" for cid p
  proof -
    have "\<not> due u p" using that assms(1) by auto
    then have "step_player u p = expire_at (movementFrequencyMs u) (currentTick (timer u)) p"
      by (simp add: step_player_def expire_def expire_at_def due_def Let_def)
    with assms(2) show ?thesis by (simp add: expire_at_later)
  qed
  then show ?thesis by (auto simp: caught_up_def step_entry_def)
qed

lemma lags_silent:
  assumes "lags env pl pr n rd now s r" and "live_step env s inp [] s'" and "now \<le> clock inp"
  shows "lags env pl pr n rd (clock inp) s' r"
proof -
  let ?tm = "Timer_tick (clock inp) (timer s)"
  from assms(2) obtain net u where
    u: "replaceFood env (s\<lparr>timer := ?tm, network := net\<rparr>) = Some u" "restocked (s\<lparr>timer := ?tm, network := net\<rparr>) u"
    and s': "s' = updated u" "\<not> (\<exists>(cid, p)\<in>set (clientIdToPlayerMap u). due u p)" "replayFile s' = None"
    and wr: "written (msgLog s) [] (msgLog s')"
    unfolding live_step_def by blast
  obtain g' fm' where uf: "u = s\<lparr>timer := ?tm, network := net, gen := g', foodMap := fm'\<rparr>"
    using u(2) unfolding restocked_def by blast
  from assms(1) obtain tm g fm m oc x where
    r: "r = s\<lparr>timer := tm, msgLog := pr @ x, replayFile := Some rd, network := n,
          gen := g, foodMap := fm, clientIdToPlayerMap := m, occupiedCellsBodies := oc\<rparr>"
    "msgLog s = pl @ x" "length oc = length (occupiedCellsBodies s)"
    "\<And>t. t \<ge> now \<Longrightarrow> caught_up (movementFrequencyMs s) t m = caught_up (movementFrequencyMs s) t (clientIdToPlayerMap s)"
    by (rule lagsE) blast
  have food: "replaceFood env r = Some (r\<lparr>gen := gen u, foodMap := foodMap u\<rparr>)"
    by (rule lags_food [OF assms(1) u(1)])
  have "replaceFood env s' = Some (s'\<lparr>gen := gen u, foodMap := foodMap u\<rparr>)"
    by (rule replaceFood_same [OF replaceFood_done [OF u(1)]]) (simp_all add: s'(1) updated_def Let_def)
  moreover have "s'\<lparr>gen := gen u, foodMap := foodMap u\<rparr> = s'" by (simp add: s'(1) updated_def Let_def)
  ultimately have done': "replaceFood env s' = Some s'" by simp
  show ?thesis
  proof (rule lagsI [where x = x and tm = tm and g = g and fm = fm and m = m and oc = oc])
    show "r = s'\<lparr>timer := tm, msgLog := pr @ x, replayFile := Some rd, network := n,
          gen := g, foodMap := fm, clientIdToPlayerMap := m, occupiedCellsBodies := oc\<rparr>"
      by (simp add: r(1) s'(1) updated_def Let_def uf)
    show "msgLog s' = pl @ x" using wr r(2) by (simp add: written_def)
    show "length oc = length (occupiedCellsBodies s')" using r(3) by (simp add: s'(1) updated_def Let_def uf length_fold_bump)
    show "caught_up (movementFrequencyMs s') t m = caught_up (movementFrequencyMs s') t (clientIdToPlayerMap s')"
      if "clock inp \<le> t" for t
    proof -
      have "caught_up (movementFrequencyMs u) t (map (step_entry u) (clientIdToPlayerMap u)) =
          caught_up (movementFrequencyMs u) t (clientIdToPlayerMap u)"
        using that by (intro caught_up_step s'(2)) (simp add: uf)
      with r(4) [of t] that assms(3) show ?thesis by (simp add: s'(1) updated_def Let_def uf)
    qed
    show "replaceFood env r = Some (r\<lparr>gen := gen u', foodMap := foodMap u'\<rparr>)" if "replaceFood env s' = Some u'" for u'
      using that food done' by (simp add: s'(1) updated_def Let_def)
  qed (rule s'(3))
qed

section \<open>A pass that wrote is repeated\<close>

lemma setTicks:
  assumes "ms \<noteq> []" and "\<forall>m\<in>set ms. transact m = now"
  shows "fold (\<lambda>m. Timer_setTick (transact m)) ms tm = tm\<lparr>currentGameTick := now\<rparr>"
  using assms
proof (induction ms arbitrary: tm)
  case (Cons m ms)
  then show ?case by (cases "ms = []") (simp_all add: Timer_setTick_def)
qed simp

lemma tick_setTick:
  "(Timer_tick now t)\<lparr>previousStatTick := previousStatTick tm, engineLoopCounter := engineLoopCounter tm\<rparr> =
   tm\<lparr>currentGameTick := now\<rparr>"
  by (cases tm) (simp add: Timer_tick_def Let_def)

lemma drain_nothing: "fdsToDisconnect n = [] \<Longrightarrow> drainDisconnects n = Inr ([], n)"
  by (cases n) (simp add: drainDisconnects_def)

lemma replay_poll:
  assumes "nextBatch rd = Inr (out, rd')" and "out \<noteq> []" and "\<forall>m\<in>set out. transact m = now"
    and "replayFile r = Some rd" and "fdsToDisconnect (network r) = []"
  shows "pollMessages env rinp r = Inr (Some (filter is_input_message out),
     r\<lparr>replayFile := Some rd', timer := (timer r)\<lparr>currentGameTick := now\<rparr>\<rparr>)"
  using assms by (cases r) (simp add: pollMessages_def add_disconnects_def drain_nothing setTicks)

lemma replay_pass:
  assumes "lags env pl pr n rd now s r" and "live_step env s inp out s'" and "now \<le> clock inp"
    and "out \<noteq> []" and "nextBatch rd = Inr (out, rd')" and "\<forall>m\<in>set out. transact m = clock inp"
    and "fdsToDisconnect n = []"
  shows "\<exists>r'. run_pass env rinp r = Some (Inr (True, r')) \<and> lags env pl pr n rd' (clock inp) s' r'"
proof -
  let ?tm = "Timer_tick (clock inp) (timer s)"
  from assms(2) obtain net ms u where
    u: "replaceFood env (s\<lparr>timer := ?tm, network := net\<rparr>) = Some u" "restocked (s\<lparr>timer := ?tm, network := net\<rparr>) u"
    and af: "after_food env (send_result inp) ms u = Inr s'" and ms: "inputs_of out = map unstamped ms"
    and mid: "\<And>b t. rfold (dispatch env (send_result inp)) ms (False, u) = Inr (b, t) \<Longrightarrow> engine_inv t"
    unfolding live_step_def by blast
  obtain g' fm' where uf: "u = s\<lparr>timer := ?tm, network := net, gen := g', foodMap := fm'\<rparr>"
    using u(2) unfolding restocked_def by blast
  from assms(1) obtain tm g fm m oc x where
    r: "r = s\<lparr>timer := tm, msgLog := pr @ x, replayFile := Some rd, network := n,
          gen := g, foodMap := fm, clientIdToPlayerMap := m, occupiedCellsBodies := oc\<rparr>"
    "msgLog s = pl @ x" "length oc = length (occupiedCellsBodies s)"
    "\<And>t. t \<ge> now \<Longrightarrow> caught_up (movementFrequencyMs s) t m = caught_up (movementFrequencyMs s) t (clientIdToPlayerMap s)"
    "replayFile s = None"
    by (rule lagsE) blast
  let ?r = "r\<lparr>replayFile := Some rd', timer := (timer r)\<lparr>currentGameTick := clock inp\<rparr>\<rparr>"
  let ?v = "?r\<lparr>gen := gen u, foodMap := foodMap u\<rparr>"
  have poll: "pollMessages env rinp r = Inr (Some (filter is_input_message out), ?r)"
    using assms(5,4,6) by (rule replay_poll) (simp_all add: r(1) assms(7))
  have food: "replaceFood env ?r = Some ?v"
    using replaceFood_same [OF lags_food [OF assms(1) u(1)], of ?r] by simp
  have tw: "twins pl pr n rd' u ?v"
  proof (rule twinsI [where a = "previousStatTick tm" and b = "engineLoopCounter tm" and x = x and m = m and oc = oc])
    show "?v = host n (previousStatTick tm) (engineLoopCounter tm) (pr @ x) (Some rd')
        (u\<lparr>clientIdToPlayerMap := m, occupiedCellsBodies := oc\<rparr>)"
      by (simp add: r(1) uf host_def tick_setTick)
  qed (use r(2-5) assms(3) in \<open>simp_all add: uf\<close>)
  have "\<exists>v'. after_food env (send_result rinp) (filter is_input_message out) ?v = Inr v' \<and> mirror pl pr n rd' s' v'"
    by (rule after_food_twins [OF tw af]) (use ms in \<open>simp add: inputs_of_def\<close>, rule mid)
  then obtain v' where "after_food env (send_result rinp) (filter is_input_message out) ?v = Inr v'"
    and "mirror pl pr n rd' s' v'" by blast
  with poll food mirror_lags [of pl pr n rd' s' v'] show ?thesis
    by (intro exI [of _ v']) (simp add: run_pass_def)
qed

section \<open>Replaying a log\<close>

lemma replay_end:
  assumes "replayFile r = Some rd" and "holds rd []"
  shows "run_pass env rinp r = Some (Inr (False, r\<lparr>replayFile := None\<rparr>))"
  using holds_nil_nextBatch [OF assms(2)] assms(1) by (auto simp: run_pass_def pollMessages_def)

lemma replay_loop:
  assumes "live_steps env s inps outs s'" and "lags env pl pr n rd now s r"
    and "holds rd (concat outs)" and "\<forall>m\<in>set (concat outs). loggable m"
    and "list_all2 (\<lambda>t ms. \<forall>m\<in>set ms. transact m = t) (map clock inps) outs"
    and "sorted_wrt (<) (map clock inps)" and "\<forall>t\<in>set (map clock inps). now \<le> t \<and> 0 < t"
    and "fdsToDisconnect n = []" and "length inps < length rinps"
  shows "\<exists>r' rd' now'. run_loop env rinps r = Some (Inr (r'\<lparr>replayFile := None\<rparr>)) \<and>
     lags env pl pr n rd' now' s' r'"
  using assms
proof (induction env s inps outs s' arbitrary: r rd now rinps rule: live_steps.induct)
  case (1 env s s')
  then obtain rinp rest where rinps: "rinps = rinp # rest" by (cases rinps) auto
  from "1.prems"(2) have "replayFile r = Some rd" by (elim lagsE) simp
  with "1.prems" replay_end [of r rd env rinp] show ?case
    by (intro exI [of _ r] exI [of _ rd] exI [of _ now]) (simp add: rinps)
next
  case (2 env s inp inps out outs s')
  from "2.prems"(1) obtain t where t: "live_step env s inp out t" "live_steps env t inps outs s'" by auto
  have later: "\<forall>t\<in>set (map clock inps). clock inp \<le> t \<and> 0 < t" and now: "now \<le> clock inp"
    using "2.prems"(6,7) by (auto intro: less_imp_le)
  have times: "\<forall>m\<in>set out. transact m = clock inp"
    "list_all2 (\<lambda>t ms. \<forall>m\<in>set ms. transact m = t) (map clock inps) outs" "sorted_wrt (<) (map clock inps)"
    using "2.prems"(5,6) by simp_all
  have loggable: "\<forall>m\<in>set (concat outs). loggable m" using "2.prems"(4) by simp
  show ?case
  proof (cases out)
    case Nil
    have "lags env pl pr n rd (clock inp) t r" using "2.prems"(2) t(1) now unfolding Nil by (rule lags_silent)
    moreover have "holds rd (concat outs)" using "2.prems"(3) Nil by simp
    ultimately show ?thesis
      using "2.IH" [OF t(2) _ _ loggable times(2,3) later "2.prems"(8), of rd r rinps] "2.prems"(9) by simp
  next
    case (Cons m ms)
    obtain rinp rest where rinps: "rinps = rinp # rest" using "2.prems"(9) by (cases rinps) auto
    have same: "transact m = clock inp" using times(1) Cons by simp
    have "times_ok (m # (ms @ concat outs))"
      using times_ok_concat [OF "2.prems"(5,6)] "2.prems"(7) Cons by simp
    with "2.prems"(3,4) Cons obtain rd' where
      "nextBatch rd = Inr (takeWhile (\<lambda>x. transact x = clock inp) (out @ concat outs), rd')"
      "holds rd' (dropWhile (\<lambda>x. transact x = clock inp) (out @ concat outs))"
      using holds_nextBatch [of rd m "ms @ concat outs"] same by auto
    moreover have "\<forall>t'\<in>set (map clock inps). clock inp < t'" using "2.prems"(6) by simp
    ultimately have rd': "nextBatch rd = Inr (out, rd')" "holds rd' (concat outs)"
      using first_run [OF times(1,2)] by simp_all
    from replay_pass [OF "2.prems"(2) t(1) now _ rd'(1) times(1) "2.prems"(8)] Cons obtain r1 where
      r1: "run_pass env rinp r = Some (Inr (True, r1))" "lags env pl pr n rd' (clock inp) t r1" by blast
    from "2.IH" [OF t(2) r1(2) rd'(2) loggable times(2,3) later "2.prems"(8), of rest] "2.prems"(9) r1(1)
    show ?thesis by (simp add: rinps)
  qed
qed simp_all

section \<open>From start to end\<close>

text \<open>The configuration that a server with the settings \<open>cfg\<close> writes first.\<close>

definition config_record :: "ServerConfig \<Rightarrow> Header \<Rightarrow> ServerConfigMsg" where
  "config_record cfg h =
     \<lparr>sc_hdr = h, sc_width = word_of_int (cfg_width cfg), sc_height = word_of_int (cfg_height cfg),
      sc_seed = cfg_seed cfg, sc_minFoodInArena = of_nat MIN_FOOD_IN_ARENA,
      sc_foodSpawnFromBodySegmentProbability = word_of_int FOOD_SPAWN_FROM_BODY_SEGMENT_PROBABILITY,
      sc_speedBoostProbability = word_of_int SPEED_BOOST_PROBABILITY, sc_speedBoostRatio = SPEED_BOOST_RATIO,
      sc_movementFrequencyMs = word_of_int (cfg_movementFrequencyMs cfg),
      sc_boostedMovementFrequencyMs = word_of_int (cfg_boostedMovementFrequencyMs cfg),
      sc_boostDurationMs = word_of_int (cfg_boostDurationMs cfg)\<rparr>"

lemma recordServerConfig_new:
  fixes env :: "'g env"
  defines "h tm \<equiv> (header_of SERVER_CONFIG (-1))\<lparr>sequence := 0, transactTime := currentTickAsNanos tm\<rparr>"
  shows "recordServerConfig (SnakeServer_new env cfg rf tm n) = Inr ((SnakeServer_new env cfg rf tm n)
     \<lparr>currentSequence := 1, msgLog := log_write [] (encode (VServerConfig (config_record cfg (h tm))))\<rparr>)"
  by (simp add: recordServerConfig_def stampMessage_def log_message_def stamp_def SnakeServer_new_def Let_def
      config_record_def h_def serialise_config del: serialise.simps)

lemma new_server_inv: "server_inv (SnakeServer_new env (live_config sd) None tm (NetworkServer_new fd))"
  by (simp add: server_inv_def engine_inv_def engine_wf_def net_wf_new short_name_def SnakeServer_new_def
      live_config_def ARENA_WIDTH_def ARENA_HEIGHT_def MOVEMENT_FREQUENCY_MS_def)
    (simp add: NetworkServer_new_def um_keys_def)

lemma buildGameState_caught_up:
  "buildGameState (s\<lparr>clientIdToPlayerMap := caught_up f now m\<rparr>) = buildGameState (s\<lparr>clientIdToPlayerMap := m\<rparr>)"
  by (simp add: buildGameState_def caught_up_def case_prod_unfold comp_def)

text \<open>After restocking food the two servers broadcast the same game.\<close>

lemma lags_game:
  assumes "lags env pl pr n rd now s r" and "replaceFood env s = Some u"
  shows "\<exists>v. replaceFood env (r\<lparr>replayFile := None\<rparr>) = Some v \<and> buildGameState v = buildGameState u"
proof -
  from assms(1) obtain tm g fm m oc x where
    r: "r = s\<lparr>timer := tm, msgLog := pr @ x, replayFile := Some rd, network := n,
          gen := g, foodMap := fm, clientIdToPlayerMap := m, occupiedCellsBodies := oc\<rparr>"
    and m: "\<And>t. t \<ge> now \<Longrightarrow> caught_up (movementFrequencyMs s) t m = caught_up (movementFrequencyMs s) t (clientIdToPlayerMap s)"
    and food: "\<And>u. replaceFood env s = Some u \<Longrightarrow> replaceFood env r = Some (r\<lparr>gen := gen u, foodMap := foodMap u\<rparr>)"
    by (rule lagsE) blast
  let ?r = "r\<lparr>replayFile := None\<rparr>"
  let ?v = "?r\<lparr>gen := gen u, foodMap := foodMap u\<rparr>"
  have v: "replaceFood env ?r = Some ?v"
    using replaceFood_same [OF food [OF assms(2)], of ?r] by simp
  have same: "replaceFood env s = Some (s\<lparr>gen := gen u, foodMap := foodMap u\<rparr>)"
    by (rule replaceFood_same [OF assms(2)]) simp_all
  with assms(2) have "u = s\<lparr>gen := gen u, foodMap := foodMap u\<rparr>" by simp
  then obtain g' fm' where u: "u = s\<lparr>gen := g', foodMap := fm'\<rparr>" by blast
  have "buildGameState ?v = buildGameState (u\<lparr>clientIdToPlayerMap := m\<rparr>)"
    by (simp add: buildGameState_def r u)
  also have "\<dots> = buildGameState (u\<lparr>clientIdToPlayerMap := clientIdToPlayerMap u\<rparr>)"
  proof -
    let ?up = "caught_up (movementFrequencyMs s) now"
    have "buildGameState (u\<lparr>clientIdToPlayerMap := ?up m\<rparr>) = buildGameState (u\<lparr>clientIdToPlayerMap := ?up (clientIdToPlayerMap u)\<rparr>)"
      by (simp add: m u)
    then show ?thesis by (simp only: buildGameState_caught_up)
  qed
  finally show ?thesis using v by simp
qed

lemma written_same:
  assumes "written pl ms (pl @ x)" shows "written pr ms (pr @ x)"
proof -
  from assms obtain bss where bss: "map serialise ms = map Inr bss" "pl @ x = fold (\<lambda>bs out. log_write out bs) bss pl"
    unfolding written_def by blast
  have "fold (\<lambda>bs out. log_write out bs) bss (a @ b) = a @ fold (\<lambda>bs out. log_write out bs) bss b" for a b
    by (induction bss arbitrary: b) (simp_all add: log_write_append)
  then have from_nil: "fold (\<lambda>bs out. log_write out bs) bss a = a @ fold (\<lambda>bs out. log_write out bs) bss []" for a
    by (metis append_Nil2)
  from bss(2) have "x = fold (\<lambda>bs out. log_write out bs) bss []" unfolding from_nil [of pl] by simp
  then have "fold (\<lambda>bs out. log_write out bs) bss pr = pr @ x" unfolding from_nil [of pr] by simp
  with bss(1) show ?thesis unfolding written_def by (intro exI [of _ bss]) simp
qed

abbreviation fresh_server :: "'g env \<Rightarrow> u32 \<Rightarrow> MessageLogReader option \<Rightarrow> Timer \<Rightarrow> int \<Rightarrow> 'g SnakeServer" where
  "fresh_server env sd rf tm fd \<equiv> SnakeServer_new env (live_config sd) rf tm (NetworkServer_new fd)"

abbreviation first_record :: "u32 \<Rightarrow> Timer \<Rightarrow> ServerConfigMsg" where
  "first_record sd tm \<equiv> config_record (live_config sd)
     ((header_of SERVER_CONFIG (-1))\<lparr>sequence := 0, transactTime := currentTickAsNanos tm\<rparr>)"

abbreviation started :: "'g env \<Rightarrow> u32 \<Rightarrow> MessageLogReader option \<Rightarrow> Timer \<Rightarrow> int \<Rightarrow> 'g SnakeServer" where
  "started env sd rf tm fd \<equiv> (fresh_server env sd rf tm fd)
     \<lparr>currentSequence := 1, msgLog := log_write [] (encode (VServerConfig (first_record sd tm)))\<rparr>"

lemma started_size:
  "width (started env sd rf tm fd) = ARENA_WIDTH" "height (started env sd rf tm fd) = ARENA_HEIGHT"
  by (simp_all add: SnakeServer_new_def live_config_def)

lemma started_written: "written [] [VServerConfig (first_record sd tm)] (msgLog (started env sd rf tm fd))"
  unfolding written_def
  by (rule exI [of _ "[encode (VServerConfig (first_record sd tm))]"]) (simp add: serialise_config del: serialise.simps)

lemma live_run_of:
  assumes run: "run_server env inps (fresh_server env sd None tm fd) = Some (Inr s')"
    and ok: "\<And>t. recordServerConfig (fresh_server env sd None tm fd) = Inr t \<Longrightarrow> ticks_ok env t inps \<and> inputs_only env t inps"
    and fair: "draws_escape env ARENA_WIDTH ARENA_HEIGHT"
    and clocks: "\<forall>inp\<in>set inps. 0 < clock inp \<and> clock inp < 2 ^ 63"
  shows "\<exists>outs u. live_steps env (started env sd None tm fd) inps outs s' \<and> replaceFood env s' = Some u \<and>
     written [] (VServerConfig (first_record sd tm) # concat outs) (msgLog s') \<and>
     list_all2 (\<lambda>t ms. \<forall>m\<in>set ms. transact m = t) (map clock inps) outs \<and>
     (\<forall>m\<in>set (VServerConfig (first_record sd tm) # concat outs). shaped m)"
proof -
  let ?t = "started env sd None tm fd"
  have start: "recordServerConfig (fresh_server env sd None tm fd) = Inr ?t" by (rule recordServerConfig_new)
  from recordServerConfig_total [OF new_server_inv [of env sd tm fd]] have inv: "server_inv ?t"
    unfolding start by auto
  have fair_t: "draws_escape env (width ?t) (height ?t)" unfolding started_size by (rule fair)
  have "ticks_ok env ?t inps" "inputs_only env ?t inps" using ok [OF start] by blast+
  from live_run [OF inv this(1) fair_t this(2)] obtain outs s1 where
    s1: "run_loop env inps ?t = Some (Inr s1)" and live: "live_steps env ?t inps outs s1" "server_inv s1"
      "width s1 = width ?t" "height s1 = height ?t" by blast
  have "s1 = s'" using run s1 by (simp add: run_server_def start)
  note live = live [unfolded this]
  from live_steps_log [OF live(1)] have
    ticks: "list_all2 (\<lambda>inp ms. at_tick (clock inp) ms) inps outs" and wr: "written (msgLog ?t) (concat outs) (msgLog s')"
    by blast+
  have "written [] (VServerConfig (first_record sd tm) # concat outs) (msgLog s')"
    using written_append [OF started_written wr] by simp
  moreover have "list_all2 (\<lambda>t ms. \<forall>m\<in>set ms. transact m = t) (map clock inps) outs"
    using ticks clocks transact_at_tick by (auto simp: list_all2_conv_all_nth)
  moreover have "shaped (VServerConfig (first_record sd tm))"
    by (simp add: shaped_def config_record_def header_of_def)
  moreover have "\<forall>m\<in>set (concat outs). shaped m"
    using ticks by (auto simp: list_all2_conv_all_nth at_tick_def in_set_conv_nth) (metis nth_mem)
  moreover have "\<exists>u. replaceFood env s' = Some u"
    using replaceFood_total [of env s'] fair_t live(3,4) server_invD(1) [OF live(2)] by auto
  ultimately show ?thesis using live(1) by auto
qed

lemma replayed_run:
  assumes live: "live_steps env (started env sd None tm fd) inps outs s'" and food: "replaceFood env s' = Some u"
    and times: "list_all2 (\<lambda>t ms. \<forall>m\<in>set ms. transact m = t) (map clock inps) outs"
    and sorted: "sorted_wrt (<) (map clock inps)" and clocks: "\<forall>inp\<in>set inps. 0 < clock inp \<and> clock inp < 2 ^ 63"
    and rd: "holds rd (concat outs)" "\<forall>m\<in>set (concat outs). loggable m" and len: "length inps < length rinps"
  shows "\<exists>r'. run_server env rinps (fresh_server env sd (Some rd) tm' fd') = Some (Inr r') \<and> \<not> isInReplay r' \<and>
     written [] (VServerConfig (first_record sd tm') # concat outs) (msgLog r') \<and>
     (\<exists>v. replaceFood env r' = Some v \<and> buildGameState v = buildGameState u)"
proof -
  let ?s = "started env sd None tm fd" and ?r = "started env sd (Some rd) tm' fd'" and ?n = "NetworkServer_new fd'"
  have "lags env (msgLog ?s) (msgLog ?r) ?n rd 0 ?s ?r"
    by (rule lagsI [where tm = tm' and x = "[]" and g = "gen ?s" and fm = "foodMap ?s"
          and m = "clientIdToPlayerMap ?s" and oc = "occupiedCellsBodies ?s"])
      (simp_all add: SnakeServer_new_def replaceFood_same)
  moreover have "\<forall>t\<in>set (map clock inps). 0 \<le> t \<and> 0 < t" using clocks by auto
  moreover have "fdsToDisconnect ?n = []" by (simp add: NetworkServer_new_def)
  ultimately obtain r rd' now where
    r: "run_loop env rinps ?r = Some (Inr (r\<lparr>replayFile := None\<rparr>))"
      "lags env (msgLog ?s) (msgLog ?r) ?n rd' now s' r"
    using replay_loop [OF live _ rd times sorted _ _ len] by blast
  have "recordServerConfig (fresh_server env sd (Some rd) tm' fd') = Inr ?r" by (rule recordServerConfig_new)
  with r(1) have "run_server env rinps (fresh_server env sd (Some rd) tm' fd') = Some (Inr (r\<lparr>replayFile := None\<rparr>))"
    by (simp add: run_server_def)
  moreover have "written [] (VServerConfig (first_record sd tm') # concat outs) (msgLog (r\<lparr>replayFile := None\<rparr>))"
  proof -
    from r(2) obtain x where x: "msgLog s' = msgLog ?s @ x" "msgLog r = msgLog ?r @ x"
      by (elim lagsE) simp
    have "written (msgLog ?s) (concat outs) (msgLog ?s @ x)" using live_steps_log [OF live] x(1) by simp
    then have "written (msgLog ?r) (concat outs) (msgLog r)" unfolding x(2) by (rule written_same)
    with written_append [OF started_written] show ?thesis by fastforce
  qed
  ultimately show ?thesis using lags_game [OF r(2) food] by (auto simp: isInReplay_def)
qed

section \<open>Properties\<close>

text \<open>
  C7: Replaying a recording reproduces it. Let a live server run through any sound passes at
  strictly increasing clock readings, with clients that send what clients may send, and let the
  server be started again on the log it has written (with the same generator, hash order and
  compiler, and a socket it can listen on). If no record has 4 GiB, the replay runs to the end of
  the log without an exception and, but for the time stamp in the first record, writes the same
  messages, byte for byte, and ends in the same game: after restocking food both would broadcast
  the same game state.
\<close>

theorem replay_reproduces_run:
  assumes "server_main env w k = Some (Inr s')" and "replay_path w = None"
    and "\<forall>s t. server_start env w k = Inr s \<longrightarrow> recordServerConfig s = Inr t \<longrightarrow>
      ticks_ok env t (passes w) \<and> inputs_only env t (passes w)"
    and "draws_escape env ARENA_WIDTH ARENA_HEIGHT"
    and "sorted_wrt (<) (map clock (passes w))" and "\<forall>inp\<in>set (passes w). 0 < clock inp \<and> clock inp < 2 ^ 63"
    and "replay_path w' = Some p" and "read_file w' p = Some (msgLog s')" and "log_opens w'"
    and "startServer (server_calls_of w') SERVER_PORT k' = (Inr (fd, ep), k'')"
    and "length (passes w) < length (passes w')"
  shows "\<exists>c c' ms. written [] (VServerConfig c # ms) (msgLog s') \<and>
     unstamped (VServerConfig c') = unstamped (VServerConfig c) \<and>
     ((\<forall>m\<in>set (VServerConfig c # ms). length (encode m) < 2 ^ 32) \<longrightarrow>
       (\<exists>r' u u'. server_main env w' k' = Some (Inr r') \<and> \<not> isInReplay r' \<and>
          written [] (VServerConfig c' # ms) (msgLog r') \<and>
          replaceFood env s' = Some u \<and> replaceFood env r' = Some u' \<and> buildGameState u' = buildGameState u))"
proof -
  let ?sd = "random_device w" and ?tm' = "Timer_new (fst (start_clock w')) (snd (start_clock w'))"
  from assms(1) obtain s0 where s0: "server_start env w k = Inr s0" "run_server env (passes w) s0 = Some (Inr s')"
    by (auto simp: server_main_Inr)
  from server_start_live [OF s0(1) assms(2)] obtain tm fd0 where fresh: "s0 = fresh_server env ?sd None tm fd0" by blast
  let ?c = "first_record ?sd tm"
  from live_run_of [OF s0(2) [unfolded fresh] assms(3) [rule_format, OF s0(1), unfolded fresh] assms(4,6)]
  obtain outs u where live: "live_steps env (started env ?sd None tm fd0) (passes w) outs s'" "replaceFood env s' = Some u"
    "written [] (VServerConfig ?c # concat outs) (msgLog s')"
    "list_all2 (\<lambda>t ms. \<forall>m\<in>set ms. transact m = t) (map clock (passes w)) outs"
    "\<forall>m\<in>set (VServerConfig ?c # concat outs). shaped m" by blast
  have "\<exists>r' u'. server_main env w' k' = Some (Inr r') \<and> \<not> isInReplay r' \<and>
      written [] (VServerConfig (first_record ?sd ?tm') # concat outs) (msgLog r') \<and>
      replaceFood env r' = Some u' \<and> buildGameState u' = buildGameState u"
    if len: "\<forall>m\<in>set (VServerConfig ?c # concat outs). length (encode m) < 2 ^ 32"
  proof -
    from len live(5) have lg: "\<forall>m\<in>set (VServerConfig ?c # concat outs). loggable m" by (auto intro: shaped_loggable)
    from reader_of_log [OF lg] obtain rd where
      rd: "log_first (MessageLogReader_new (msgLog s')) = Inr (Some (VServerConfig ?c), rd)" "holds rd (concat outs)"
      unfolding written_log_of [OF live(3) lg] by blast
    have "open_replay w' = Inr (Some (VServerConfig ?c), Some rd)"
      using assms(7,8) rd(1) by (simp add: open_replay_def)
    moreover have "initServerConfig dev (Some (VServerConfig ?c)) = Inr (live_config ?sd)" for dev
      by (subst initServerConfig_replay) (simp_all add: config_record_def header_of_def live_config_def)
    ultimately have "server_start env w' k' = Inr (fresh_server env ?sd (Some rd) ?tm' fd)"
      using assms(9,10) by (rule server_start_eq)
    moreover from lg have "\<forall>m\<in>set (concat outs). loggable m" by simp
    ultimately show ?thesis
      using replayed_run [OF live(1,2,4) assms(5,6) rd(2) _ assms(11), of ?tm' fd] by (auto simp: server_main_Inr)
  qed
  moreover have "unstamped (VServerConfig (first_record ?sd ?tm')) = unstamped (VServerConfig ?c)"
    by (simp add: unstamped_def config_record_def)
  ultimately show ?thesis using live(2,3) by blast
qed

definition demo_world :: server_world where
  "demo_world = \<lparr>replay_env = None, read_file = (\<lambda>_. None), random_device = 7, log_opens = True,
     start_clock = (5, 5), server_calls_of = \<lparr>s_socket = 3, s_bind = (\<lambda>_. 0), s_listen = 0, s_getfl = 2,
       s_setfl = 0, s_epoll_create = 4, s_epoll_ctl = 0\<rparr>, passes = [quiet []]\<rparr>"

definition replay_world :: "bytes \<Rightarrow> server_world" where
  "replay_world file = demo_world\<lparr>replay_env := Some [0x72], read_file := (\<lambda>p. if p = [0x72] then Some file else None),
     passes := [quiet [], quiet []]\<rparr>"

lemma demo_startServer: "\<exists>k'. startServer (server_calls_of (replay_world file)) SERVER_PORT no_fds = (Inr (3, 4), k')"
  "\<exists>k'. startServer (server_calls_of demo_world) SERVER_PORT no_fds = (Inr (3, 4), k')"
  by (simp_all add: startServer_def replay_world_def demo_world_def setNonBlocking_def registerFdWithEpoll_def Let_def)

lemma demo_server_start: "server_start demo_env demo_world no_fds = Inr demo_start"
proof -
  from demo_startServer(2) obtain k' where k': "startServer (server_calls_of demo_world) SERVER_PORT no_fds = (Inr (3, 4), k')"
    by blast
  have "open_replay demo_world = Inr (None, None)" by (simp add: open_replay_def replay_path_def demo_world_def)
  from server_start_eq [OF this initServerConfig_live _ k'] show ?thesis
    by (simp add: demo_start_def initServerConfig_live demo_world_def)
qed

theorem replay_reproduces_run_witness:
  "\<exists>s' r'. server_main demo_env demo_world no_fds = Some (Inr s') \<and>
     server_main demo_env (replay_world (msgLog s')) no_fds = Some (Inr r') \<and> \<not> isInReplay r'"
proof -
  obtain s' where s': "run_server demo_env [quiet []] demo_start = Some (Inr s')" using demo_run by blast
  have sel: "passes demo_world = [quiet []]" "passes (replay_world f) = [quiet [], quiet []]"
    "replay_path demo_world = None" "replay_path (replay_world f) = Some [0x72]"
    "read_file (replay_world f) [0x72] = Some f" "log_opens (replay_world f)" for f
    by (simp_all add: demo_world_def replay_world_def replay_path_def)
  from s' have main: "server_main demo_env demo_world no_fds = Some (Inr s')"
    by (auto simp: server_main_Inr demo_server_start sel)
  obtain k' where k': "startServer (server_calls_of (replay_world (msgLog s'))) SERVER_PORT no_fds = (Inr (3, 4), k')"
    using demo_startServer(1) by blast
  have ok: "ticks_ok demo_env t (passes demo_world) \<and> inputs_only demo_env t (passes demo_world)"
    if "server_start demo_env demo_world no_fds = Inr s" and t: "recordServerConfig s = Inr t" for s t
  proof -
    from that have t: "recordServerConfig demo_start = Inr t" by (simp add: demo_server_start)
    from demo_start_idle [OF t] have "inputs_only demo_env t [quiet []]"
      by (auto simp: pollMessages_def net_pollMessages_def decode_frames_def quiet_def add_disconnects_def
          drainDisconnects_def guard_or_def)
    with demo_ticks_ok [OF t] show ?thesis by (simp add: demo_world_def)
  qed
  have ok': "\<forall>s t. server_start demo_env demo_world no_fds = Inr s \<longrightarrow> recordServerConfig s = Inr t \<longrightarrow>
      ticks_ok demo_env t (passes demo_world) \<and> inputs_only demo_env t (passes demo_world)" using ok by blast
  have clocks: "sorted_wrt (<) (map clock (passes demo_world))"
    "\<forall>inp\<in>set (passes demo_world). 0 < clock inp \<and> clock inp < 2 ^ 63"
    "length (passes demo_world) < length (passes (replay_world (msgLog s')))" by (simp_all add: sel quiet_def)
  have "draws_escape demo_env ARENA_WIDTH ARENA_HEIGHT"
    using demo_draws_escape by (simp add: ARENA_WIDTH_def ARENA_HEIGHT_def)
  from replay_reproduces_run [OF main sel(3) ok' this clocks(1,2) sel(4,5,6) k' clocks(3)] obtain c c' ms where
    wr: "written [] (VServerConfig c # ms) (msgLog s')" and
    rep: "(\<forall>m\<in>set (VServerConfig c # ms). length (encode m) < 2 ^ 32) \<longrightarrow>
       (\<exists>r' u u'. server_main demo_env (replay_world (msgLog s')) no_fds = Some (Inr r') \<and> \<not> isInReplay r' \<and>
          written [] (VServerConfig c' # ms) (msgLog r') \<and>
          replaceFood demo_env s' = Some u \<and> replaceFood demo_env r' = Some u' \<and> buildGameState u' = buildGameState u)"
    by blast
  have "length (encode (VServerConfig c)) < 2 ^ 32" by (simp add: encode_def)
  with rep demo_log [OF s' wr] main show ?thesis by auto
qed

end
