(* ===== verification/Network_Buffers.thy ===== *)
theory Network_Buffers
  imports NetworkServer_Laws
begin

text \<open>
  How much the server keeps of what clients send: between its operations the buffer of a
  connection holds less than one frame of the largest size the server accepts.
\<close>

section \<open>Buffers hold an unfinished frame\<close>

definition unfinished :: "bytes \<Rightarrow> bool" where
  "unfinished b \<longleftrightarrow> parse_loop SERVER_RECV_MAX_MESSAGE_SIZE b = ([], b, False)"

definition buffers_ok :: "NetworkServer \<Rightarrow> bool" where
  "buffers_ok s \<longleftrightarrow> (\<forall>fd b. um_at (fdToBufferMap s) fd = Some b \<longrightarrow> fd \<in> set (fdsToDisconnect s) \<or> unfinished b)"

lemma unfinished_length: "unfinished b \<Longrightarrow> length b < 4 + SERVER_RECV_MAX_MESSAGE_SIZE"
  using parse_loop_kept [of SERVER_RECV_MAX_MESSAGE_SIZE b "[]" b False] by (auto simp: unfinished_def)

lemma buffers_ok_mark: "buffers_ok s \<Longrightarrow> buffers_ok (mark_disconnect ord fd s)"
  by (auto simp: buffers_ok_def)

lemma receiveFromClient_buffers:
  assumes "buffers_ok s" shows "buffers_ok (snd (receiveFromClient ord fd r s))"
proof (cases r)
  case (RecvBytes bs)
  let ?run = "parse_loop SERVER_RECV_MAX_MESSAGE_SIZE ((case um_at (fdToBufferMap s) fd of None \<Rightarrow> [] | Some b \<Rightarrow> b) @ bs)"
  obtain fs rest over where run: "?run = (fs, rest, over)" by (cases ?run)
  have "unfinished rest" if "\<not> over"
    using that run server_stream.run_rest [of _ fs rest] by (simp add: unfinished_def)
  with assms run RecvBytes show ?thesis
    by (auto simp: parseReceivedPacket_def Let_def buffers_ok_def um_at_set)
qed (simp_all add: assms buffers_ok_mark)

lemma acceptNewClient_buffers:
  assumes "buffers_ok s" and "acceptNewClient ord ev s = Inr s'" shows "buffers_ok s'"
proof -
  have "unfinished []" by (simp add: unfinished_def parse_loop_nil)
  with assms show ?thesis
    by (auto simp: acceptNewClient_def Let_def buffers_ok_def um_at_set split: if_splits) blast
qed

lemma handle_event_buffers:
  assumes "buffers_ok s" and "handle_event ord ev (ms, s) = Inr (ms', s')" shows "buffers_ok s'"
proof -
  obtain fs t where r: "receiveFromClient ord (ev_fd ev) (ev_recv ev) s = (fs, t)"
    by (cases "receiveFromClient ord (ev_fd ev) (ev_recv ev) s")
  have "buffers_ok t" using receiveFromClient_buffers [OF assms(1), of ord "ev_fd ev" "ev_recv ev"] r by simp
  with assms r acceptNewClient_buffers [OF assms(1)] show ?thesis
    by (auto simp: handle_event_def Let_def rbind_eq_Inr split: if_splits option.splits)
qed

lemma net_pollMessages_buffers:
  assumes "net_pollMessages ord evs s = Inr (ms, s')" and "buffers_ok s" shows "buffers_ok s'"
proof -
  have "rfold (handle_event ord) evs ([], s) = Inr (ms, s')"
    using assms(1) by (auto simp: net_pollMessages_def rbind_eq_Inr)
  then have "buffers_ok (snd (ms, s'))"
    by (rule rfold_preserves) (auto simp: assms(2) intro: handle_event_buffers)
  then show ?thesis by simp
qed

text \<open>Draining takes buffers away and changes none.\<close>

lemma drainDisconnects_buffers:
  assumes "net_wf s" and "drainDisconnects s = Inr (cids, s')" and "buffers_ok s"
  shows "buffers_ok s'"
proof -
  from assms(2) obtain s1 where r: "rfold drain_one (fdsToDisconnect s) ([], s) = Inr (cids, s1)"
    and s': "s' = s1\<lparr>fdsToDisconnect := []\<rparr>"
    by (auto simp: drainDisconnects_def rbind_eq_Inr)
  let ?same = "\<lambda>t. \<forall>fd b. um_at (fdToBufferMap t) fd = Some b \<longrightarrow> um_at (fdToBufferMap s) fd = Some b"
  have one: "?same d" if "drain_one fd (a, b) = Inr (c, d)" "?same b" for fd a b c d
    using that by (auto simp: drain_one_def disconnectClient_def rbind_eq_Inr um_simps split: option.splits if_splits)
  from r have "?same (snd (cids, s1))"
    by (rule rfold_preserves) (auto dest: one)
  then have same: "?same s'" by (simp add: s')
  from drainDisconnects_wf [OF assms(1)] assms(2) have wf: "net_wf s'"
    and gone: "\<forall>fd. um_at (fdToClientIdMap s') fd =
       (if fd \<in> set (fdsToDisconnect s) then None else um_at (fdToClientIdMap s) fd)" by auto
  have "fd \<notin> set (fdsToDisconnect s)" if "um_at (fdToBufferMap s') fd = Some b" for fd b
  proof -
    have "fd \<in> dom (um_at (fdToClientIdMap s'))" using that wf by (auto simp: net_wf_def)
    with gone show ?thesis by (auto split: if_splits)
  qed
  with same assms(3) show ?thesis unfolding buffers_ok_def by blast
qed

lemma networkSend_buffers: "buffers_ok s \<Longrightarrow> buffers_ok (networkSend ord snd_res fd bs s)"
  by (auto simp: buffers_ok_def)

interpretation buffers: invariant_system "net_step ord" "\<lambda>s. net_wf s \<and> buffers_ok s" ids_stable
  for ord :: "int iter_order"
proof unfold_locales
  fix s s' assume inv: "net_wf s \<and> buffers_ok s" and step: "net_step ord s s'"
  have "buffers_ok s'"
    using step
  proof (cases rule: net_step.cases)
    case (send snd_res cid bs)
    with inv show ?thesis by (auto simp: sendToClient_def networkSend_buffers split: option.splits)
  next
    case (broadcast snd_res bs)
    have "buffers_ok (net_broadcast ord snd_res bs s)"
      unfolding net_broadcast_def by (rule fold_invariant [where P = buffers_ok and Q = "\<lambda>_. True"])
        (use inv in \<open>auto intro: networkSend_buffers\<close>)
    with broadcast show ?thesis by simp
  qed (use inv in \<open>auto intro: net_pollMessages_buffers drainDisconnects_buffers\<close>)
  moreover have "net_wf s'" using network.reachable_inv [of ord s s'] inv step by blast
  ultimately show "net_wf s' \<and> buffers_ok s'" by blast
next
  fix s s' assume "net_wf s \<and> buffers_ok s" and "net_step ord s s'"
  then show "ids_stable s s'" using network.reachable_grows [of ord s s'] by blast
qed (auto intro: ids_stable_refl ids_stable_trans)

section \<open>How much a poll delivers\<close>

lemma length_frames: "4 * length fs \<le> length (concat (map make_frame fs))"
  by (induction fs) (simp_all add: make_frame_def)

text \<open>What arrives in an event: at most as many bytes as \<open>recvBuffer\<close> holds.\<close>

definition small_event :: "os_event \<Rightarrow> bool" where
  "small_event ev \<longleftrightarrow> (\<forall>bs. ev_recv ev = RecvBytes bs \<longrightarrow> length bs \<le> SERVER_RECV_BUFFER_SIZE)"

definition short_buffer :: "NetworkServer \<Rightarrow> int \<Rightarrow> bool" where
  "short_buffer s fd \<longleftrightarrow> (\<forall>b. um_at (fdToBufferMap s) fd = Some b \<longrightarrow> length b < 4 + SERVER_RECV_MAX_MESSAGE_SIZE)"

lemma receiveFromClient_bounded:
  assumes "receiveFromClient ord fd (ev_recv ev) s = (fs, s')" and "short_buffer s fd" and "small_event ev"
  shows "length fs \<le> 1040" and "fd' \<noteq> fd \<Longrightarrow> short_buffer s fd' \<Longrightarrow> short_buffer s' fd'"
proof -
  show "length fs \<le> 1040"
  proof (cases "ev_recv ev")
    case (RecvBytes bs)
    let ?b = "(case um_at (fdToBufferMap s) fd of None \<Rightarrow> [] | Some b \<Rightarrow> b) @ bs"
    from assms(1) RecvBytes obtain r over where "parse_loop SERVER_RECV_MAX_MESSAGE_SIZE ?b = (fs, r, over)"
      by (auto simp: parseReceivedPacket_def Let_def split: prod.splits)
    then have "?b = concat (map make_frame fs) @ r" by (auto dest: parse_loop_sound)
    then have "4 * length fs \<le> length ?b" using length_frames [of fs] by (metis length_append trans_le_add1)
    moreover have "length bs \<le> 4096" using assms(3) RecvBytes by (simp add: small_event_def SERVER_RECV_BUFFER_SIZE_def)
    ultimately show ?thesis
      using assms(2) by (auto simp: short_buffer_def SERVER_RECV_MAX_MESSAGE_SIZE_def split: option.splits)
  qed (use assms(1) in auto)
  show "fd' \<noteq> fd \<Longrightarrow> short_buffer s fd' \<Longrightarrow> short_buffer s' fd'"
    using assms(1) by (cases "ev_recv ev")
      (auto simp: short_buffer_def parseReceivedPacket_def Let_def um_at_set mark_disconnect_def split: prod.splits if_splits)
qed

lemma handle_event_bounded:
  assumes "handle_event ord ev (ms, s) = Inr (ms', s')" and "short_buffer s (ev_fd ev)" and "small_event ev"
  shows "length ms' \<le> length ms + 1040" and "fd' \<noteq> ev_fd ev \<Longrightarrow> short_buffer s fd' \<Longrightarrow> short_buffer s' fd'"
proof -
  obtain fs t where r: "receiveFromClient ord (ev_fd ev) (ev_recv ev) s = (fs, t)"
    by (cases "receiveFromClient ord (ev_fd ev) (ev_recv ev) s")
  note recv = receiveFromClient_bounded [OF r assms(2,3)]
  show "length ms' \<le> length ms + 1040"
    using assms(1) r recv(1) by (auto simp: handle_event_def Let_def rbind_eq_Inr split: if_splits option.splits)
  assume fd': "fd' \<noteq> ev_fd ev" "short_buffer s fd'"
  have "short_buffer t fd'" using recv(2) fd' .
  moreover have "short_buffer u fd'" if "acceptNewClient ord ev s = Inr u" for u
    using that fd'(2) by (auto simp: acceptNewClient_def Let_def short_buffer_def um_at_set SERVER_RECV_MAX_MESSAGE_SIZE_def split: if_splits)
  ultimately show "short_buffer s' fd'"
    using assms(1) r by (auto simp: handle_event_def Let_def rbind_eq_Inr split: if_splits option.splits)
qed

lemma handle_events_bounded:
  assumes "rfold (handle_event ord) evs (ms, s) = Inr (ms', s')" and "distinct (map ev_fd evs)"
    and "\<forall>ev\<in>set evs. short_buffer s (ev_fd ev) \<and> small_event ev"
  shows "length ms' \<le> length ms + 1040 * length evs"
  using assms
proof (induction evs arbitrary: ms s)
  case (Cons ev evs)
  from Cons.prems(1) obtain ms1 s1 where one: "handle_event ord ev (ms, s) = Inr (ms1, s1)"
    and rest: "rfold (handle_event ord) evs (ms1, s1) = Inr (ms', s')"
    by (auto simp: rbind_eq_Inr)
  from Cons.prems(3) have ev: "short_buffer s (ev_fd ev)" "small_event ev" by simp_all
  have "ev_fd ev' \<noteq> ev_fd ev" if "ev' \<in> set evs" for ev'
    using Cons.prems(2) that by (metis distinct.simps(2) image_eqI list.set_map list.simps(9))
  with Cons.prems(3) handle_event_bounded(2) [OF one ev]
  have "\<forall>ev\<in>set evs. short_buffer s1 (ev_fd ev) \<and> small_event ev" by simp
  with Cons.IH [OF rest] Cons.prems(2) handle_event_bounded(1) [OF one ev] show ?case by simp
qed simp

lemma poll_bounded:
  assumes "net_pollMessages ord evs s = Inr (ms, s')" and "buffers_ok s" and "events_ok s evs"
    and "\<forall>ev\<in>set evs. small_event ev" and "length evs \<le> MAX_EVENTS"
  shows "length ms \<le> 10400"
proof -
  from assms(1) have "fdsToDisconnect s = []" and run: "rfold (handle_event ord) evs ([], s) = Inr (ms, s')"
    by (auto simp: net_pollMessages_def guard_or_def rbind_eq_Inr split: if_splits)
  with assms(2) unfinished_length have "\<forall>fd. short_buffer s fd" by (auto simp: buffers_ok_def short_buffer_def)
  with handle_events_bounded [OF run] assms(3-5) show ?thesis
    by (fastforce simp: events_ok_def MAX_EVENTS_def)
qed

section \<open>Properties\<close>

text \<open>
  C18: Memory per connection and work per poll are bounded. In every state that polling, draining,
  sending and broadcasting can reach from a fresh server, whatever clients send and however it
  arrives, the buffer of a connection that is not about to be disconnected holds fewer than 68
  bytes, and among them no complete frame that still waits to be handled. A poll then delivers at
  most 10400 frames: it looks at no more than \<open>MAX_EVENTS\<close> descriptors and receives at most
  \<open>SERVER_RECV_BUFFER_SIZE\<close> bytes from each.
\<close>

theorem buffers_bounded:
  assumes "(net_step ord)\<^sup>*\<^sup>* (NetworkServer_new fd) s"
  shows "(\<forall>c b. um_at (fdToBufferMap s) c = Some b \<and> c \<notin> set (fdsToDisconnect s) \<longrightarrow>
       length b < 68 \<and> parse_loop SERVER_RECV_MAX_MESSAGE_SIZE b = ([], b, False)) \<and>
     (\<forall>evs ms s'. net_pollMessages ord evs s = Inr (ms, s') \<and> events_ok s evs \<and> length evs \<le> MAX_EVENTS \<and>
       (\<forall>ev\<in>set evs. small_event ev) \<longrightarrow> length ms \<le> 10400)"
proof -
  have "buffers_ok (NetworkServer_new fd)" by (simp add: buffers_ok_def NetworkServer_new_def)
  with buffers.reachable_inv [OF assms] net_wf_new have ok: "buffers_ok s" by blast
  then have "unfinished b" if "um_at (fdToBufferMap s) c = Some b" "c \<notin> set (fdsToDisconnect s)" for c b
    using that unfolding buffers_ok_def by blast
  with unfinished_length poll_bounded [OF _ ok] show ?thesis
    by (auto simp: unfinished_def SERVER_RECV_MAX_MESSAGE_SIZE_def)
qed

text \<open>A connection whose buffer is empty, and a poll with a second client.\<close>

theorem buffers_bounded_witness:
  "um_at (fdToBufferMap one_client) 7 = Some [] \<and> parse_loop SERVER_RECV_MAX_MESSAGE_SIZE [] = ([], [], False) \<and>
   (\<exists>ms s'. net_pollMessages newest_first [accept_event 3 8] one_client = Inr (ms, s') \<and> length ms \<le> 10400)"
proof -
  have b: "um_at (fdToBufferMap one_client) 7 = Some []" by (simp add: one_client_def um_at_def)
  have reach: "(net_step newest_first)\<^sup>*\<^sup>* (NetworkServer_new 3) one_client" by (blast intro: step_one_client)
  have ev: "events_ok one_client [accept_event 3 8]"
    by (simp add: events_ok_def event_ok_def accept_event_def one_client_def um_at_def INT_MAX_def)
  have "fdsToDisconnect one_client = []" by (simp add: one_client_def)
  from net_pollMessages_total [OF network.reachable_inv [OF reach net_wf_new] this ev, of newest_first]
  obtain ms s' where poll: "net_pollMessages newest_first [accept_event 3 8] one_client = Inr (ms, s')" by blast
  have small: "small_event (accept_event 3 8)" by (simp add: small_event_def accept_event_def)
  note bounded = buffers_bounded [OF reach]
  have "7 \<notin> set (fdsToDisconnect one_client)" by (simp add: one_client_def)
  with bounded b have "parse_loop SERVER_RECV_MAX_MESSAGE_SIZE [] = ([], [], False)" by blast
  moreover from bounded [THEN conjunct2, rule_format, of "[accept_event 3 8]" ms s'] poll ev small
  have "length ms \<le> 10400" by (simp add: MAX_EVENTS_def)
  ultimately show ?thesis using b poll by blast
qed

end
