(* ===== verification/Descriptor_Use.thy ===== *)
theory Descriptor_Use
  imports Sockets NetworkServer_Laws
begin

text \<open>
  The descriptors of a running server: what accepting and disconnecting do to the table of the
  process, beside what \<open>NetworkServer\<close> says they do to the tables of the server. Between two
  operations the server holds the listening socket, the epoll instance and one descriptor for each
  connection, and nothing else.
\<close>

section \<open>What the operations do to the table\<close>

definition accept_fds :: "int \<Rightarrow> os_event \<Rightarrow> descriptors \<Rightarrow> (setup_error + unit) \<times> descriptors" where
  "accept_fds epollFd ev k =
     (let clientFd = ev_accept ev in
      if clientFd = -1 then (Inr (), k)
      else after_ok (setNonBlocking 0 (if ev_fcntl_ok ev then 0 else -1) clientFd (open_fd clientFd k)) (\<lambda>_ k.
        registerFdWithEpoll (if ev_epoll_ok ev then 0 else -1) epollFd clientFd k))"

text \<open>Receiving changes no descriptor, so a poll opens one for each accepted connection.\<close>

primrec poll_fds :: "int \<Rightarrow> int \<Rightarrow> os_event list \<Rightarrow> descriptors \<Rightarrow> (setup_error + unit) \<times> descriptors" where
  "poll_fds epollFd listener [] k = (Inr (), k)"
| "poll_fds epollFd listener (ev # evs) k =
     after_ok (if ev_fd ev = listener then accept_fds epollFd ev k else (Inr (), k))
       (\<lambda>_ k. poll_fds epollFd listener evs k)"

text \<open>\<open>epoll_ctl\<close> with \<open>EPOLL_CTL_DEL\<close>, whose result the code ignores, and \<open>close\<close>.\<close>

definition disconnect_fds :: "int \<Rightarrow> int \<Rightarrow> descriptors \<Rightarrow> descriptors" where
  "disconnect_fds epollFd fd k = close_fd fd (k\<lparr>watched := watched k - {(epollFd, fd)}\<rparr>)"

text \<open>
  The loop of \<open>drainDisconnects\<close>. Its descriptors are distinct, so that the ones it finds connected
  are those that are connected before it.
\<close>

definition drain_fds :: "int \<Rightarrow> NetworkServer \<Rightarrow> descriptors \<Rightarrow> descriptors" where
  "drain_fds epollFd s k =
     fold (\<lambda>fd k. if um_contains (fdToClientIdMap s) fd then disconnect_fds epollFd fd k else k)
       (fdsToDisconnect s) k"

text \<open>Accepting throws on the table exactly when it throws on the state of the server, a failed increment of the counter of ids, which comes later, apart.\<close>

lemma accept_fds_agrees:
  "fst (accept_fds epollFd ev k) =
     (case acceptNewClient ord ev s of Inr _ \<Rightarrow> Inr () | Inl e \<Rightarrow>
        if e = IntOverflow then Inr () else Inl (if e = FcntlFailed then SetFlagsFailed else RegisterFailed))"
  by (simp add: accept_fds_def acceptNewClient_def fd_ops)

text \<open>When it throws, the new connection stays open if \<open>fcntl\<close> failed; if \<open>epoll_ctl\<close> failed, it is closed and so is the epoll instance.\<close>

lemma accept_fds_throws:
  assumes "table_ok k" and "fresh_fd (ev_accept ev) k" and "accept_fds epollFd ev k = (Inl e, k')"
  shows "k' = (if e = SetFlagsFailed then open_fd (ev_accept ev) k else close_fd epollFd k)"
  using assms by (cases k) (auto simp: accept_fds_def fd_ops table_ok_def fresh_fd_def split: if_splits)

section \<open>The invariant\<close>

abbreviation connections :: "NetworkServer \<Rightarrow> int set" where
  "connections s \<equiv> dom (um_at (fdToClientIdMap s))"

text \<open>\<open>k0\<close> is the table before the server was created.\<close>

definition fds_exact :: "descriptors \<Rightarrow> int \<Rightarrow> NetworkServer \<Rightarrow> descriptors \<Rightarrow> bool" where
  "fds_exact k0 epollFd s k \<longleftrightarrow>
     open_fds k = open_fds k0 \<union> {serverFd s, epollFd} \<union> connections s \<and>
     nonblocking k = nonblocking k0 \<union> {serverFd s} \<union> connections s \<and>
     watched k = watched k0 \<union> {epollFd} \<times> ({serverFd s} \<union> connections s) \<and>
     connections s \<inter> (open_fds k0 \<union> {serverFd s, epollFd}) = {}"

lemma startServer_exact:
  assumes "startServer sys port k0 = (Inr (fd, epollFd), k)"
  shows "fds_exact k0 epollFd (NetworkServer_new fd) k"
  using startServer_started [OF assms] by (auto simp: fds_exact_def NetworkServer_new_def)

lemma accept_fds_exact:
  assumes "fds_exact k0 epollFd s k" and "acceptNewClient ord ev s = Inr s'"
    and "ev_accept ev \<noteq> -1 \<longrightarrow> fresh_fd (ev_accept ev) k" and "accept_fds epollFd ev k = (Inr (), k')"
  shows "fds_exact k0 epollFd s' k'"
proof (cases "ev_accept ev = -1")
  case True
  with assms show ?thesis by (simp add: acceptNewClient_def accept_fds_def)
next
  case False
  with assms(2) have s': "serverFd s' = serverFd s" "connections s' = insert (ev_accept ev) (connections s)"
    by (auto simp: acceptNewClient_def Let_def um_at_set split: if_splits)
  from False assms(4) have "k' = \<lparr>open_fds = insert (ev_accept ev) (open_fds k),
      nonblocking = insert (ev_accept ev) (nonblocking k), watched = insert (epollFd, ev_accept ev) (watched k)\<rparr>"
    by (cases k) (auto simp: accept_fds_def fd_ops split: if_splits)
  with assms(1,3) False show ?thesis unfolding fds_exact_def s' fresh_fd_def by auto
qed

text \<open>An event of a connection changes neither the connections nor the table.\<close>

lemma handle_event_connections:
  assumes "handle_event ord ev (ms, s) = Inr (ms', s')"
  shows "serverFd s' = serverFd s" and "ev_fd ev \<noteq> serverFd s \<Longrightarrow> connections s' = connections s"
    and "ev_fd ev = serverFd s \<Longrightarrow> acceptNewClient ord ev s = Inr s'"
  using assms receiveFromClient_sel [of ord "ev_fd ev" "ev_recv ev" s]
  by (auto simp: handle_event_def acceptNewClient_def Let_def rbind_eq_Inr split_beta split: if_splits option.splits)

lemma fds_exact_cong:
  "serverFd s' = serverFd s \<Longrightarrow> connections s' = connections s \<Longrightarrow> fds_exact k0 epollFd s' k \<longleftrightarrow> fds_exact k0 epollFd s k"
  by (simp add: fds_exact_def)

lemma poll_exact:
  assumes "rfold (handle_event ord) evs (ms, s) = Inr (ms', s')" and "fds_exact k0 epollFd s k"
    and "distinct (map ev_fd evs)"
    and "\<forall>ev\<in>set evs. ev_fd ev = serverFd s \<and> ev_accept ev \<noteq> -1 \<longrightarrow> fresh_fd (ev_accept ev) k"
  shows "\<exists>k'. poll_fds epollFd (serverFd s) evs k = (Inr (), k') \<and> fds_exact k0 epollFd s' k'"
  using assms
proof (induction evs arbitrary: ms s k)
  case (Cons ev evs)
  from Cons.prems(1) obtain ms1 s1 where one: "handle_event ord ev (ms, s) = Inr (ms1, s1)"
    and rest: "rfold (handle_event ord) evs (ms1, s1) = Inr (ms', s')"
    by (auto simp: rbind_eq_Inr)
  note ev = handle_event_connections [OF one]
  show ?case
  proof (cases "ev_fd ev = serverFd s")
    case True
    with ev(3) have acc: "acceptNewClient ord ev s = Inr s1" by simp
    then obtain k1 where k1: "accept_fds epollFd ev k = (Inr (), k1)"
      using accept_fds_agrees [of epollFd ev k ord s] by (cases "accept_fds epollFd ev k") auto
    have "fds_exact k0 epollFd s1 k1"
      using accept_fds_exact [OF Cons.prems(2) acc _ k1] Cons.prems(4) True by simp
    moreover have "\<forall>ev'\<in>set evs. ev_fd ev' \<noteq> serverFd s1"
      using Cons.prems(3) True ev(1) by (metis distinct.simps(2) image_eqI list.set_map list.simps(9))
    ultimately show ?thesis using Cons.IH [OF rest] Cons.prems(3) k1 True ev(1) by auto
  next
    case False
    with ev fds_exact_cong [of s1 s k0 epollFd k] Cons.prems(2) have "fds_exact k0 epollFd s1 k" by simp
    with Cons.IH [OF rest] Cons.prems(3,4) False ev(1) show ?thesis by auto
  qed
qed simp

lemma drain_fold:
  "fold (\<lambda>fd k. if fd \<in> C then disconnect_fds epollFd fd k else k) fds k =
     \<lparr>open_fds = open_fds k - (set fds \<inter> C), nonblocking = nonblocking k - (set fds \<inter> C),
      watched = {(ep, d) \<in> watched k. ep \<notin> set fds \<inter> C \<and> d \<notin> set fds \<inter> C}\<rparr>"
proof (induction fds arbitrary: k)
  case (Cons fd fds)
  show ?case by (cases k) (auto simp: Cons disconnect_fds_def close_fd_def)
qed simp

lemma drain_exact:
  assumes "net_wf s" and "table_ok k0" and "fds_exact k0 epollFd s k" and "drainDisconnects s = Inr (cids, s')"
  shows "fds_exact k0 epollFd s' (drain_fds epollFd s k)"
proof -
  let ?gone = "set (fdsToDisconnect s) \<inter> connections s"
  from drainDisconnects_wf [OF assms(1)] assms(4) have s': "serverFd s' = serverFd s"
    "\<forall>fd. um_at (fdToClientIdMap s') fd = (if fd \<in> set (fdsToDisconnect s) then None else um_at (fdToClientIdMap s) fd)"
    by auto
  from s'(2) have "x \<in> connections s' \<longleftrightarrow> x \<in> connections s - ?gone" for x by (auto simp: domIff)
  then have conn: "connections s' = connections s - ?gone" by blast
  have "drain_fds epollFd s k = \<lparr>open_fds = open_fds k - ?gone, nonblocking = nonblocking k - ?gone,
      watched = {(ep, d) \<in> watched k. ep \<notin> ?gone \<and> d \<notin> ?gone}\<rparr>"
    using drain_fold [of "connections s" epollFd "fdsToDisconnect s" k]
    by (simp add: drain_fds_def um_contains_def domIff)
  with assms(2,3) conn s'(1) show ?thesis unfolding fds_exact_def table_ok_def by auto
qed

section \<open>All runs of the server on its descriptors\<close>

text \<open>
  The steps of \<open>net_step\<close> together with the table. A descriptor the kernel gives out is not open.
\<close>

inductive process_step :: "int iter_order \<Rightarrow> int \<Rightarrow> NetworkServer \<times> descriptors \<Rightarrow> NetworkServer \<times> descriptors \<Rightarrow> bool"
  for ord epollFd where
  poll: "net_pollMessages ord evs s = Inr (messages, s') \<Longrightarrow> events_ok s evs \<Longrightarrow>
     \<forall>ev\<in>set evs. ev_fd ev = serverFd s \<and> ev_accept ev \<noteq> -1 \<longrightarrow> fresh_fd (ev_accept ev) k \<Longrightarrow>
     process_step ord epollFd (s, k) (s', snd (poll_fds epollFd (serverFd s) evs k))"
| drain: "drainDisconnects s = Inr (cids, s') \<Longrightarrow> process_step ord epollFd (s, k) (s', drain_fds epollFd s k)"
| send: "sendToClient ord snd_res cid bs s = Inr s' \<Longrightarrow> process_step ord epollFd (s, k) (s', k)"
| broadcast: "process_step ord epollFd (s, k) (net_broadcast ord snd_res bs s, k)"

lemma process_net_step: "process_step ord epollFd (s, k) (s', k') \<Longrightarrow> net_step ord s s'"
  by (erule process_step.cases) (auto intro: net_step.intros)

lemma broadcast_server: "serverFd (net_broadcast ord snd_res bs s) = serverFd s"
  unfolding net_broadcast_def
  by (rule fold_invariant [where P = "\<lambda>t. serverFd t = serverFd s" and Q = "\<lambda>_. True"]) auto

lemma net_step_server:
  assumes "net_step ord s s'" and "net_wf s"
  shows "serverFd s' = serverFd s"
  using assms(1)
proof (cases rule: net_step.cases)
  case (poll evs messages)
  then have "rfold (handle_event ord) evs ([], s) = Inr (messages, s')"
    by (auto simp: net_pollMessages_def rbind_eq_Inr)
  then have "serverFd (snd (messages, s')) = serverFd s"
    by (rule rfold_preserves) (auto dest: handle_event_connections(1))
  then show ?thesis by simp
next
  case (drain cids)
  with drainDisconnects_wf [OF assms(2)] show ?thesis by auto
qed (auto simp: broadcast_server sendToClient_def split: option.splits)

lemma process_step_exact:
  assumes "process_step ord epollFd (s, k) (s', k')" and "net_wf s" and "table_ok k0" and "fds_exact k0 epollFd s k"
  shows "fds_exact k0 epollFd s' k'"
  using assms(1)
proof (cases rule: process_step.cases)
  case (poll evs messages)
  then have "rfold (handle_event ord) evs ([], s) = Inr (messages, s')" "distinct (map ev_fd evs)"
    by (auto simp: net_pollMessages_def rbind_eq_Inr events_ok_def)
  with poll_exact [OF this(1) assms(4)] poll show ?thesis by auto
next
  case (drain cids)
  with drain_exact [OF assms(2-4)] show ?thesis by simp
next
  case (send snd_res cid bs)
  then show ?thesis using assms(4) fds_exact_cong [of s' s]
    by (auto simp: sendToClient_def split: option.splits)
next
  case (broadcast snd_res bs)
  with net_broadcast_facts [of ord snd_res bs s] assms(4) fds_exact_cong [of s' s] broadcast_server [of ord snd_res bs s]
  show ?thesis by simp
qed

interpretation process: invariant_system "process_step ord epollFd"
    "\<lambda>(s, k). net_wf s \<and> table_ok k0 \<and> fds_exact k0 epollFd s k" "\<lambda>st st'. ids_stable (fst st) (fst st') \<and> serverFd (fst st') = serverFd (fst st)"
  for ord :: "int iter_order" and epollFd :: int and k0 :: descriptors
proof unfold_locales
  fix st st' :: "NetworkServer \<times> descriptors"
  assume inv: "case st of (s, k) \<Rightarrow> net_wf s \<and> table_ok k0 \<and> fds_exact k0 epollFd s k"
    and step: "process_step ord epollFd st st'"
  obtain s k s' k' where st: "st = (s, k)" "st' = (s', k')" by fastforce
  note net = process_net_step [OF step [unfolded st]]
  show "case st' of (s, k) \<Rightarrow> net_wf s \<and> table_ok k0 \<and> fds_exact k0 epollFd s k"
    using inv process_step_exact [OF step [unfolded st]] network.reachable_inv [OF r_into_rtranclp [of "net_step ord", OF net]]
    by (simp add: st)
  show "ids_stable (fst st) (fst st') \<and> serverFd (fst st') = serverFd (fst st)"
    using inv network.reachable_grows [OF r_into_rtranclp [of "net_step ord", OF net]] net_step_server [OF net] by (simp add: st)
qed (auto intro: ids_stable_refl ids_stable_trans)

section \<open>Properties\<close>

text \<open>
  C39: The server holds exactly the descriptors it needs. From the moment it has started, between
  any polls, drains and sends, whatever connections come, fail and go, the open descriptors of the
  process are those it had before, the listening socket, the epoll instance and one for each
  connection in its tables; the sockets among them do not block and are watched, nothing else is,
  and no connection shares a descriptor with anything. So no connection is ever leaked, closed too
  early or closed twice.
\<close>

theorem descriptors_exact:
  assumes "table_ok k0" and "startServer sys port k0 = (Inr (fd, epollFd), k1)"
    and "(process_step ord epollFd)\<^sup>*\<^sup>* (NetworkServer_new fd, k1) (s, k)"
  shows "open_fds k = open_fds k0 \<union> {fd, epollFd} \<union> set (um_keys (fdToClientIdMap s)) \<and>
     nonblocking k = nonblocking k0 \<union> {fd} \<union> set (um_keys (fdToClientIdMap s)) \<and>
     watched k = watched k0 \<union> {epollFd} \<times> ({fd} \<union> set (um_keys (fdToClientIdMap s))) \<and>
     set (um_keys (fdToClientIdMap s)) \<inter> (open_fds k0 \<union> {fd, epollFd}) = {}"
proof -
  have start: "case (NetworkServer_new fd, k1) of (s, k) \<Rightarrow> net_wf s \<and> table_ok k0 \<and> fds_exact k0 epollFd s k"
    using assms(1) startServer_exact [OF assms(2)] net_wf_new by simp
  have "connections s = set (um_keys (fdToClientIdMap s))"
    using um_at_None [of "fdToClientIdMap s"] by (metis domIff subset_antisym subsetI)
  moreover have "serverFd s = fd"
    using process.reachable_grows [OF assms(3) start] by (simp add: NetworkServer_new_def)
  moreover have "fds_exact k0 epollFd s k" using process.reachable_inv [OF assms(3) start] by simp
  ultimately show ?thesis by (simp add: fds_exact_def)
qed

text \<open>A client connects, sends nothing and goes.\<close>

definition good_calls :: server_calls where
  "good_calls = \<lparr>s_socket = 3, s_bind = (\<lambda>_. 0), s_listen = 0, s_getfl = 2, s_setfl = 0,
     s_epoll_create = 4, s_epoll_ctl = 0\<rparr>"

theorem descriptors_exact_witness:
  "\<exists>k. (process_step newest_first 4)\<^sup>*\<^sup>* (NetworkServer_new 3, snd (startServer good_calls 8170 no_fds)) (one_client, k) \<and>
     open_fds k = {3, 4, 7}"
proof -
  obtain k1 where k1: "startServer good_calls 8170 no_fds = (Inr (3, 4), k1)" "open_fds k1 = {3, 4}"
    by (auto simp: startServer_def good_calls_def no_fds_def fd_ops)
  have "process_step newest_first 4 (NetworkServer_new 3, k1)
      (one_client, snd (poll_fds 4 (serverFd (NetworkServer_new 3)) [accept_event 3 7] k1))"
    by (rule process_step.poll [OF poll_one_client])
      (simp_all add: events_ok_def event_ok_def accept_event_def NetworkServer_new_def INT_MAX_def fresh_fd_def k1)
  then have step: "(process_step newest_first 4)\<^sup>*\<^sup>* (NetworkServer_new 3, k1)
      (one_client, snd (poll_fds 4 (serverFd (NetworkServer_new 3)) [accept_event 3 7] k1))" ..
  have "table_ok no_fds" by (simp add: table_ok_def no_fds_def)
  from descriptors_exact [OF this k1(1) step] step k1 show ?thesis
    by (auto simp: one_client_def no_fds_def um_keys_def)
qed

end
