(* ===== verification/Client_Start.thy ===== *)
theory Client_Start
  imports Sockets Client_Render SnakeBot SnakeServer
begin

text \<open>
  \<open>src/snake_client/main.cpp\<close> and \<open>src/snake_bot/main.cpp\<close> with the constructors and destructors
  they run, the set-up of the terminal, and the generator the bot keeps but does not use. A whole
  run of the terminal client is the sequence of its calls of \<open>ncurses\<close>; the calls of a pass that
  throws are left out. Where \<open>main\<close> lets an exception escape, C++ leaves it to the implementation
  whether the stack is unwound (\<open>unwinds\<close>).
\<close>

section \<open>The terminal\<close>

datatype terminal_color = BLACK_COLOR | RED_COLOR | GREEN_COLOR | YELLOW_COLOR | MAGENTA_COLOR | CYAN_COLOR | WHITE_COLOR

datatype terminal_call =
    SetLocale
  | InitScr
  | CBreak
  | NoEcho
  | InputTimeout int
  | Keypad
  | CursSet int
  | StartColor
  | InitPair int terminal_color terminal_color
  | EndWin
  | Draw draw

definition initNcurses :: "terminal_call list" where
  "initNcurses =
     [SetLocale, InitScr, CBreak, NoEcho, InputTimeout INPUT_BLOCKING_TIMEOUT_MS, Keypad, CursSet 0, StartColor,
      InitPair Color_WHITE WHITE_COLOR BLACK_COLOR, InitPair Color_YELLOW YELLOW_COLOR BLACK_COLOR,
      InitPair Color_RED RED_COLOR BLACK_COLOR, InitPair Color_GREEN GREEN_COLOR BLACK_COLOR,
      InitPair Color_CYAN CYAN_COLOR BLACK_COLOR, InitPair Color_MAGENTA MAGENTA_COLOR BLACK_COLOR]"

definition cleanupNcurses :: "terminal_call list" where
  "cleanupNcurses = [EndWin]"

section \<open>The terminal client\<close>

text \<open>The loop of \<open>run\<close> with what it draws.\<close>

primrec client_screen :: "client_env \<Rightarrow> client_input list \<Rightarrow> SnakeClient \<Rightarrow> draw list \<times> (client_error + SnakeClient)" where
  "client_screen env [] c = ([], Inr c)"
| "client_screen env (inp # inps) c =
     (if running c then
        (case client_pass env inp c of
           Inl e \<Rightarrow> ([], Inl e)
         | Inr (drawn, c) \<Rightarrow> (let (out, res) = client_screen env inps c in (drawn @ out, res)))
      else ([], Inr c))"

record client_world =
  server_ip :: "bytes option" \<comment> \<open>\<open>getenv("SNAKE_SERVER_IP")\<close>\<close>
  server_port :: "bytes option" \<comment> \<open>\<open>getenv("SNAKE_SERVER_PORT")\<close>\<close>
  client_clock :: "int \<times> int"
  client_calls_of :: client_calls
  unwinds :: bool

datatype client_start_error = NotConnected setup_error | ClientThrows client_error

definition connect_client :: "client_world \<Rightarrow> descriptors \<Rightarrow> (setup_error + NetworkClient) \<times> descriptors" where
  "connect_client w =
     NetworkClient_create (client_calls_of w) (getServerIp (server_ip w)) (getServerPort (server_port w))"

text \<open>
  \<open>~SnakeClient\<close>: the terminal first, then the members, of which the connection has a destructor; its
  descriptor is the one it was constructed with.
\<close>

definition SnakeClient_destroy :: "NetworkClient \<Rightarrow> descriptors \<Rightarrow> terminal_call list \<times> descriptors" where
  "SnakeClient_destroy net k = (cleanupNcurses, NetworkClient_destroy net k)"

text \<open>
  A client that is still running when the environment has delivered everything is not destroyed.
\<close>

definition client_main :: "client_env \<Rightarrow> client_world \<Rightarrow> (bytes \<Rightarrow> int) \<Rightarrow> client_input list \<Rightarrow> descriptors \<Rightarrow>
    terminal_call list \<times> (client_start_error + SnakeClient) \<times> descriptors" where
  "client_main env w snd_res inps k =
     (case connect_client w k of
        (Inl e, k) \<Rightarrow> ([], Inl (NotConnected e), k)
      | (Inr net, k) \<Rightarrow>
          let c = SnakeClient_new ARENA_WIDTH ARENA_HEIGHT (Timer_new (fst (client_clock w)) (snd (client_clock w))) net;
              (out, res) = (case joinGame env snd_res c of
                  Inl e \<Rightarrow> ([], Inl e)
                | Inr c \<Rightarrow> client_screen env inps c);
              shown = initNcurses @ map Draw out;
              (restored, k') = SnakeClient_destroy net k
          in case res of
               Inl e \<Rightarrow> if unwinds w then (shown @ restored, Inl (ClientThrows e), k')
                        else (shown, Inl (ClientThrows e), k)
             | Inr c \<Rightarrow> if running c then (shown, Inr c, k) else (shown @ restored, Inr c, k'))"

section \<open>The bot\<close>

definition bot_main :: "int iter_order \<Rightarrow> client_world \<Rightarrow> bot_input list \<Rightarrow> descriptors \<Rightarrow>
    (client_start_error + SnakeBot) option" where
  "bot_main ord w inps k =
     (case fst (connect_client w k) of
        Inl e \<Rightarrow> Some (Inl (NotConnected e))
      | Inr net \<Rightarrow> map_option (map_sum ClientThrows id)
          (bot_run ord inps (SnakeBot_new ARENA_WIDTH ARENA_HEIGHT
             (Timer_new (fst (client_clock w)) (snd (client_clock w))) net)))"

text \<open>\<open>calculateRandomMove\<close>, which is called nowhere.\<close>

definition calculateRandomMove :: "'g uniform_int \<Rightarrow> 'g \<Rightarrow> byte \<times> 'g" where
  "calculateRandomMove dist g =
     (let possibleDirections = [PLAYER_KEY_LEFT, PLAYER_KEY_UP, PLAYER_KEY_RIGHT, PLAYER_KEY_DOWN];
          (i, g) = draw dist 0 (int (length possibleDirections) - 1) g
      in (possibleDirections ! nat i, g))"

section \<open>What a run leaves behind\<close>

lemma client_screen_loop: "snd (client_screen env inps c) = client_loop env inps c"
  by (induction inps arbitrary: c) (auto split: sum.split prod.split simp: case_prod_unfold)

text \<open>The client draws with the colour pairs it has set up: those of \<open>enum Color\<close>.\<close>

definition initialised_pairs :: "terminal_call list \<Rightarrow> int set" where
  "initialised_pairs calls = {n. \<exists>fg bg. InitPair n fg bg \<in> set calls}"

lemma initNcurses_pairs: "initialised_pairs initNcurses = {1..6}"
proof -
  have "{1..6::int} = {1, 2, 3, 4, 5, 6}" by auto
  then show ?thesis
    by (simp add: initialised_pairs_def initNcurses_def Color_WHITE_def Color_YELLOW_def Color_RED_def
        Color_GREEN_def Color_CYAN_def Color_MAGENTA_def) blast
qed

lemma new_player_pair:
  assumes "0 \<le> cid" shows "color (new_player s cid x y nm) \<in> initialised_pairs initNcurses"
proof -
  have "cid smod 5 = cid mod 5" using assms by (simp add: signed_modulo_int_def signed_divide_int_def sgn_if minus_div_mult_eq_mod)
  then show ?thesis unfolding initNcurses_pairs by (simp add: new_player_def)
qed

text \<open>
  A client that ends, by the user or by an exception that unwinds the stack, has given the
  terminal back and closed its socket; with an exception that does not unwind neither happens.
\<close>

lemma client_main_restores:
  assumes "client_main env w snd_res inps k = (out, res, k')" and "table_ok k"
    and "c_socket (client_calls_of w) \<noteq> -1 \<Longrightarrow> fresh_fd (c_socket (client_calls_of w)) k"
    and "case res of Inl (NotConnected e) \<Rightarrow> False | Inl (ClientThrows e) \<Rightarrow> unwinds w | Inr c \<Rightarrow> \<not> running c"
  shows "last out = EndWin \<and> k' = k"
proof (cases "connect_client w k")
  case (Pair r k1)
  with assms(1,4) obtain net where net: "connect_client w k = (Inr net, k1)"
    by (cases r) (auto simp: client_main_def)
  with assms(2,3) have "NetworkClient_destroy net k1 = k"
    unfolding connect_client_def by (intro client_closes)
  with assms(1,4) net show ?thesis
    by (auto simp: client_main_def SnakeClient_destroy_def cleanupNcurses_def Let_def
        split: sum.splits prod.splits if_splits)
qed

lemma client_main_throws:
  assumes "client_main env w snd_res inps k = (out, Inl (ClientThrows e), k')" and "\<not> unwinds w"
  shows "EndWin \<notin> set out"
  using assms
  by (auto simp: client_main_def Let_def initNcurses_def SnakeClient_destroy_def split: sum.splits prod.splits if_splits)

lemma random_move: "fst (calculateRandomMove dist g) \<in> {PLAYER_KEY_LEFT, PLAYER_KEY_UP, PLAYER_KEY_RIGHT, PLAYER_KEY_DOWN}"
proof -
  obtain i g' where i: "draw dist 0 3 g = (i, g')" by (cases "draw dist 0 3 g")
  have "\<forall>a b g. a \<le> b \<longrightarrow> a \<le> fst (draw dist a b g) \<and> fst (draw dist a b g) \<le> b"
    using draw [of dist] by simp
  from this [rule_format, of 0 3 g] i have "0 \<le> i \<and> i \<le> 3" by simp
  then have "i = 0 \<or> i = 1 \<or> i = 2 \<or> i = 3" by linarith
  with i show ?thesis by (auto simp: calculateRandomMove_def Let_def)
qed

end
