(* ===== verification/Client_Screen.thy ===== *)
theory Client_Screen
  imports Client_Server
begin

text \<open>
  What the user of the terminal client sees: the calls of \<open>ncurses\<close> that \<open>render\<close> makes, and the
  picture of the server's game that results on any terminal that carries them out as documented.
\<close>

section \<open>The terminal\<close>

text \<open>
  \<open>ncurses\<close> is not part of the program. A terminal is two parameters: \<open>put\<close> carries out a call on
  a window, and \<open>look\<close> says which character in which colour pair a place (row, column) of a window
  shows, if it is not blank. What the client relies on, for a window of the given numbers of rows
  and columns: \<open>erase\<close> blanks every place; \<open>refresh\<close> changes nothing in the window; \<open>mvaddch\<close> of a
  printable character in the default colours or one of the six pairs the client initialises sets
  its place and no other, and fails without an effect if the place is outside; and, as scrolling is
  off in the window \<open>initscr\<close> makes and the client does not turn it on, \<open>mvprintw\<close>, whatever it
  prints, leaves the rows above the one it starts in alone.
\<close>

definition printable :: "byte \<Rightarrow> bool" where
  "printable ch \<longleftrightarrow> 0x21 \<le> ch \<and> ch \<le> 0x7E"

definition has_pair :: "int \<Rightarrow> bool" where
  "has_pair col \<longleftrightarrow> 0 \<le> col \<and> col \<le> Color_MAGENTA"

definition ncurses :: "int \<Rightarrow> int \<Rightarrow> (draw \<Rightarrow> 'w \<Rightarrow> 'w) \<Rightarrow> ('w \<Rightarrow> int \<times> int \<Rightarrow> (byte \<times> int) option) \<Rightarrow> bool" where
  "ncurses rows cols put look \<longleftrightarrow>
     (\<forall>w pos. look (put Erase w) pos = None) \<and>
     (\<forall>w pos. look (put Refresh w) pos = look w pos) \<and>
     (\<forall>w pos y x ch col. printable ch \<and> has_pair col \<longrightarrow>
        look (put (AddCh y x ch col) w) pos =
          (if 0 \<le> y \<and> y < rows \<and> 0 \<le> x \<and> x < cols \<and> pos = (y, x) then Some (ch, col) else look w pos)) \<and>
     (\<forall>w pos y x bs. fst pos < y \<longrightarrow> look (put (PrintW y x bs) w) pos = look w pos)"

lemma ncurses_laws:
  assumes "ncurses rows cols put look"
  shows "look (put Erase w) pos = None" "look (put Refresh w) pos = look w pos"
    "printable ch \<Longrightarrow> has_pair col \<Longrightarrow> look (put (AddCh y x ch col) w) pos =
       (if 0 \<le> y \<and> y < rows \<and> 0 \<le> x \<and> x < cols \<and> pos = (y, x) then Some (ch, col) else look w pos)"
    "fst pos < y \<Longrightarrow> look (put (PrintW y x bs) w) pos = look w pos"
  using assms unfolding ncurses_def by blast+

lemma printable_chars [simp]:
  "printable (char_of ''c'')" "printable (char_of ''#'')" "printable (char_of ''-'')"
  "printable (char_of ''|'')" "printable (char_of ''+'')" "has_pair 1"
  by (simp_all add: printable_def has_pair_def Color_MAGENTA_def ascii_def)

text \<open>The calls these laws speak of, and the places they do not touch.\<close>

fun sound_call :: "draw \<Rightarrow> bool" where
  "sound_call (AddCh y x ch col) \<longleftrightarrow> printable ch \<and> has_pair col"
| "sound_call _ \<longleftrightarrow> True"

fun touches :: "int \<times> int \<Rightarrow> draw \<Rightarrow> bool" where
  "touches pos Erase \<longleftrightarrow> True"
| "touches pos Refresh \<longleftrightarrow> False"
| "touches pos (AddCh y x ch col) \<longleftrightarrow> pos = (y, x)"
| "touches pos (PrintW y x bs) \<longleftrightarrow> y \<le> fst pos"

lemma put_untouched:
  "ncurses rows cols put look \<Longrightarrow> sound_call d \<Longrightarrow> \<not> touches pos d \<Longrightarrow> look (put d w) pos = look w pos"
  by (cases d) (simp_all add: ncurses_laws [of rows cols put look])

lemma fold_untouched:
  assumes "ncurses rows cols put look"
  shows "\<forall>d\<in>set ds. sound_call d \<and> \<not> touches pos d \<Longrightarrow> look (fold put ds w) pos = look w pos"
  by (induction ds arbitrary: w) (simp_all add: put_untouched [OF assms])

section \<open>Marks on the arena\<close>

type_synonym mark = "cell \<times> byte \<times> int"

abbreviation mark_call :: "mark \<Rightarrow> draw" where
  "mark_call \<equiv> \<lambda>(c, ch, col). renderCharToScreen (fst c) (snd c) ch col"

definition object_marks :: "GameState \<Rightarrow> mark list" where
  "object_marks gs = map (\<lambda>f. ((fd_x f, fd_y f), fd_icon f, fd_color f)) (g_food gs) @
     map (\<lambda>b. ((bd_x b, bd_y b), bd_icon b, bd_color b)) (g_speedBoosts gs)"

definition snake_marks :: "PlayerData \<Rightarrow> mark list" where
  "snake_marks p = (hd (pd_segments p), pd_direction p, 1) #
     map (\<lambda>b. (b, char_of ''c'', pd_color p)) (tl (pd_segments p))"

definition player_marks :: "GameState \<Rightarrow> mark list" where
  "player_marks gs = concat (map (\<lambda>e. snake_marks (snd e)) (g_players gs))"

lemma renderObjects_marks: "renderObjects c = map mark_call (object_marks (gameState c))"
  by (simp add: renderObjects_def object_marks_def)

lemma renderPlayers_marks:
  assumes "renderable (gameState c)"
  shows "renderPlayers c = Inr (map mark_call (player_marks (gameState c)))"
proof -
  have one: "render_player e out = Inr (out @ map mark_call (snake_marks (snd e)))"
    if "e \<in> set (g_players (gameState c))" for e out
    using that assms by (cases "pd_segments (snd e)")
      (auto simp: renderable_def render_player_def snake_marks_def split: prod.split)
  have "rfold render_player es out = Inr (out @ map mark_call (concat (map (\<lambda>e. snake_marks (snd e)) es)))"
    if "set es \<subseteq> set (g_players (gameState c))" for es out
    using that by (induction es arbitrary: out) (simp_all add: one)
  then show ?thesis by (simp add: renderPlayers_def player_marks_def)
qed

lemma fold_marks:
  assumes "ncurses rows cols put look" and "\<forall>m\<in>set ms. sound_call (mark_call m)"
    and "0 \<le> x" and "x * CLIENT_HORIZONTAL_SCALING < cols" and "0 \<le> y" and "y < rows"
  shows "look (fold put (map mark_call ms) w) (y, x * CLIENT_HORIZONTAL_SCALING) =
     (case map_of (rev ms) (x, y) of None \<Rightarrow> look w (y, x * CLIENT_HORIZONTAL_SCALING) | Some m \<Rightarrow> Some m)"
  using assms(2)
proof (induction ms arbitrary: w)
  case (Cons m ms)
  obtain a b ch col where m: "m = ((a, b), ch, col)" by (metis prod.exhaust)
  have "look (put (mark_call m) w) (y, x * CLIENT_HORIZONTAL_SCALING) =
      (if (a, b) = (x, y) then Some (ch, col) else look w (y, x * CLIENT_HORIZONTAL_SCALING))"
    using assms(1,3-6) Cons.prems
    by (simp add: m ncurses_laws [OF assms(1)] renderCharToScreen_def CLIENT_HORIZONTAL_SCALING_def)
  moreover have "look (fold put (map mark_call ms) (put (mark_call m) w)) (y, x * CLIENT_HORIZONTAL_SCALING) =
      (case map_of (rev ms) (x, y) of None \<Rightarrow> look (put (mark_call m) w) (y, x * CLIENT_HORIZONTAL_SCALING) | Some m \<Rightarrow> Some m)"
    using Cons.prems by (intro Cons.IH) simp
  ultimately show ?case by (simp add: m map_add_def split: option.split)
qed simp

text \<open>Border and texts stay outside the arena.\<close>

definition in_field :: "SnakeClient \<Rightarrow> cell \<Rightarrow> bool" where
  "in_field c p \<longleftrightarrow> 1 \<le> fst p \<and> fst p \<le> c_width c \<and> 1 \<le> snd p \<and> snd p \<le> c_height c"

abbreviation place_of :: "cell \<Rightarrow> int \<times> int" where
  "place_of p \<equiv> (snd p, fst p * CLIENT_HORIZONTAL_SCALING)"

lemma arena_outside: "in_field c p \<Longrightarrow> d \<in> set (renderArena c) \<Longrightarrow> sound_call d \<and> \<not> touches (place_of p) d"
  by (auto simp: in_field_def renderArena_def Let_def renderCharToScreen_def CLIENT_HORIZONTAL_SCALING_def)

definition drawable :: "GameState \<Rightarrow> bool" where
  "drawable gs \<longleftrightarrow> (\<forall>(i, d)\<in>set (g_players gs). printable (pd_direction d) \<and> has_pair (pd_color d)) \<and>
     (\<forall>f\<in>set (g_food gs). printable (fd_icon f) \<and> has_pair (fd_color f)) \<and>
     (\<forall>b\<in>set (g_speedBoosts gs). printable (bd_icon b) \<and> has_pair (bd_color b))"

lemma marks_sound:
  assumes "drawable gs" and "m \<in> set (object_marks gs @ player_marks gs)"
  shows "sound_call (mark_call m)"
  using assms
  by (auto simp: drawable_def object_marks_def player_marks_def snake_marks_def renderCharToScreen_def)

lemma score_rows_below:
  "d \<in> set (fst (score_rows row n ps)) \<Longrightarrow> y < row \<Longrightarrow> \<forall>q\<in>set ps. has_pair (pd_color q) \<Longrightarrow>
     sound_call d \<and> \<not> touches (y, x) d"
proof (induction row n ps rule: score_rows.induct)
  case (2 row n p ps)
  have "sound_call d \<and> \<not> touches (y, x) d" if "d \<in> set (score_row row p)"
    using that 2(3,4) by (auto simp: score_row_def)
  with 2 show ?case by (auto simp: Let_def split_beta split: if_splits)
qed simp

lemma score_rows_end: "row \<le> snd (score_rows row n ps)"
  by (induction row n ps rule: score_rows.induct) (auto simp: Let_def split_beta)

lemma score_outside:
  assumes "in_field c p" and "drawable (gameState c)" and "d \<in> set (renderScore env c)"
  shows "sound_call d \<and> \<not> touches (place_of p) d"
proof -
  let ?ps = "apply_sort (score_ord env) (map snd (g_players (gameState c)))"
  have "set ?ps = snd ` set (g_players (gameState c))" by (metis mset_apply_sort mset_eq_setD set_map)
  then have "\<forall>q\<in>set ?ps. has_pair (pd_color q)" using assms(2) by (auto simp: drawable_def)
  then show ?thesis
    using assms(1,3) score_rows_below [of d "c_height c + 7" 0 ?ps "snd p" "fst p * CLIENT_HORIZONTAL_SCALING"]
      score_rows_end [of "c_height c + 7" 0 ?ps]
    by (auto simp: in_field_def renderScore_def Let_def split_beta)
qed

text \<open>So a cell of the arena shows the last mark made on it, and is blank if there is none.\<close>

lemma screen_marks:
  assumes "render env c = Inr drawn" and "renderable (gameState c)" and "drawable (gameState c)" and "in_field c p"
    and nc: "ncurses rows cols put look" and size: "c_height c < rows" "c_width c * CLIENT_HORIZONTAL_SCALING < cols"
  shows "look (fold put drawn w) (place_of p) = map_of (rev (object_marks (gameState c) @ player_marks (gameState c))) p"
proof -
  let ?ms = "object_marks (gameState c) @ player_marks (gameState c)"
  have drawn: "drawn = [Erase] @ renderArena c @ map mark_call ?ms @ renderScore env c @ [Refresh]"
    using assms(1) renderPlayers_marks [OF assms(2)] by (auto simp: render_def renderObjects_marks)
  let ?w = "fold put (renderArena c) (put Erase w)"
  have refresh: "look (put Refresh v) pos = look v pos" for v pos by (rule ncurses_laws [OF nc])
  have "look (fold put drawn w) (place_of p) = look (fold put (map mark_call ?ms) ?w) (place_of p)"
    unfolding drawn fold_append comp_apply
    using score_outside [OF assms(4,3)] by (simp add: refresh fold_untouched [OF nc])
  also have "\<dots> = (case map_of (rev ?ms) (fst p, snd p) of None \<Rightarrow> look ?w (place_of p) | Some m \<Rightarrow> Some m)"
    by (rule fold_marks [OF nc])
      (use assms(4) size marks_sound [OF assms(3)] in \<open>auto simp: in_field_def CLIENT_HORIZONTAL_SCALING_def\<close>)
  also have "look ?w (place_of p) = look (put Erase w) (place_of p)"
    using arena_outside [OF assms(4)] by (intro fold_untouched [OF nc]) blast
  also have "\<dots> = None" by (rule ncurses_laws [OF nc])
  finally show ?thesis by (cases "map_of (rev ?ms) p") (simp_all del: rev_append map_of_append)
qed

text \<open>What a snake leaves on the screen: its body is drawn over its head.\<close>

lemma map_of_rev_const: "map_of (rev (map (\<lambda>b. (b, v)) bs)) p = (if p \<in> set bs then Some v else None)"
  by (induction bs) (auto simp: map_add_def)

lemma map_of_snake_marks:
  "map_of (rev (snake_marks d)) p =
     (if p \<in> set (tl (pd_segments d)) then Some (char_of ''c'', pd_color d)
      else if p = hd (pd_segments d) then Some (pd_direction d, 1) else None)"
  by (simp add: snake_marks_def map_add_def map_of_rev_const)

lemma map_of_rev_concat:
  assumes "\<forall>e'\<in>set es. e' \<noteq> e \<longrightarrow> map_of (rev (f e')) p = None"
  shows "map_of (rev (concat (map f es))) p = (if e \<in> set es then map_of (rev (f e)) p else None)"
  using assms by (induction es) (auto simp: map_add_def split: option.split)

lemma map_of_rev_concat_some:
  "(\<forall>e\<in>set es. map_of (rev (f e)) p = None) \<and> map_of (rev (concat (map f es))) p = None \<or>
   (\<exists>e\<in>set es. map_of (rev (f e)) p \<noteq> None \<and> map_of (rev (concat (map f es))) p = map_of (rev (f e)) p)"
proof (induction es)
  case (Cons a es)
  show ?case
  proof (cases "\<exists>e\<in>set es. map_of (rev (f e)) p \<noteq> None \<and> map_of (rev (concat (map f es))) p = map_of (rev (f e)) p")
    case True
    then show ?thesis by (auto simp: map_add_def)
  next
    case False
    with Cons show ?thesis by (auto simp: map_add_def)
  qed
qed simp

text \<open>What lies on the ground: the boost is drawn over the food.\<close>

definition ground :: "'g SnakeServer \<Rightarrow> cell \<Rightarrow> (byte \<times> int) option" where
  "ground s p = (case um_at (speedBoostMap s) p of Some b \<Rightarrow> Some (sb_icon b, sb_color b)
     | None \<Rightarrow> map_option (\<lambda>f. (f_icon f, f_color f)) (um_at (foodMap s) p))"

lemma map_of_object_marks:
  assumes "engine_inv s" and "shows_state s gs"
  shows "map_of (rev (object_marks gs)) p = ground s p"
proof -
  have food: "map (\<lambda>f. ((fd_x f, fd_y f), fd_icon f, fd_color f)) (g_food gs) =
      map (\<lambda>(c, f). (c, f_icon f, f_color f)) (foodMap s)"
    and boosts: "map (\<lambda>b. ((bd_x b, bd_y b), bd_icon b, bd_color b)) (g_speedBoosts gs) =
      map (\<lambda>(c, b). (c, sb_icon b, sb_color b)) (speedBoostMap s)"
    using assms(2) engine_inv_food [OF assms(1)] by (auto simp: shows_state_def)
  have at: "map_of (rev (map (\<lambda>(c, v). (c, h v)) m)) p = map_option h (um_at m p)" if "um_wf m" for m :: "(cell, 'v) umap" and h :: "'v \<Rightarrow> byte \<times> int"
    using that um_at_map_values [of "\<lambda>_. h" m p]
    by (subst map_of_rev_distinct) (simp_all add: um_wf_def um_keys_def um_at_def o_def case_prod_unfold)
  note wf = engine_wfD(2,3) [OF engine_invD [OF assms(1)]]
  show ?thesis
    unfolding object_marks_def food boosts ground_def
    using at [OF wf(1), of "\<lambda>f. (f_icon f, f_color f)"] at [OF wf(2), of "\<lambda>b. (sb_icon b, sb_color b)"]
    by (simp add: map_add_def split: option.split)
qed

section \<open>The server's game on the screen\<close>

abbreviation cells_of :: "Player \<Rightarrow> cell set" where
  "cells_of q \<equiv> set (segs (head q))"

text \<open>How a snake is drawn in a cell it covers.\<close>

definition snake_char :: "Player \<Rightarrow> cell \<Rightarrow> byte \<times> int" where
  "snake_char q p = (if p \<in> set (tl (segs (head q))) then (char_of ''c'', color q) else (direction q, 1))"

lemma map_of_shown_snake:
  "map_of (rev (snake_marks (player_view cid q))) p =
     (if p \<in> cells_of q then Some (snake_char q p) else None)"
proof -
  have "p \<in> cells_of q \<longleftrightarrow> p = head_cell q \<or> p \<in> set (tl (segs (head q)))"
    using segs_nonempty [of "head q"] hd_segs [of "head q"] by (cases "segs (head q)") (auto simp: head_cell_def)
  then show ?thesis by (simp add: map_of_snake_marks player_view_def snake_char_def head_cell_def)
qed

text \<open>What the server sends can be drawn, if its colours are among those of the client.\<close>

definition paintable :: "'g SnakeServer \<Rightarrow> bool" where
  "paintable s \<longleftrightarrow> (\<forall>(cid, q)\<in>set (clientIdToPlayerMap s). has_pair (color q)) \<and>
     (\<forall>(p, f)\<in>set (foodMap s). printable (f_icon f) \<and> has_pair (f_color f)) \<and>
     (\<forall>(p, b)\<in>set (speedBoostMap s). printable (sb_icon b) \<and> has_pair (sb_color b))"

lemma direction_printable: "is_direction d \<Longrightarrow> printable d"
  by (auto simp: is_direction_def key_defs printable_def)

lemma paintable_drawable:
  assumes "engine_inv s" and "shows_state s gs" and "paintable s"
  shows "drawable gs"
proof -
  note wf = engine_inv_players_wf [OF assms(1)]
  have "printable (pd_direction d) \<and> has_pair (pd_color d)" if d: "(i, d) \<in> set (g_players gs)" for i d
  proof -
    from d obtain q where q: "(i, q) \<in> set (clientIdToPlayerMap s)" "d = player_view i q"
      using shows_state_mem [OF assms(2) wf] by blast
    then have "player_wf q" using assms(1) um_at_in_set [OF wf, of i q] by (auto simp: engine_inv_def engine_wf_def)
    with q assms(3) show ?thesis by (auto simp: player_view_def player_wf_def direction_printable paintable_def)
  qed
  moreover have "\<forall>f\<in>set (g_food gs). printable (fd_icon f) \<and> has_pair (fd_color f)"
    "\<forall>b\<in>set (g_speedBoosts gs). printable (bd_icon b) \<and> has_pair (bd_color b)"
    using assms(2,3) by (auto simp: shows_state_def paintable_def)
  ultimately show ?thesis unfolding drawable_def by blast
qed

lemma screen_of_state:
  assumes "engine_inv s" and "shows_state s (gameState c)" and "c_width c = width s" and "c_height c = height s"
    and "render env c = Inr drawn" and "p \<in> arena s"
    and "ncurses rows cols put look" and "height s < rows" and "CLIENT_HORIZONTAL_SCALING * width s < cols"
    and "paintable s"
  shows "look (fold put drawn w) (place_of p) = (case map_of (rev (player_marks (gameState c))) p of Some m \<Rightarrow> Some m | None \<Rightarrow> ground s p)"
    "map_of (rev (player_marks (gameState c))) p = None \<longleftrightarrow> (\<forall>(cid, q)\<in>set (clientIdToPlayerMap s). p \<notin> cells_of q)"
    "map_of (rev (player_marks (gameState c))) p = Some m \<Longrightarrow>
      \<exists>(cid, q)\<in>set (clientIdToPlayerMap s). map_of (rev (snake_marks (player_view cid q))) p = Some m"
    "(cid, q) \<in> set (clientIdToPlayerMap s) \<Longrightarrow>
      \<forall>(cid', q')\<in>set (clientIdToPlayerMap s). cid' \<noteq> cid \<longrightarrow> p \<notin> cells_of q' \<Longrightarrow>
      map_of (rev (player_marks (gameState c))) p = map_of (rev (snake_marks (player_view cid q))) p"
proof -
  note mem = shows_state_mem [OF assms(2) engine_inv_players_wf [OF assms(1)]]
  have rend: "renderable (gameState c)" using mem segs_nonempty by (auto simp: renderable_def player_view_def)
  have "in_field c p" using assms(3,4,6) by (auto simp: in_field_def arena_def)
  moreover have "drawable (gameState c)" by (rule paintable_drawable [OF assms(1,2,10)])
  ultimately have "look (fold put drawn w) (place_of p) = map_of (rev (object_marks (gameState c) @ player_marks (gameState c))) p"
    using assms(3,4,8,9) by (intro screen_marks [OF assms(5) rend _ _ assms(7)]) (simp_all add: mult.commute)
  then
  show "look (fold put drawn w) (place_of p) = (case map_of (rev (player_marks (gameState c))) p of Some m \<Rightarrow> Some m | None \<Rightarrow> ground s p)"
    by (simp add: map_add_def map_of_object_marks [OF assms(1,2)] split: option.split)
  let ?es = "g_players (gameState c)" and ?f = "\<lambda>e. snake_marks (snd e)"
  have here: "map_of (rev (snake_marks (player_view cid q))) p \<noteq> None \<longleftrightarrow> p \<in> cells_of q" for cid q
    by (simp add: map_of_shown_snake)
  have bex: "(\<exists>e\<in>set ?es. Q (snd e)) \<longleftrightarrow> (\<exists>(cid, q)\<in>set (clientIdToPlayerMap s). Q (player_view cid q))" for Q
    using mem by force
  note split = map_of_rev_concat_some [of ?es ?f p, folded player_marks_def]
  have "map_of (rev (player_marks (gameState c))) p = None \<longleftrightarrow> \<not> (\<exists>e\<in>set ?es. map_of (rev (?f e)) p \<noteq> None)"
    using split by auto
  also have "\<dots> \<longleftrightarrow> \<not> (\<exists>(cid, q)\<in>set (clientIdToPlayerMap s). p \<in> cells_of q)"
    unfolding bex [of "\<lambda>d. map_of (rev (snake_marks d)) p \<noteq> None"] here ..
  finally show "map_of (rev (player_marks (gameState c))) p = None \<longleftrightarrow> (\<forall>(cid, q)\<in>set (clientIdToPlayerMap s). p \<notin> cells_of q)"
    by auto
  have "\<exists>e\<in>set ?es. map_of (rev (?f e)) p = Some m" if "map_of (rev (player_marks (gameState c))) p = Some m"
    using that split by (metis option.distinct(1))
  then show "map_of (rev (player_marks (gameState c))) p = Some m \<Longrightarrow>
      \<exists>(cid, q)\<in>set (clientIdToPlayerMap s). map_of (rev (snake_marks (player_view cid q))) p = Some m"
    using bex [of "\<lambda>d. map_of (rev (snake_marks d)) p = Some m"] by blast
  assume e: "(cid, q) \<in> set (clientIdToPlayerMap s)"
    and alone: "\<forall>(cid', q')\<in>set (clientIdToPlayerMap s). cid' \<noteq> cid \<longrightarrow> p \<notin> cells_of q'"
  have "\<forall>e'\<in>set ?es. e' \<noteq> (cid, player_view cid q) \<longrightarrow> map_of (rev (?f e')) p = None"
  proof (intro ballI impI)
    fix e' assume e': "e' \<in> set ?es" "e' \<noteq> (cid, player_view cid q)"
    then obtain cid' q' where q': "e' = (cid', player_view cid' q')" "(cid', q') \<in> set (clientIdToPlayerMap s)"
      using mem by (metis surj_pair)
    have "cid' \<noteq> cid"
      using q' e' e um_at_in_set [OF engine_inv_players_wf [OF assms(1)]] by (metis option.inject)
    with alone q' have "p \<notin> cells_of q'" by fastforce
    with q'(1) here [of cid' q'] show "map_of (rev (?f e')) p = None" by (metis snd_conv)
  qed
  from map_of_rev_concat [OF this] e mem
  show "map_of (rev (player_marks (gameState c))) p = map_of (rev (snake_marks (player_view cid q))) p"
    by (auto simp: player_marks_def)
qed

text \<open>
  C29: The user sees the server's game. Let a client that shows the state of the server draw a
  frame on a terminal that works as \<open>ncurses\<close> is documented to, in a window (with whatever on it)
  of more rows than the arena and more than twice its columns, and let the colours of the state be
  among those the client initialises. Then in the arena a cell without a snake shows the boost
  lying there, else the food, else nothing; a cell of one snake only shows \<open>c\<close> in its colour where
  its body lies, and the direction of the snake where only its head is; and a cell with several
  snakes shows one of them.
\<close>

theorem screen_shows_server:
  assumes "engine_inv s" and "shows_state s (gameState c)" and "c_width c = width s" and "c_height c = height s"
    and "render env c = Inr drawn" and "p \<in> arena s"
    and "ncurses rows cols put look" and "height s < rows" and "CLIENT_HORIZONTAL_SCALING * width s < cols"
    and "paintable s"
  shows "((\<forall>(cid, q)\<in>set (clientIdToPlayerMap s). p \<notin> cells_of q) \<longrightarrow> look (fold put drawn w) (place_of p) = ground s p) \<and>
    (\<forall>(cid, q)\<in>set (clientIdToPlayerMap s).
       p \<in> cells_of q \<and> (\<forall>(cid', q')\<in>set (clientIdToPlayerMap s). cid' \<noteq> cid \<longrightarrow> p \<notin> cells_of q') \<longrightarrow>
       look (fold put drawn w) (place_of p) = Some (snake_char q p)) \<and>
    ((\<exists>(cid, q)\<in>set (clientIdToPlayerMap s). p \<in> cells_of q) \<longrightarrow>
       (\<exists>(cid, q)\<in>set (clientIdToPlayerMap s). p \<in> cells_of q \<and>
          look (fold put drawn w) (place_of p) = Some (snake_char q p)))"
proof (intro conjI impI)
  note shown = screen_of_state [OF assms]
  show "look (fold put drawn w) (place_of p) = ground s p" if "\<forall>(cid, q)\<in>set (clientIdToPlayerMap s). p \<notin> cells_of q"
    using shown(1,2) that by simp
  show "\<forall>(cid, q)\<in>set (clientIdToPlayerMap s).
       p \<in> cells_of q \<and> (\<forall>(cid', q')\<in>set (clientIdToPlayerMap s). cid' \<noteq> cid \<longrightarrow> p \<notin> cells_of q') \<longrightarrow>
       look (fold put drawn w) (place_of p) = Some (snake_char q p)"
  proof (clarify)
    fix cid q assume e: "(cid, q) \<in> set (clientIdToPlayerMap s)" "p \<in> cells_of q"
      and alone: "\<forall>(cid', q')\<in>set (clientIdToPlayerMap s). cid' \<noteq> cid \<longrightarrow> p \<notin> cells_of q'"
    from shown(4) [OF e(1) alone] e(2)
    show "look (fold put drawn w) (place_of p) = Some (snake_char q p)"
      unfolding shown(1) map_of_shown_snake by simp
  qed
  assume "\<exists>(cid, q)\<in>set (clientIdToPlayerMap s). p \<in> cells_of q"
  then have "\<not> (\<forall>(cid, q)\<in>set (clientIdToPlayerMap s). p \<notin> cells_of q)" by blast
  then obtain m where m: "map_of (rev (player_marks (gameState c))) p = Some m" using shown(2) by blast
  from shown(3) [OF m] obtain cid q where q: "(cid, q) \<in> set (clientIdToPlayerMap s)"
    "map_of (rev (snake_marks (player_view cid q))) p = Some m" by blast
  from q(2) have "p \<in> cells_of q" "m = snake_char q p"
    unfolding map_of_shown_snake by (auto split: if_splits)
  with q(1) m shown(1)
  show "\<exists>(cid, q)\<in>set (clientIdToPlayerMap s). p \<in> cells_of q \<and>
          look (fold put drawn w) (place_of p) = Some (snake_char q p)"
    by (intro bexI [of _ "(cid, q)"]) (simp_all only: prod.case option.case simp_thms)
qed

text \<open>A window of 60 rows and 100 columns, as a function from its places.\<close>

fun demo_put :: "draw \<Rightarrow> (int \<times> int \<Rightarrow> (byte \<times> int) option) \<Rightarrow> (int \<times> int \<Rightarrow> (byte \<times> int) option)" where
  "demo_put Erase scr = (\<lambda>_. None)"
| "demo_put Refresh scr = scr"
| "demo_put (AddCh y x ch col) scr =
     (if 0 \<le> y \<and> y < 60 \<and> 0 \<le> x \<and> x < 100 then scr((y, x) \<mapsto> (ch, col)) else scr)"
| "demo_put (PrintW y x bs) scr =
     (\<lambda>(r, c). if r = y \<and> x \<le> c \<and> c < x + int (length bs) then Some (bs ! nat (c - x), 0) else scr (r, c))"

lemma demo_ncurses: "ncurses 60 100 demo_put (\<lambda>scr. scr)"
  by (auto simp: ncurses_def split: prod.split)

theorem screen_shows_server_witness:
  "\<exists>gs drawn. shows_state demo_state gs \<and> render demo_client_env (demo_client\<lparr>gameState := gs\<rparr>) = Inr drawn \<and>
     (fold demo_put drawn (\<lambda>_. Some (0x78, 2))) (place_of (10, 10)) = Some (direction (snake node2 0), 1) \<and>
     (fold demo_put drawn (\<lambda>_. Some (0x78, 2))) (place_of (10, 11)) = Some (char_of ''c'', color (snake node2 0)) \<and>
     (fold demo_put drawn (\<lambda>_. Some (0x78, 2))) (place_of (20, 20)) = None"
proof -
  obtain gs where gs: "shows_state demo_state gs"
    using fromProtocol_shows [OF server_invD(1) [OF demo_state_inv] demo_state_fits, of newest_first "gs_hdr (buildGameState demo_state)"]
    by auto
  let ?c = "demo_client\<lparr>gameState := gs\<rparr>"
  have "renderable (gameState ?c)"
    using shows_state_mem [OF gs engine_inv_players_wf [OF demo_state_engine]] segs_nonempty
    by (auto simp: renderable_def player_view_def)
  from render_total [OF this, of demo_client_env] obtain drawn where drawn: "render demo_client_env ?c = Inr drawn" by blast
  have size: "c_width ?c = width demo_state" "c_height ?c = height demo_state"
    by (simp_all add: demo_client_def SnakeClient_new_def demo_state_simps)
  have "paintable demo_state" by (simp add: paintable_def demo_state_simps snake_def has_pair_def Color_MAGENTA_def)
  note shown = screen_shows_server [OF demo_state_engine _ size drawn _ demo_ncurses _ _ this, where w = "\<lambda>_. Some (0x78, 2)"]
  have segs: "segs (head (snake node2 0)) = [(10, 10), (10, 11)]" "segs (head (snake (new_node 10 9) 900)) = [(10, 9)]"
    by (simp_all add: snake_def node2_def new_node_def)
  have "(fold demo_put drawn (\<lambda>_. Some (0x78, 2))) (place_of (10, 10)) = Some (direction (snake node2 0), 1)"
    using shown [where p = "(10, 10)"] gs by (simp add: demo_state_simps segs snake_char_def arena_def CLIENT_HORIZONTAL_SCALING_def)
  moreover have "(fold demo_put drawn (\<lambda>_. Some (0x78, 2))) (place_of (10, 11)) = Some (char_of ''c'', color (snake node2 0))"
    using shown [where p = "(10, 11)"] gs by (simp add: demo_state_simps segs snake_char_def arena_def CLIENT_HORIZONTAL_SCALING_def)
  moreover have "(fold demo_put drawn (\<lambda>_. Some (0x78, 2))) (place_of (20, 20)) = None"
    using shown [where p = "(20, 20)"] gs by (simp add: demo_state_simps segs ground_def arena_def CLIENT_HORIZONTAL_SCALING_def)
  ultimately show ?thesis using gs drawn by (intro exI [of _ gs] exI [of _ drawn]) simp
qed

end
