(* ===== verification/Server_Pace.thy ===== *)
theory Server_Pace
  imports Server_Properties
begin

text \<open>
  How fast snakes move: over the passes of a run every snake's next move stays at most one period
  ahead, no snake is left overdue, and boosts end on time.
\<close>

section \<open>Players that are on time\<close>

text \<open>\<open>paced\<close>: what holds throughout a pass; \<open>on_time\<close>: after the snakes that were due have moved.\<close>

definition paced :: "'g SnakeServer \<Rightarrow> Player \<Rightarrow> bool" where
  "paced s p \<longleftrightarrow> nextMoveTime p \<le> currentTick (timer s) + ms_to_ns (movementFrequencyMs s) \<and>
     p_movementFrequencyMs p = (if boosted p then boostedMovementFrequencyMs s else movementFrequencyMs s) \<and>
     (boosted p \<longrightarrow> boostExpireTime p \<le> currentTick (timer s) + ms_to_ns (boostDurationMs s))"

definition on_time :: "'g SnakeServer \<Rightarrow> Player \<Rightarrow> bool" where
  "on_time s p \<longleftrightarrow> paced s p \<and> currentTick (timer s) < nextMoveTime p \<and>
     (boosted p \<longrightarrow> currentTick (timer s) < boostExpireTime p)"

definition players_are :: "('g SnakeServer \<Rightarrow> Player \<Rightarrow> bool) \<Rightarrow> 'g SnakeServer \<Rightarrow> bool" where
  "players_are P s \<longleftrightarrow> (\<forall>cid p. um_at (clientIdToPlayerMap s) cid = Some p \<longrightarrow> P s p)"

text \<open>What \<open>paced\<close> and \<open>on_time\<close> look at in the server; no operation after the polling changes it.\<close>

definition rules :: "'g SnakeServer \<Rightarrow> int \<times> int \<times> int \<times> int" where
  "rules s = (movementFrequencyMs s, boostedMovementFrequencyMs s, boostDurationMs s, currentTick (timer s))"

lemma rules_same: "rules s = rules t \<Longrightarrow> paced s = paced t \<and> on_time s = on_time t"
  by (simp add: rules_def paced_def [abs_def] on_time_def [abs_def])

lemma rules_frame [simp]:
  "rules (s\<lparr>clientIdToPlayerMap := m\<rparr>) = rules s" "rules (s\<lparr>gen := g\<rparr>) = rules s"
  "rules (s\<lparr>foodMap := fm\<rparr>) = rules s" "rules (s\<lparr>speedBoostMap := bm\<rparr>) = rules s"
  "rules (s\<lparr>network := net\<rparr>) = rules s" "rules (s\<lparr>msgLog := l\<rparr>) = rules s"
  "rules (s\<lparr>currentSequence := c\<rparr>) = rules s" "rules (s\<lparr>serverHighScore := h\<rparr>) = rules s"
  "rules (s\<lparr>occupiedCellsBodies := oc\<rparr>) = rules s" "rules (modify_player cid f s) = rules s"
  by (simp_all add: rules_def modify_player_def)

text \<open>An operation that keeps the rules and, of the players, \<open>P\<close>.\<close>

definition keeps :: "('g SnakeServer \<Rightarrow> Player \<Rightarrow> bool) \<Rightarrow> 'g SnakeServer \<Rightarrow> 'g SnakeServer \<Rightarrow> bool" where
  "keeps P s s' \<longleftrightarrow> rules s' = rules s \<and> (players_are P s \<longrightarrow> players_are P s')"

lemma keeps_trans: "keeps P s t \<Longrightarrow> keeps P t u \<Longrightarrow> keeps P s u"
  by (simp add: keeps_def)

lemma keeps_refl [simp]: "keeps P s s"
  by (simp add: keeps_def)

definition by_rules :: "('g SnakeServer \<Rightarrow> Player \<Rightarrow> bool) \<Rightarrow> bool" where
  "by_rules P \<longleftrightarrow> (\<forall>s t. rules s = rules t \<longrightarrow> P s = P t)"

lemma by_rules_pace: "by_rules paced" "by_rules on_time"
  unfolding by_rules_def using rules_same by blast+

lemma keeps_players:
  assumes "by_rules P" and "rules s' = rules s"
    and "\<And>cid p. um_at (clientIdToPlayerMap s') cid = Some p \<Longrightarrow> (\<forall>cid q. um_at (clientIdToPlayerMap s) cid = Some q \<longrightarrow> P s q) \<Longrightarrow> P s p"
  shows "keeps P s s'"
proof -
  have same: "P s' = P s" using assms(1) [unfolded by_rules_def] assms(2) by blast
  show ?thesis
    unfolding keeps_def players_are_def same
  proof (intro conjI impI allI)
    show "rules s' = rules s" by (rule assms(2))
    fix cid p
    assume "\<forall>cid q. um_at (clientIdToPlayerMap s) cid = Some q \<longrightarrow> P s q"
      and "um_at (clientIdToPlayerMap s') cid = Some p"
    then show "P s p" by (intro assms(3))
  qed
qed

lemma keeps_same:
  "by_rules P \<Longrightarrow> rules s' = rules s \<Longrightarrow> clientIdToPlayerMap s' = clientIdToPlayerMap s \<Longrightarrow> keeps P s s'"
  by (rule keeps_players) simp_all

lemma keeps_modify:
  assumes "by_rules P" and "\<And>p. P s p \<Longrightarrow> P s (f p)" shows "keeps P s (modify_player cid f s)"
  using assms(1)
  by (rule keeps_players) (auto simp: modify_player_def um_simps split: if_splits intro: assms(2))

lemma keeps_erase: "by_rules P \<Longrightarrow> keeps P s (s\<lparr>clientIdToPlayerMap := um_erase cid (clientIdToPlayerMap s)\<rparr>)"
  by (rule keeps_players) (auto simp: um_simps split: if_splits)

section \<open>Handlers\<close>

lemma pace_stamp_log:
  assumes "by_rules P" and "stampMessage m s = (sm, t)" and "log_message sm t = Inr (bs, u)" shows "keeps P s u"
proof (rule keeps_same [OF assms(1)])
  from assms(3) have "\<exists>l. u = t\<lparr>msgLog := l\<rparr>" by (auto simp: log_message_def rbind_eq_Inr)
  with assms(2) show "rules u = rules s" "clientIdToPlayerMap u = clientIdToPlayerMap s"
    by (auto simp: stampMessage_def)
qed

lemma pace_join:
  assumes "handleClientJoin env snd_res j s = Inr s'" shows "keeps paced s s'"
proof -
  let ?w = "VServerWelcome \<lparr>sw_hdr = header_of SERVER_WELCOME (clientId (cj_hdr j))\<rparr>"
  from assms obtain t where t: "createNewPlayer env j s = Inr t" by (auto simp: handleClientJoin_def rbind_eq_Inr)
  obtain bs u where w: "stampMessage ?w t = (bs, u)" by (cases "stampMessage ?w t")
  with assms t obtain x v where v: "log_message bs u = Inr (x, v)" and s': "s' = v \<or> (\<exists>net. s' = v\<lparr>network := net\<rparr>)"
    by (auto simp: handleClientJoin_def rbind_eq_Inr split: if_splits)
  have "keeps paced s t"
  proof (rule keeps_players [OF by_rules_pace(1)])
    from t show "rules t = rules s" by (auto simp: createNewPlayer_def rbind_eq_Inr Let_def split: prod.splits)
    fix cid p assume at: "um_at (clientIdToPlayerMap t) cid = Some p"
      and old: "\<forall>cid q. um_at (clientIdToPlayerMap s) cid = Some q \<longrightarrow> paced s q"
    have "paced s (new_player s c x y nm)" for c x y nm by (simp add: paced_def new_player_def)
    with t at old show "paced s p"
      by (auto simp: createNewPlayer_def rbind_eq_Inr Let_def um_simps split: prod.splits if_splits)
  qed
  moreover have "keeps paced t v" using w v by (rule pace_stamp_log [OF by_rules_pace(1)])
  moreover have "keeps paced v s'" using s' by (auto intro: keeps_same [OF by_rules_pace(1)])
  ultimately show ?thesis by (blast intro: keeps_trans)
qed

lemma paced_steer [simp]: "paced s (steer k p) = paced s p"
  by (simp add: paced_def steer_def)

lemma pace_handlers: "keeps paced s (handleClientInput i s)" "keeps paced s (handleClientDisconnect d s)"
  using keeps_modify [OF by_rules_pace(1), of s "steer (ci_input i)" "client_of (ci_hdr i)"]
    keeps_erase [OF by_rules_pace(1), of s]
  by (simp_all add: handleClientInput_def handleClientDisconnect_def modify_player_def Let_def)

lemma pace_dispatch:
  assumes "dispatch env snd_res m (b, s) = Inr (b', s')" shows "keeps paced s s'"
proof -
  obtain sm t where st: "stampMessage m s = (sm, t)" by (cases "stampMessage m s")
  with assms obtain bs u where lg: "log_message sm t = Inr (bs, u)"
    by (auto simp: dispatch_def rbind_eq_Inr)
  have "keeps paced u s'"
    using assms st lg pace_handlers
    by (auto simp: dispatch_def rbind_eq_Inr split: option.splits MessageType.splits MessageVariant.splits
        intro: pace_join)
  with pace_stamp_log [OF by_rules_pace(1) st lg] show ?thesis by (rule keeps_trans)
qed

lemma pace_dispatch_all:
  assumes "rfold (dispatch env snd_res) ms (b, s) = Inr (b', s')" shows "keeps paced s s'"
proof -
  have "keeps paced s (snd (b', s'))"
    using assms by (rule rfold_preserves) (auto dest!: pace_dispatch elim: keeps_trans)
  then show ?thesis by simp
qed

section \<open>Moving and colliding\<close>

lemma on_time_paced: "on_time s p \<Longrightarrow> paced s p"
  by (simp add: on_time_def)

text \<open>The periods are positive and a boost does not slow down.\<close>

definition sane_rules :: "'g SnakeServer \<Rightarrow> bool" where
  "sane_rules s \<longleftrightarrow> 0 < boostedMovementFrequencyMs s \<and> boostedMovementFrequencyMs s \<le> movementFrequencyMs s \<and>
     0 < boostDurationMs s"

lemma step_player_on_time:
  assumes "sane_rules s" and "paced s p" shows "on_time s (step_player s p)"
  using assms
  by (auto simp: on_time_def paced_def step_player_def expire_def due_def sane_rules_def ms_to_ns_def Let_def
      split: prod.splits if_splits)

lemma updated_on_time:
  assumes "sane_rules s" and "players_are paced s" shows "players_are on_time (updated s)"
proof -
  have "rules (updated s) = rules s" by (simp add: updated_def Let_def)
  then have same: "on_time (updated s) = on_time s" using rules_same by blast
  have step: "map (step_entry s) (clientIdToPlayerMap s) = map (\<lambda>(cid, p). (cid, step_player s p)) (clientIdToPlayerMap s)"
    by (simp add: step_entry_def case_prod_unfold)
  have "clientIdToPlayerMap (updated s) = map (\<lambda>(cid, p). (cid, step_player s p)) (clientIdToPlayerMap s)"
    unfolding step [symmetric] by (simp add: updated_def Let_def)
  then have "um_at (clientIdToPlayerMap (updated s)) cid = map_option (step_player s) (um_at (clientIdToPlayerMap s) cid)" for cid
    by (simp add: um_at_map_values [where f = "\<lambda>_. step_player s"])
  with assms step_player_on_time [OF assms(1)] show ?thesis
    by (auto simp: players_are_def same)
qed

lemma on_time_feed [simp]: "on_time s (p\<lparr>head := h, score := n\<rparr>) = on_time s p"
  by (simp add: on_time_def paced_def)

lemma on_time_boost:
  assumes "sane_rules s" and "on_time s p"
  shows "on_time s (p\<lparr>boosted := True, p_movementFrequencyMs := boostedMovementFrequencyMs s,
          boostExpireTime := currentTick (timer s) + ms_to_ns (boostDurationMs s)\<rparr>)"
  using assms by (simp add: on_time_def paced_def sane_rules_def ms_to_ns_def)

lemma pace_check_player:
  assumes "sane_rules s" and "check_player cid (ds, s) = Inr (ds', s')" shows "keeps on_time s s'"
proof -
  let ?k = "keeps_same [OF by_rules_pace(2)]"
  have feed: "keeps on_time s (feedPlayer c cid s)" for c
    by (rule keeps_trans [OF keeps_modify [OF by_rules_pace(2), where f = "\<lambda>p. p\<lparr>head := grow (head p), score := score p + 1\<rparr>"]])
      (auto simp: feedPlayer_def intro: keeps_same [OF by_rules_pace(2)])
  have boost: "keeps on_time s (boostPlayer c cid s)" for c
    unfolding boostPlayer_def
    by (rule keeps_trans [OF keeps_modify [OF by_rules_pace(2) on_time_boost [OF assms(1)]]])
      (auto intro: keeps_same [OF by_rules_pace(2)])
  have track: "keeps on_time t t'" if "track_high_score cid t = Inr t'" for t t'
    using that by (auto simp: track_high_score_def rbind_eq_Inr intro: keeps_same [OF by_rules_pace(2)])
  from assms(2) obtain p where p: "player_at cid s = Inr p" by (auto simp: check_player_def rbind_eq_Inr)
  with assms(2) have "\<exists>t\<in>{s, feedPlayer (head_cell p) cid s, boostPlayer (head_cell p) cid s}. track_high_score cid t = Inr s'"
    by (auto simp: check_player_def rbind_eq_Inr Let_def split: if_splits)
  with feed boost track keeps_refl show ?thesis by (blast intro: keeps_trans)
qed

lemma pace_destroy:
  assumes "destroyPlayer env cid s = Inr s'" shows "keeps on_time s s'"
proof -
  from assms obtain cs col where s': "s' = (let t = fold (drop_food env col) cs s
      in t\<lparr>clientIdToPlayerMap := um_erase cid (clientIdToPlayerMap t)\<rparr>)"
    by (auto simp: destroyPlayer_def rbind_eq_Inr Let_def)
  have drop: "keeps on_time t (drop_food env col c t)" for c and t :: "'a SnakeServer"
    by (rule keeps_same [OF by_rules_pace(2)])
      (simp_all add: drop_food_def placeFoodAt_def Let_def split: prod.split)
  have "keeps on_time s (fold (drop_food env col) cs s)"
    by (rule fold_invariant [where Q = "\<lambda>_. True"]) (auto intro: keeps_trans drop)
  then show ?thesis unfolding s' Let_def by (rule keeps_trans) (rule keeps_erase [OF by_rules_pace(2)])
qed

lemma pace_checkCollisions:
  assumes "sane_rules s" and "checkCollisions env s = Inr s'" shows "keeps on_time s s'"
proof -
  from assms(2) obtain ds t where t: "rfold check_player (um_keys (clientIdToPlayerMap s)) ([], s) = Inr (ds, t)"
    and s': "destroyPlayers env ds t = Inr s' \<or> s' = t"
    by (auto simp: checkCollisions_def rbind_eq_Inr split: if_splits)
  have sane: "sane_rules u" if "keeps on_time s u" for u
    using that assms(1) by (simp add: keeps_def rules_def sane_rules_def)
  have "keeps on_time s (snd (ds, t))"
    using t by (rule rfold_preserves) (auto intro: keeps_trans [OF _ pace_check_player [OF sane]])
  moreover have "keeps on_time t s'" if "destroyPlayers env ds t = Inr s'"
    using that unfolding destroyPlayers_def
    by (rule rfold_preserves) (auto dest!: pace_destroy elim: keeps_trans)
  ultimately show ?thesis using s' by (auto elim: keeps_trans)
qed

text \<open>After the phase of moving everybody is on time; nobody was overdue if no snake moved.\<close>

lemma pace_move_phase:
  assumes "engine_inv s" and "sane_rules s" and "players_are paced s" and "move_phase env (b, s) = Inr (b', s')"
  shows "rules s' = rules s \<and> players_are on_time s'"
proof -
  have up: "rules (updated s) = rules s" "players_are on_time (updated s)" "sane_rules (updated s)"
    using updated_on_time [OF assms(2,3)] assms(2) by (simp_all add: updated_def Let_def sane_rules_def)
  from assms(4) consider (still) "s' = updated s"
    | (moved) t where "checkCollisions env (updated s) = Inr t" "s' = placeSpeedBoost env t"
    using updateSnakes_eq [OF assms(1)] by (auto simp: move_phase_def rbind_eq_Inr split: if_splits)
  then show ?thesis
  proof cases
    case still
    with up show ?thesis by simp
  next
    case moved
    have "keeps on_time t s'"
      unfolding moved(2) by (rule keeps_same [OF by_rules_pace(2)])
        (simp_all add: placeSpeedBoost_def Let_def split: prod.split)
    with pace_checkCollisions [OF up(3) moved(1)] up(1,2) show ?thesis by (auto simp: keeps_def)
  qed
qed

section \<open>Passes and runs\<close>

lemma pace_after_food:
  assumes "after_food env snd_res ms s = Inr s'" and "sane_rules s" and "players_are paced s"
    and "\<forall>b t. rfold (dispatch env snd_res) ms (False, s) = Inr (b, t) \<longrightarrow> engine_inv t"
  shows "rules s' = rules s \<and> players_are on_time s'"
proof -
  from assms(1) obtain b t b' u where t: "rfold (dispatch env snd_res) ms (False, s) = Inr (b, t)"
    and u: "move_phase env (b, t) = Inr (b', u)"
    and s': "broadcastGameState env snd_res u = Inr s' \<or> s' = u"
    by (auto simp: after_food_def rbind_eq_Inr split: prod.splits if_splits)
  from pace_dispatch_all [OF t] assms(3) have "rules t = rules s" "players_are paced t" by (simp_all add: keeps_def)
  moreover from this assms(2) have "sane_rules t" by (simp add: rules_def sane_rules_def)
  ultimately have "rules u = rules s \<and> players_are on_time u"
    using pace_move_phase [OF _ _ _ u] assms(4) t by auto
  moreover have "keeps on_time u s'"
  proof (cases "s' = u")
    case False
    with s' have bc: "broadcastGameState env snd_res u = Inr s'" by simp
    obtain m v where st: "stampMessage (VGameState (buildGameState u)) u = (m, v)"
      by (cases "stampMessage (VGameState (buildGameState u)) u")
    with bc obtain bs w where lg: "log_message m v = Inr (bs, w)" and "s' = w \<or> (\<exists>net. s' = w\<lparr>network := net\<rparr>)"
      by (auto simp: broadcastGameState_def rbind_eq_Inr split: if_splits)
    with pace_stamp_log [OF by_rules_pace(2) st lg] show ?thesis
      by (auto elim!: keeps_trans intro: keeps_same [OF by_rules_pace(2)])
  qed simp
  ultimately show ?thesis by (auto simp: keeps_def)
qed

lemma paced_later:
  assumes "paced s p" and "movementFrequencyMs t = movementFrequencyMs s"
    and "boostedMovementFrequencyMs t = boostedMovementFrequencyMs s" and "boostDurationMs t = boostDurationMs s"
    and "currentTick (timer s) \<le> currentTick (timer t)"
  shows "paced t p"
  using assms by (auto simp: paced_def)

lemma pace_pass:
  assumes "server_inv s" and "tick_ok env s inp" and "draws_escape env (width s) (height s)"
    and "sane_rules s" and "players_are paced s" and "currentTick (timer s) \<le> clock inp"
  shows "\<exists>s'. run_pass env inp s = Some (Inr (True, s')) \<and> server_inv s' \<and> width s' = width s \<and> height s' = height s \<and>
     rules s' = (movementFrequencyMs s, boostedMovementFrequencyMs s, boostDurationMs s, clock inp) \<and>
     players_are on_time s'"
proof -
  from pass_phases [OF assms(1-3)] obtain ms net u s' where
    u: "restocked (s\<lparr>timer := Timer_tick (clock inp) (timer s), network := net\<rparr>) u" and
    af: "after_food env (send_result inp) ms u = Inr s'" and
    mid: "\<forall>b v. rfold (dispatch env (send_result inp)) ms (False, u) = Inr (b, v) \<longrightarrow> engine_inv v" and
    s': "run_pass env inp s = Some (Inr (True, s'))" "server_inv s'" "width s' = width s" "height s' = height s"
    unfolding Let_def by blast
  from u obtain g fm where uf: "u = s\<lparr>timer := Timer_tick (clock inp) (timer s), network := net, gen := g, foodMap := fm\<rparr>"
    unfolding restocked_def by blast
  have "players_are paced u"
    using assms(5,6) paced_later [of s _ u] by (simp add: players_are_def uf)
  moreover have "sane_rules u" using assms(4) by (simp add: sane_rules_def uf)
  ultimately have "rules s' = rules u \<and> players_are on_time s'" using pace_after_food [OF af] mid by blast
  with s' show ?thesis by (simp add: rules_def uf)
qed

lemma pace_loop:
  assumes "server_inv s" and "ticks_ok env s inps" and "draws_escape env (width s) (height s)"
    and "sane_rules s" and "players_are paced s" and "sorted_wrt (\<le>) (currentTick (timer s) # map clock inps)"
  shows "\<exists>s'. run_loop env inps s = Some (Inr s') \<and> server_inv s' \<and>
     rules s' = (movementFrequencyMs s, boostedMovementFrequencyMs s, boostDurationMs s,
       last (currentTick (timer s) # map clock inps)) \<and>
     players_are (if inps = [] then paced else on_time) s'"
  using assms
proof (induction inps arbitrary: s)
  case Nil
  then show ?case by (simp add: rules_def)
next
  case (Cons inp inps)
  from Cons.prems have "tick_ok env s inp" "currentTick (timer s) \<le> clock inp" by simp_all
  from pace_pass [OF Cons.prems(1) this(1) Cons.prems(3-5) this(2)] obtain t where
    t: "run_pass env inp s = Some (Inr (True, t))" "server_inv t" "width t = width s" "height t = height s"
      "rules t = (movementFrequencyMs s, boostedMovementFrequencyMs s, boostDurationMs s, clock inp)"
      "players_are on_time t" by blast
  then have "sane_rules t" "players_are paced t" "currentTick (timer t) = clock inp"
    using Cons.prems(4) by (auto simp: sane_rules_def rules_def players_are_def on_time_def)
  with Cons.IH [of t] Cons.prems t obtain s' where
    "run_loop env inps t = Some (Inr s')" "server_inv s'"
    "rules s' = (movementFrequencyMs t, boostedMovementFrequencyMs t, boostDurationMs t, last (clock inp # map clock inps))"
    "players_are (if inps = [] then paced else on_time) s'" by auto
  moreover from this t(1,6) have "players_are on_time s'" by (cases "inps = []") auto
  ultimately show ?case using t(1,5) by (simp add: rules_def)
qed

section \<open>Properties\<close>

text \<open>
  C9: Snakes keep their pace. Let a server whose players are paced (a fresh server has none) run
  through sound passes whose clock readings never go back. It returns, and after the last of them
  no snake is overdue and none waits longer than 200 ms (a boost shortens the period to 133 ms, but
  only from the next move on); the period of a snake is 133 ms exactly while it is boosted; and a boost that has run out has been taken away, while none lasts longer
  than 8 s. So, as a pass moves the snakes that are due, every snake that lives on moves in every
  pass that comes 200 ms after the previous one.
\<close>

theorem snakes_keep_pace:
  assumes "server_inv s" and "\<forall>t. recordServerConfig s = Inr t \<longrightarrow> ticks_ok env t inps"
    and "draws_escape env (width s) (height s)" and "players_are paced s"
    and "movementFrequencyMs s = MOVEMENT_FREQUENCY_MS" and "boostedMovementFrequencyMs s = BOOSTED_MOVEMENT_FREQUENCY_MS"
    and "boostDurationMs s = SPEED_BOOST_DURATION_MS"
    and "sorted_wrt (\<le>) (currentTick (timer s) # map clock inps)" and "inps \<noteq> []"
  shows "\<exists>s'. run_server env inps s = Some (Inr s') \<and> server_inv s' \<and>
     (\<forall>cid p. um_at (clientIdToPlayerMap s') cid = Some p \<longrightarrow>
        clock (last inps) < nextMoveTime p \<and> nextMoveTime p \<le> clock (last inps) + ms_to_ns 200 \<and>
        p_movementFrequencyMs p = (if boosted p then 133 else 200) \<and>
        (boosted p \<longrightarrow> clock (last inps) < boostExpireTime p \<and> boostExpireTime p \<le> clock (last inps) + ms_to_ns 8000))"
proof -
  from recordServerConfig_total [OF assms(1)] obtain t where
    t: "recordServerConfig s = Inr t" "server_inv t" "width t = width s" "height t = height s" by blast
  then have "\<exists>l c. t = s\<lparr>currentSequence := c, msgLog := l\<rparr>"
    by (auto simp: recordServerConfig_def stampMessage_def log_message_def Let_def rbind_eq_Inr)
  then have same: "rules t = rules s" "clientIdToPlayerMap t = clientIdToPlayerMap s" "timer t = timer s"
    by auto
  with rules_same [OF same(1)] assms(4) have "players_are paced t" by (simp add: players_are_def)
  moreover have "sane_rules t"
    using same(1) assms(5-7) by (simp add: rules_def sane_rules_def MOVEMENT_FREQUENCY_MS_def
        BOOSTED_MOVEMENT_FREQUENCY_MS_def SPEED_BOOST_DURATION_MS_def)
  ultimately obtain s' where s': "run_loop env inps t = Some (Inr s')" "players_are on_time s'"
    and inv: "server_inv s'" and settings: "rules s' = (movementFrequencyMs t, boostedMovementFrequencyMs t, boostDurationMs t, last (currentTick (timer t) # map clock inps))"
    using pace_loop [OF t(2), of env inps] assms(2,3,8,9) t(1,3,4) same(3) by auto
  have "currentTick (timer s') = clock (last inps)" "movementFrequencyMs s' = 200" "boostedMovementFrequencyMs s' = 133"
    "boostDurationMs s' = 8000"
    using settings same(1) assms(5-7,9) by (simp_all add: rules_def last_map MOVEMENT_FREQUENCY_MS_def
        BOOSTED_MOVEMENT_FREQUENCY_MS_def SPEED_BOOST_DURATION_MS_def)
  with s'(1,2) inv t(1) show ?thesis
    by (auto simp: run_server_def players_are_def on_time_def paced_def)
qed

theorem snakes_keep_pace_witness:
  "\<exists>s'. run_server demo_env [demo_tick] demo_state = Some (Inr s') \<and>
     (\<lambda>e. nextMoveTime (snd e)) ` set (clientIdToPlayerMap s') \<subseteq> {7..200000006}"
proof -
  have ticks: "\<forall>t. recordServerConfig demo_state = Inr t \<longrightarrow> ticks_ok demo_env t [demo_tick]"
  proof (intro allI impI)
    fix t assume "recordServerConfig demo_state = Inr t"
    then have "network t = network demo_state" "clientIdToPlayerMap t = clientIdToPlayerMap demo_state"
      by (auto simp: recordServerConfig_def stampMessage_def log_message_def Let_def rbind_eq_Inr)
    with demo_tick_ok show "ticks_ok demo_env t [demo_tick]" by (simp add: tick_ok_def)
  qed
  have settings: "movementFrequencyMs demo_state = MOVEMENT_FREQUENCY_MS"
    "boostedMovementFrequencyMs demo_state = BOOSTED_MOVEMENT_FREQUENCY_MS"
    "boostDurationMs demo_state = SPEED_BOOST_DURATION_MS"
    by (simp_all add: demo_state_def demo_start_def SnakeServer_new_def initServerConfig_def)
  have "players_are paced demo_state"
    by (auto simp: players_are_def paced_def demo_state_simps snake_def um_at_def ms_to_ns_def split: if_splits)
  moreover have "draws_escape demo_env (width demo_state) (height demo_state)" by (simp add: demo_state_simps demo_draws_escape)
  moreover have "sorted_wrt (\<le>) (currentTick (timer demo_state) # map clock [demo_tick])"
    by (simp add: demo_state_simps demo_tick_def quiet_def)
  ultimately obtain s' where s': "run_server demo_env [demo_tick] demo_state = Some (Inr s')"
    and inv: "server_inv s'" and p: "\<And>cid p. um_at (clientIdToPlayerMap s') cid = Some p \<Longrightarrow>
      clock demo_tick < nextMoveTime p \<and> nextMoveTime p \<le> clock demo_tick + ms_to_ns 200"
    using snakes_keep_pace [OF demo_state_inv ticks _ _ settings] by auto
  have "um_wf (clientIdToPlayerMap s')" by (rule engine_wfD(1) [OF engine_invD [OF server_invD(1) [OF inv]]])
  with s' p show ?thesis
    by (fastforce simp: um_at_in_set demo_tick_def quiet_def ms_to_ns_def)
qed

end
