(* ===== verification/Layout.thy ===== *)
theory Layout
  imports Protocol
begin

text \<open>
  The static assertions of \<open>include/common/Protocol.h\<close> on the layout of the message structures in
  memory, for the usual layout of C++ on a machine with 64-bit addresses: a field stands at the
  next multiple of its alignment, and the size of a structure is a multiple of its alignment. What
  is sent is packed: it has no padding and does not depend on any of this.
\<close>

section \<open>Layout\<close>

text \<open>\<open>Vector n\<close> is a \<open>std::vector\<close> whose size is \<open>n\<close> words, which the library chooses.\<close>

datatype ctype = Scalar nat | Chars nat | Vector nat | Struct "ctype list"

fun alignof :: "ctype \<Rightarrow> nat" where
  "alignof (Scalar n) = n"
| "alignof (Chars n) = 1"
| "alignof (Vector n) = 8"
| "alignof (Struct ts) = fold max (map alignof ts) 1"

definition round_up :: "nat \<Rightarrow> nat \<Rightarrow> nat" where
  "round_up n a = (n + a - 1) div a * a"

fun sizeof :: "ctype \<Rightarrow> nat" and place :: "nat \<Rightarrow> ctype list \<Rightarrow> nat list \<times> nat" where
  "sizeof (Scalar n) = n"
| "sizeof (Chars n) = n"
| "sizeof (Vector n) = 8 * n"
| "sizeof (Struct ts) = round_up (snd (place 0 ts)) (alignof (Struct ts))"
| "place at [] = ([], at)"
| "place at (t # ts) =
     (let off = round_up at (alignof t); (offs, end_at) = place (off + sizeof t) ts in (off # offs, end_at))"

abbreviation offsetof :: "ctype list \<Rightarrow> nat \<Rightarrow> nat" where
  "offsetof ts i \<equiv> fst (place 0 ts) ! i"

section \<open>The structures\<close>

definition Header_fields :: "ctype list" where
  "Header_fields = [Scalar 4, Scalar 4, Scalar 8, Scalar 8]"

definition ServerConfig_fields :: "ctype list" where
  "ServerConfig_fields = [Struct Header_fields, Scalar 4, Scalar 4, Scalar 4, Scalar 4, Scalar 4, Scalar 4, Scalar 4,
     Scalar 8, Scalar 8, Scalar 8]"

definition ClientInput_fields :: "ctype list" where
  "ClientInput_fields = [Struct Header_fields, Chars 1]"

definition ClientDisconnect_fields :: "ctype list" where
  "ClientDisconnect_fields = [Struct Header_fields]"

definition ServerWelcome_fields :: "ctype list" where
  "ServerWelcome_fields = [Struct Header_fields]"

definition ClientJoin_fields :: "ctype list" where
  "ClientJoin_fields = [Struct Header_fields, Chars 16]"

definition Food_fields :: "ctype list" where
  "Food_fields = [Scalar 4, Chars 1, Scalar 4, Scalar 4]"

definition Segment_fields :: "ctype list" where
  "Segment_fields = [Scalar 4, Scalar 4]"

definition Player_fields :: "nat \<Rightarrow> ctype list" where
  "Player_fields n = [Scalar 4, Scalar 4, Chars 1, Scalar 4, Chars 16, Vector n]"

definition GameState_fields :: "nat \<Rightarrow> ctype list" where
  "GameState_fields n = [Struct Header_fields, Scalar 4, Chars 16, Vector n, Vector n, Vector n]"

lemmas fields_defs = Header_fields_def ServerConfig_fields_def ClientInput_fields_def ClientDisconnect_fields_def
  ServerWelcome_fields_def ClientJoin_fields_def Food_fields_def Segment_fields_def Player_fields_def
  GameState_fields_def

section \<open>The assertions\<close>

lemma layout_header:
  "fst (place 0 Header_fields) = [0, 4, 8, 16]" "sizeof (Struct Header_fields) = 24" "alignof (Struct Header_fields) = 8"
  by (simp_all add: fields_defs round_up_def)

lemma layout_server_config:
  "fst (place 0 ServerConfig_fields) = [0, 24, 28, 32, 36, 40, 44, 48, 56, 64, 72]"
  "sizeof (Struct ServerConfig_fields) = 80"
  by (simp_all add: fields_defs round_up_def)

lemma layout_client_messages:
  "offsetof ClientInput_fields 1 = 24" "sizeof (Struct ClientInput_fields) = 32"
  "sizeof (Struct ClientDisconnect_fields) = 24" "sizeof (Struct ServerWelcome_fields) = 24"
  "offsetof ClientJoin_fields 1 = 24" "sizeof (Struct ClientJoin_fields) = 40"
  by (simp_all add: fields_defs round_up_def)

lemma layout_game_state:
  "take 4 (fst (place 0 (GameState_fields n))) = [0, 24, 28, 48]"
  "alignof (Struct Food_fields) = 4" "sizeof (Struct Food_fields) = 16"
  "alignof (Struct (Player_fields n)) = 8" "sizeof (Struct Segment_fields) = 8"
  "fst (place 0 (Player_fields n)) = [0, 4, 8, 12, 16, 32]"
  by (simp_all add: fields_defs round_up_def Let_def split_beta)

section \<open>Padding\<close>

text \<open>The bytes that are sent of a structure without vectors: its fields one after the other.\<close>

fun packed :: "ctype \<Rightarrow> nat" where
  "packed (Scalar n) = n"
| "packed (Chars n) = n"
| "packed (Vector n) = 0"
| "packed (Struct ts) = sum_list (map packed ts)"

lemma packed_sizes:
  "packed (Struct Header_fields) = HEADER_PACKED_SIZE"
  "packed (Struct ServerConfig_fields) = SERVER_CONFIG_PACKED_SIZE"
  "packed (Struct ClientInput_fields) = CLIENT_INPUT_PACKED_SIZE"
  "packed (Struct ClientDisconnect_fields) = CLIENT_DISCONNECT_PACKED_SIZE"
  "packed (Struct ServerWelcome_fields) = SERVER_WELCOME_PACKED_SIZE"
  "packed (Struct ClientJoin_fields) = CLIENT_JOIN_PACKED_SIZE"
  by (simp_all add: fields_defs HEADER_PACKED_SIZE_def SERVER_CONFIG_PACKED_SIZE_def CLIENT_INPUT_PACKED_SIZE_def
      CLIENT_DISCONNECT_PACKED_SIZE_def SERVER_WELCOME_PACKED_SIZE_def CLIENT_JOIN_PACKED_SIZE_def)

fun scalars_ok :: "ctype \<Rightarrow> bool" where
  "scalars_ok (Scalar n) \<longleftrightarrow> 0 < n"
| "scalars_ok (Chars n) \<longleftrightarrow> True"
| "scalars_ok (Vector n) \<longleftrightarrow> True"
| "scalars_ok (Struct ts) \<longleftrightarrow> (\<forall>t\<in>set ts. scalars_ok t)"

lemma round_up_ge: "0 < a \<Longrightarrow> n \<le> round_up n a"
proof -
  assume a: "0 < a"
  have "n + a - 1 = round_up n a + (n + a - 1) mod a" by (simp add: round_up_def div_mult_mod_eq)
  moreover have "(n + a - 1) mod a < a" using a by simp
  ultimately show ?thesis by linarith
qed

lemma round_up_dvd: "a dvd round_up n a"
  by (simp add: round_up_def)

lemma alignof_pos: "scalars_ok t \<Longrightarrow> 0 < alignof t"
proof (cases t)
  case (Struct ts)
  have "k \<le> fold max ns k" for k and ns :: "nat list"
    by (induction ns arbitrary: k) (auto, metis max.cobounded2 order_trans)
  then have "1 \<le> fold max (map alignof ts) 1" .
  then show ?thesis by (simp add: Struct)
qed auto

text \<open>
  Fields do not overlap and stand at multiples of their alignments, so a structure is never
  smaller than what is sent of it.
\<close>

lemma place_sound:
  "scalars_ok t \<Longrightarrow> packed t \<le> sizeof t"
  "\<forall>t\<in>set ts. scalars_ok t \<Longrightarrow> at + sum_list (map packed ts) \<le> snd (place at ts) \<and>
     list_all2 (\<lambda>off t. at \<le> off \<and> alignof t dvd off \<and> off + sizeof t \<le> snd (place at ts)) (fst (place at ts)) ts"
proof (induction t and at ts rule: sizeof_place.induct)
  case (4 ts)
  moreover have "0 < alignof (Struct ts)" using "4.prems" by (rule alignof_pos)
  ultimately show ?case using round_up_ge [of "alignof (Struct ts)" "snd (place 0 ts)"] by simp
next
  case (6 at t ts)
  let ?off = "round_up at (alignof t)"
  have off: "at \<le> ?off" "alignof t dvd ?off" using 6 alignof_pos round_up_ge round_up_dvd by auto
  have t: "packed t \<le> sizeof t" using 6 by simp
  have ts: "?off + sizeof t + sum_list (map packed ts) \<le> snd (place (?off + sizeof t) ts)"
    "list_all2 (\<lambda>off t'. ?off + sizeof t \<le> off \<and> alignof t' dvd off \<and> off + sizeof t' \<le> snd (place (?off + sizeof t) ts))
       (fst (place (?off + sizeof t) ts)) ts"
    using 6 by (auto simp: split_beta)
  have "list_all2 (\<lambda>off t'. at \<le> off \<and> alignof t' dvd off \<and> off + sizeof t' \<le> snd (place (?off + sizeof t) ts))
       (fst (place (?off + sizeof t) ts)) ts"
    using ts(2) by (rule list_all2_mono) (use off(1) in auto)
  with off t ts(1) show ?case by (simp add: Let_def split_beta)
qed simp_all

end
