(* ===== verification/Spec2Isabelle.thy ===== *)
theory Spec2Isabelle
  imports Server_Properties Client_Server Replay_Run Network_Buffers Descriptor_Use Client_Start Client_Screen Server_Pace Layout
begin

text \<open>
  SnakeMultiplayer: a multiplayer snake game, C++. Paths below are relative to the repository.

  \<^bold>\<open>The program.\<close> One single-threaded server (\<open>src/snake_server\<close>) owns the game. A pass of its
  loop \<open>SnakeServer::run\<close> polls the kernel (\<open>NetworkServer\<close>), cuts what the connections sent into
  frames, deserialises them (\<open>include/common/Protocol.h\<close>), turns ended connections into
  disconnect messages, restocks food, stamps, logs (\<open>MessageLogWriter\<close>) and handles every
  message, moves the snakes that are due, checks collisions, and broadcasts the game state if it
  changed. In replay mode the messages come from a log (\<open>MessageLogReader\<close>). Clients are the
  terminal client (\<open>src/snake_client\<close>), which sends the keys that were pressed and draws the last
  game state, and the bot (\<open>src/snake_bot\<close>), which answers each game state with the next move on
  a map of distances to food. Both use \<open>NetworkClient\<close> and \<open>client::GameState\<close>.

  \<^bold>\<open>The theories and what they model.\<close>
  \<^item> \<open>Snake_Prelude\<close>: machine types, the result type (an exception or undefined behaviour is \<open>Inl\<close>
    of an error), \<open>rbind\<close> and \<open>rfold\<close> for sequencing and for loops whose body may throw.
  \<^item> \<open>Wire\<close>, \<open>Protocol\<close>, \<open>Protocol_Laws\<close>: \<open>Protocol.h\<close>. Records for the message structures,
    \<open>serialise\<close> as writes through a cursor into a resized buffer, \<open>deserialise\<close> as reads from a
    shrinking view; \<open>encode\<close> is the wire format as one expression. Laws: the serialisers produce
    \<open>encode\<close> and stay in their buffers, round trips in both directions, truncation is refused.
    The locales \<open>codec\<close> and \<open>strict_codec\<close> carry the field-by-field proofs. \<open>Layout\<close>: the static
    assertions on the structures in memory, and that padding is never sent.
  \<^item> \<open>Constants\<close>, \<open>Timer\<close>: \<open>Constants.h\<close>, \<open>Timer.h\<close>.
  \<^item> \<open>Framing\<close>: the frame of \<open>networkSend\<close> and \<open>sendToServer\<close> and the loop of both
    \<open>parseReceivedPacket\<close>; the locale \<open>stream_decoder\<close> shows that packet boundaries do not matter.
  \<^item> \<open>MessageLog\<close>: \<open>MessageLogWriter.h\<close>, \<open>MessageLogReader.h\<close>; a written log is read back in batches.
  \<^item> \<open>Unordered_Map\<close>: \<open>std::unordered_map\<close> as the list of its entries in iteration order; an
    insertion may reorder it in any way, which is a parameter (\<open>iter_order\<close>). Locale
    \<open>unordered_map\<close> with its interpretation \<open>um\<close>.
  \<^item> \<open>NetworkServer\<close>, \<open>NetworkServer_Laws\<close>: \<open>NetworkServer.cpp\<close>. The results of the system calls
    are arguments. Laws: the connection tables stay consistent, messages are attributed to the
    connection they came from and ids are never reused, polling and draining throw only if the kernel misbehaves, and what each does exactly.
  \<^item> \<open>PlayerNode\<close>: the linked list of \<open>Player.h\<close>; it refines a queue of cells.
  \<^item> \<open>SnakeServer\<close>: \<open>SnakeServer.h\<close>, \<open>SnakeServer.cpp\<close>, \<open>ServerConfig.h\<close> and the records of
    \<open>Player.h\<close>, one definition per member function, up to \<open>run_pass\<close>, \<open>run_loop\<close> and \<open>run_server\<close>.
  \<^item> \<open>Engine_Invariant\<close>, \<open>Engine_Update\<close>, \<open>Engine_Collisions\<close>: the invariant of the game and closed
    forms of \<open>updateSnakes\<close> (\<open>updated\<close>) and \<open>checkCollisions\<close> (\<open>dies\<close>, \<open>eats\<close>, \<open>outcome\<close>).
    \<open>Dropped_Food\<close>: the food that dead snakes leave, as a list of draws (\<open>rolls\<close>, \<open>lucky\<close>).
  \<^item> \<open>Server_Log\<close>: what passes and runs append to the log. \<open>Server_Pass\<close>: a pass is total under
    \<open>tick_ok\<close>. \<open>Server_Properties\<close>: the properties of engine and server, with a concrete
    environment and concrete states for their witnesses.
  \<^item> \<open>Server_Pace\<close>: over a run snakes move on time and boosts end on time.
  \<^item> \<open>Network_Buffers\<close>: the buffers of the connections and the work of a poll are bounded.
  \<^item> \<open>Sockets\<close>: \<open>startServer\<close>, \<open>connectToServer\<close>, the constructors and destructors around them and
    the address of the server, on a table of the descriptors of the process; which descriptors are
    open when a constructor throws. \<open>Descriptor_Use\<close>: what accepting and disconnecting do to that
    table; a running server leaks no descriptor. \<open>Server_Start\<close>: \<open>src/snake_server/main.cpp\<close>.
    \<open>Client_Start\<close>: the other two \<open>main.cpp\<close>, the set-up of the terminal and what an exception
    leaves of it.
  \<^item> \<open>Replay_Frame\<close>, \<open>Replay\<close>, \<open>Replay_Run\<close>: replaying a recording reproduces it, which
    \<open>tests/replay_determinism_test.cpp\<close> tests on one recording. What the engine does not look at
    (\<open>host\<close>), two servers in the same place of a pass (\<open>twins\<close>, \<open>mirror\<close>), what live passes do and log
    (\<open>live_step\<close>), and the simulation \<open>lags\<close>, in which silent passes of the live run stutter.
  \<^item> \<open>Client_State\<close>, \<open>NetworkClient\<close>: \<open>include/snake_client/GameState.h\<close>, \<open>NetworkClient.cpp\<close>.
    \<open>Client_Messages\<close>: the message loop that client and bot share, as the locale \<open>game_client\<close>.
  \<^item> \<open>SnakeClient\<close>, \<open>Client_Render\<close>, \<open>SnakeClient_Laws\<close>: \<open>SnakeClient.cpp\<close>, drawing as a list of
    \<open>ncurses\<close> calls.
  \<^item> \<open>Pathfinder\<close>, \<open>Breadth_First\<close>, \<open>Pathfinder_Laws\<close>: \<open>Pathfinder.cpp\<close>; the locale \<open>search_space\<close>
    proves breadth-first labelling, and the map is shown to hold exactly the distances.
  \<^item> \<open>SnakeBot\<close>, \<open>SnakeBot_Laws\<close>: \<open>SnakeBot.cpp\<close>.
  \<^item> \<open>Client_Sends\<close>: what client and bot send in any run. \<open>Client_Server\<close>: a broadcast shows every client the server's state, what clients send is
    understood, and the bot's move is safe on the server. \<open>Client_Screen\<close>: what the drawing
    calls leave on a terminal, which then shows the server's game. The terminal is a parameter with
    the documented laws of \<open>ncurses\<close> as a hypothesis.

  \<^bold>\<open>Correspondence.\<close> Every member function has one definition of the same name (a prefix
  \<open>net_\<close>, \<open>client_\<close>, \<open>bot_\<close> where two classes share a name); a lambda, a loop body or a block of a
  function that is reasoned about alone has its own. Members are fields of the record of the
  class. Loops over containers are folds over the list of entries; \<open>replaceFood\<close>, the search of
  the bot and reading a log are \<open>partial_function\<close>s whose termination is proved, the event loops
  recurse over the list of what the environment delivers. Integers are words where their width
  matters (wire fields, sequence numbers, cell counters) and \<open>int\<close> elsewhere, with the bounds in
  the invariants.

  \<^bold>\<open>Assumptions that appear as hypotheses.\<close>
  \<^item> \<open>tick_ok\<close>: the kernel reports events of open descriptors and fresh ones for new connections,
    sends succeed, frames deserialise, names of joining clients are terminated and do not end
    their connection in the same packet, the counter of client ids, an \<open>int\<close>, has not reached \<open>INT_MAX\<close>
    when a client connects (incrementing it then is undefined, \<open>IntOverflow\<close>), fewer than 65536 body segments exist (the counters of cells are 16 bits wide). Theorems show what
    happens when the conditions on frames, joins and sends are broken.
  \<^item> \<open>inputs_only\<close>: no client sends a message that only a server sends (a replay would drop it).
    \<open>fresh_fd\<close>: the kernel gives out descriptors that are not in use.
  \<^item> \<open>draws_escape\<close>: the generator does not for ever avoid all cells but five; without it
    \<open>replaceFood\<close> does not return.
  \<^item> \<open>ncurses\<close>: what the documentation of the terminal library promises of the four calls a frame is
    drawn with; \<open>paintable\<close>: colours and icons are among those the client can draw.
  \<^item> \<open>fits_wire\<close>: numbers fit the 32-bit fields they are sent in. \<open>on_map\<close>: the game state lies in the
    bot's arena, of fewer than \<open>INT_MAX\<close> cells.
  \<^item> The random numbers are drawn from the requested range (type \<open>uniform_int\<close>); \<open>std::sort\<close> sorts
    (type \<open>score_sort\<close>).

  \<^bold>\<open>Not modelled.\<close> Logging by \<open>spdlog\<close> and the benchmark line (output only), \<open>Json.h\<close> (an include),
  \<open>Hash.h\<close> (its values only influence iteration orders, which are a parameter), \<open>waitForReadable\<close>
  (it only waits), options of sockets and the ignored signal \<open>SIGPIPE\<close>. The model of
  \<open>receiveFromServer\<close> takes chunks of any length; that \<open>recv\<close> returns at most \<open>CLIENT_RECV_BUFFER_SIZE\<close>
  bytes is stated where it matters. A replay of the file \<open>snake_server.bin\<close> itself, which the server
  overwrites when it starts, is outside \<open>Server_Start\<close>, which reads the log at once. Overflow of \<open>int\<close> in scores and times is excluded by the bounds above, not modelled.
\<close>

end
